(* ===== verification/Prelude.thy ===== *)
theory Prelude
  imports Main "HOL-Library.Word" "HOL-Library.Sublist"
begin

unbundle bit_operations_syntax

text \<open>
  Shared vocabulary of the development: the outcome of a C++ call (a value, a thrown
  exception, or a call that never returns), state passing over such outcomes, and the
  parts of the C++ standard library the program uses on strings: \<open>find\<close>, \<open>substr\<close>,
  \<open>to_string\<close>, \<open>stoi\<close>, \<open>stoul\<close>, hexadecimal output and the ASCII character classes.

  A \<open>std::string\<close> is a list of \<open>char\<close>, one per byte.
\<close>

named_theorems eff_simps \<open>equations that run a state-passing call\<close>
named_theorems char_class \<open>the ASCII character classes, unfolded\<close>

section \<open>Outcomes and state passing\<close>

text \<open>The exceptions the program throws or lets through, with the text of \<open>what()\<close>.\<close>

datatype exn =
    Runtime_error string
  | Out_of_range string
  | Invalid_argument string
  | Filesystem_error string
  | System_error string

fun what_of :: "exn \<Rightarrow> string" where
  "what_of (Runtime_error m) = m"
| "what_of (Out_of_range m) = m"
| "what_of (Invalid_argument m) = m"
| "what_of (Filesystem_error m) = m"
| "what_of (System_error m) = m"

text \<open>
  \<open>Hang\<close> is the outcome of a call that never comes back: a coroutine whose awaited
  operation never completes, or a loop that runs forever.
\<close>

datatype 'a outcome = Ret 'a | Exn exn | Hang

type_synonym ('s, 'a) eff = "'s \<Rightarrow> 'a outcome \<times> 's"

definition ret :: "'a \<Rightarrow> ('s, 'a) eff" where
  "ret x s = (Ret x, s)"

definition raise :: "exn \<Rightarrow> ('s, 'a) eff" where
  "raise e s = (Exn e, s)"

definition hang :: "('s, 'a) eff" where
  "hang s = (Hang, s)"

definition bindE :: "('s, 'a) eff \<Rightarrow> ('a \<Rightarrow> ('s, 'b) eff) \<Rightarrow> ('s, 'b) eff" where
  "bindE m f s =
     (case m s of
        (Ret x, t) \<Rightarrow> f x t
      | (Exn e, t) \<Rightarrow> (Exn e, t)
      | (Hang, t) \<Rightarrow> (Hang, t))"

definition tryE :: "('s, 'a) eff \<Rightarrow> (exn \<Rightarrow> ('s, 'a) eff) \<Rightarrow> ('s, 'a) eff" where
  "tryE m h s =
     (case m s of
        (Ret x, t) \<Rightarrow> (Ret x, t)
      | (Exn e, t) \<Rightarrow> h e t
      | (Hang, t) \<Rightarrow> (Hang, t))"

definition getE :: "('s \<Rightarrow> 'a) \<Rightarrow> ('s, 'a) eff" where
  "getE f s = (Ret (f s), s)"

definition modE :: "('s \<Rightarrow> 's) \<Rightarrow> ('s, unit) eff" where
  "modE f s = (Ret (), f s)"

text \<open>An outcome computed without touching the state.\<close>

definition liftE :: "'a outcome \<Rightarrow> ('s, 'a) eff" where
  "liftE r s = (r, s)"

lemma ret_run [eff_simps]: "ret x s = (Ret x, s)"
  by (simp add: ret_def)

lemma raise_run [eff_simps]: "raise e s = (Exn e, s)"
  by (simp add: raise_def)

lemma hang_run [eff_simps]: "hang s = (Hang, s)"
  by (simp add: hang_def)

lemma getE_run [eff_simps]: "getE f s = (Ret (f s), s)"
  by (simp add: getE_def)

lemma modE_run [eff_simps]: "modE f s = (Ret (), f s)"
  by (simp add: modE_def)

lemma liftE_run [eff_simps]: "liftE r s = (r, s)"
  by (simp add: liftE_def)

lemma bindE_Ret [eff_simps]: "m s = (Ret x, t) \<Longrightarrow> bindE m f s = f x t"
  by (simp add: bindE_def)

lemma bindE_Exn [eff_simps]: "m s = (Exn e, t) \<Longrightarrow> bindE m f s = (Exn e, t)"
  by (simp add: bindE_def)

lemma bindE_Hang [eff_simps]: "m s = (Hang, t) \<Longrightarrow> bindE m f s = (Hang, t)"
  by (simp add: bindE_def)

lemma tryE_Ret [eff_simps]: "m s = (Ret x, t) \<Longrightarrow> tryE m h s = (Ret x, t)"
  by (simp add: tryE_def)

lemma tryE_Exn [eff_simps]: "m s = (Exn e, t) \<Longrightarrow> tryE m h s = h e t"
  by (simp add: tryE_def)

lemma tryE_Hang [eff_simps]: "m s = (Hang, t) \<Longrightarrow> tryE m h s = (Hang, t)"
  by (simp add: tryE_def)

lemma bindE_RetE:
  assumes "bindE m f s = (Ret y, u)"
  obtains x t where "m s = (Ret x, t)" and "f x t = (Ret y, u)"
  using assms by (auto simp: bindE_def split: prod.splits outcome.splits)

text \<open>
  Preservation of a relation between the states before and after a call: the shape of
  every invariant and frame lemma on state-passing code.
\<close>

definition preserves :: "('s \<Rightarrow> 's \<Rightarrow> bool) \<Rightarrow> ('s, 'a) eff \<Rightarrow> bool" where
  "preserves R m \<longleftrightarrow> (\<forall>s. R s (snd (m s)))"

lemma preservesI: "(\<And>s. R s (snd (m s))) \<Longrightarrow> preserves R m"
  by (simp add: preserves_def)

lemma preservesD: "preserves R m \<Longrightarrow> R s (snd (m s))"
  by (simp add: preserves_def)

lemma preserves_bindE:
  assumes m: "preserves R m" and f: "\<And>x. preserves R (f x)"
    and tr: "\<And>a b c. R a b \<Longrightarrow> R b c \<Longrightarrow> R a c"
  shows "preserves R (bindE m f)"
proof (rule preservesI)
  fix s
  obtain r t where mt: "m s = (r, t)" by (cases "m s")
  have st: "R s t" using preservesD [OF m, of s] mt by simp
  show "R s (snd (bindE m f s))"
  proof (cases r)
    case (Ret x)
    then show ?thesis
      using mt by (auto simp: eff_simps intro: tr [OF st] preservesD [OF f])
  qed (use mt st in \<open>simp_all add: eff_simps\<close>)
qed

lemma preserves_tryE:
  assumes m: "preserves R m" and h: "\<And>e. preserves R (h e)"
    and tr: "\<And>a b c. R a b \<Longrightarrow> R b c \<Longrightarrow> R a c"
  shows "preserves R (tryE m h)"
proof (rule preservesI)
  fix s
  obtain r t where mt: "m s = (r, t)" by (cases "m s")
  have st: "R s t" using preservesD [OF m, of s] mt by simp
  show "R s (snd (tryE m h s))"
  proof (cases r)
    case (Exn e)
    then show ?thesis
      using mt by (auto simp: eff_simps intro: tr [OF st] preservesD [OF h])
  qed (use mt st in \<open>simp_all add: eff_simps\<close>)
qed

text \<open>A measure of the state that no call raises, and that the first call of a sequence lowers.\<close>

definition not_above :: "('s \<Rightarrow> nat) \<Rightarrow> 's \<Rightarrow> 's \<Rightarrow> bool" where
  "not_above mu s t \<longleftrightarrow> mu t \<le> mu s"

lemma not_above_bindE:
  "preserves (not_above mu) m \<Longrightarrow> (\<And>x. preserves (not_above mu) (f x)) \<Longrightarrow>
     preserves (not_above mu) (bindE m f)"
  by (rule preserves_bindE) (auto simp: not_above_def)

lemma not_above_basic:
  "preserves (not_above mu) (ret x)" "preserves (not_above mu) (raise e)"
  "preserves (not_above mu) (getE g)" "preserves (not_above mu) (liftE r)"
  by (simp_all add: preserves_def not_above_def eff_simps)

lemma bindE_lowers:
  assumes run: "bindE m f s = (Ret r, u)" and m: "\<And>x t. m s = (Ret x, t) \<Longrightarrow> mu t < mu s"
    and f: "\<And>x. preserves (not_above mu) (f x)"
  shows "mu u < mu s"
proof -
  obtain x t where t: "m s = (Ret x, t)" "f x t = (Ret r, u)" using run by (rule bindE_RetE)
  have "not_above mu t u" using preservesD [OF f, of t x] t(2) by simp
  then show ?thesis using m [OF t(1)] by (simp add: not_above_def)
qed

section \<open>Broken-down time\<close>

record tm =
  tm_wday :: nat
  tm_mday :: nat
  tm_mon :: nat
  tm_year :: nat
  tm_hour :: nat
  tm_min :: nat
  tm_sec :: nat

section \<open>Searching in strings\<close>

text \<open>\<open>find\<close> of \<open>std::basic_string\<close>, for any character type: \<open>None\<close> is \<open>npos\<close>.\<close>

fun find_char :: "'c \<Rightarrow> 'c list \<Rightarrow> nat option" where
  "find_char c [] = None"
| "find_char c (x # xs) = (if x = c then Some 0 else map_option Suc (find_char c xs))"

definition find_char_from :: "'c \<Rightarrow> 'c list \<Rightarrow> nat \<Rightarrow> nat option" where
  "find_char_from c s start = map_option (\<lambda>k. start + k) (find_char c (drop start s))"

fun find_str :: "'c list \<Rightarrow> 'c list \<Rightarrow> nat option" where
  "find_str p [] = (if p = [] then Some 0 else None)"
| "find_str p (x # xs) =
     (if prefix p (x # xs) then Some 0 else map_option Suc (find_str p xs))"

definition starts_at_0 :: "string \<Rightarrow> string \<Rightarrow> bool" where
  \<comment> \<open>the test \<open>s.find(p) == 0\<close>\<close>
  "starts_at_0 s p \<longleftrightarrow> find_str p s = Some 0"

definition ends_with :: "string \<Rightarrow> char \<Rightarrow> bool" where
  "ends_with s c \<longleftrightarrow> s \<noteq> [] \<and> last s = c"

lemma starts_at_0_prefix [simp]: "starts_at_0 s p = prefix p s"
  by (cases s) (auto simp: starts_at_0_def)

lemma find_char_None: "find_char c s = None \<longleftrightarrow> c \<notin> set s"
  by (induction s) auto

lemma find_char_Some:
  "find_char c s = Some k \<Longrightarrow>
     k < length s \<and> c \<notin> set (take k s) \<and> s = take k s @ c # drop (Suc k) s"
  by (induction s arbitrary: k) (auto split: if_splits)

lemma find_char_append:
  "c \<notin> set xs \<Longrightarrow> find_char c (xs @ c # ys) = Some (length xs)"
  by (induction xs) auto

lemma find_char_less: "find_char c s = Some k \<Longrightarrow> k < length s"
  by (simp add: find_char_Some)

lemma find_char_from_bounds:
  "find_char_from c s start = Some pos \<Longrightarrow> start \<le> pos \<and> pos < length s"
  by (auto simp: find_char_from_def dest!: find_char_less)

lemma find_str_Some:
  "find_str p s = Some k \<Longrightarrow> k \<le> length s \<and> prefix p (drop k s)"
  by (induction s arbitrary: k) (auto split: if_splits)

lemma find_str_None: "find_str p s = None \<longleftrightarrow> \<not> sublist p s"
  by (induction s) (auto simp: sublist_Cons_right)

text \<open>A pattern is found where it was put, unless it overlaps the text before it.\<close>

lemma find_str_at:
  "p \<noteq> [] \<Longrightarrow> \<not> sublist p (xs @ butlast p) \<Longrightarrow> find_str p (xs @ p @ ys) = Some (length xs)"
proof (induction xs)
  case Nil
  then show ?case by (cases p) auto
next
  case (Cons x xs)
  have "\<not> prefix p (x # xs @ p @ ys)"
  proof
    assume "prefix p (x # xs @ p @ ys)"
    moreover have "x # xs @ p @ ys = (x # xs @ butlast p) @ last p # ys"
      using Cons(2) by simp
    moreover have "length p \<le> length (x # xs @ butlast p)" by simp
    ultimately have "prefix p (x # xs @ butlast p)"
      using prefix_length_prefix by (metis prefixI)
    then show False using Cons(3) by auto
  qed
  moreover have "\<not> sublist p (xs @ butlast p)"
    using Cons(3) by (auto simp: sublist_Cons_right)
  ultimately show ?case using Cons by simp
qed

section \<open>Character classes of the C locale\<close>

abbreviation code_of :: "char \<Rightarrow> nat" where
  "code_of c \<equiv> of_char c"

definition is_digit :: "char \<Rightarrow> bool" where
  "is_digit c \<longleftrightarrow> 48 \<le> code_of c \<and> code_of c \<le> 57"

definition is_upper :: "char \<Rightarrow> bool" where
  "is_upper c \<longleftrightarrow> 65 \<le> code_of c \<and> code_of c \<le> 90"

definition is_lower :: "char \<Rightarrow> bool" where
  "is_lower c \<longleftrightarrow> 97 \<le> code_of c \<and> code_of c \<le> 122"

definition is_alnum :: "char \<Rightarrow> bool" where
  "is_alnum c \<longleftrightarrow> is_digit c \<or> is_upper c \<or> is_lower c"

definition is_space :: "char \<Rightarrow> bool" where
  "is_space c \<longleftrightarrow> code_of c = 32 \<or> (9 \<le> code_of c \<and> code_of c \<le> 13)"

definition is_hex :: "char \<Rightarrow> bool" where
  "is_hex c \<longleftrightarrow> is_digit c \<or> (65 \<le> code_of c \<and> code_of c \<le> 70)
     \<or> (97 \<le> code_of c \<and> code_of c \<le> 102)"

lemmas char_class_defs [char_class] =
  is_digit_def is_upper_def is_lower_def is_alnum_def is_space_def is_hex_def

definition to_lower_char :: "char \<Rightarrow> char" where
  "to_lower_char c = (if is_upper c then char_of (code_of c + 32) else c)"

definition to_upper_char :: "char \<Rightarrow> char" where
  "to_upper_char c = (if is_lower c then char_of (code_of c - 32) else c)"

lemma to_lower_char_idem [simp]: "to_lower_char (to_lower_char c) = to_lower_char c"
  by (auto simp: to_lower_char_def is_upper_def)

lemma to_upper_char_idem [simp]: "to_upper_char (to_upper_char c) = to_upper_char c"
  by (auto simp: to_upper_char_def is_lower_def)

end
