(* ===== verification/CNumbers.thy ===== *)
theory CNumbers
  imports Prelude
begin

text \<open>
  Numbers in text, as the C++ library prints and reads them: \<open>to_string\<close> and the decimal
  \<open>format\<close> directives, hexadecimal output in upper and lower case, \<open>stoi\<close>, \<open>stoul\<close> (whose
  \<open>unsigned long\<close> has 32 bits on the Windows targets of the program) and the stream
  extraction \<open>>> hex >> int\<close>.
\<close>

section \<open>Printing\<close>

definition digit_char :: "nat \<Rightarrow> char" where
  "digit_char d = (if d < 10 then char_of (48 + d) else char_of (55 + d))"

definition digit_char_lower :: "nat \<Rightarrow> char" where
  "digit_char_lower d = (if d < 10 then char_of (48 + d) else char_of (87 + d))"

fun show_base :: "(nat \<Rightarrow> char) \<Rightarrow> nat \<Rightarrow> nat \<Rightarrow> string" where
  "show_base f b n =
     (if b < 2 \<or> n < b then [f n] else show_base f b (n div b) @ [f (n mod b)])"

declare show_base.simps [simp del]

definition dec :: "nat \<Rightarrow> string" where
  "dec n = show_base digit_char 10 n"

definition hex_lower :: "nat \<Rightarrow> string" where
  "hex_lower n = show_base digit_char_lower 16 n"

text \<open>\<open>setw(2) << setfill('0') << hex << uppercase\<close> on a byte.\<close>

definition hex2_upper :: "nat \<Rightarrow> string" where
  "hex2_upper n = [digit_char (n div 16 mod 16), digit_char (n mod 16)]"

text \<open>\<open>setw(w)\<close> with the default fill: right-aligned in \<open>w\<close> columns, never truncated.\<close>

definition pad_left :: "char \<Rightarrow> nat \<Rightarrow> string \<Rightarrow> string" where
  "pad_left c w s = replicate (w - length s) c @ s"

lemma length_pad_left: "length (pad_left c w s) = max w (length s)"
  by (simp add: pad_left_def)

section \<open>Reading\<close>

definition digit_val :: "char \<Rightarrow> nat" where
  "digit_val c =
     (if is_digit c then code_of c - 48
      else if is_upper c then code_of c - 55
      else code_of c - 87)"

definition read_base :: "nat \<Rightarrow> string \<Rightarrow> nat" where
  "read_base b s = foldl (\<lambda>n c. n * b + digit_val c) 0 s"

definition all_digits :: "string \<Rightarrow> bool" where
  "all_digits s \<longleftrightarrow> list_all is_digit s"

text \<open>
  The common start of \<open>stoi\<close> and \<open>stoul\<close> in base 10: skip white space, take an optional sign,
  then the longest run of digits; no digit at all throws \<open>invalid_argument\<close>.
\<close>

definition scan_sign :: "string \<Rightarrow> bool \<times> string" where
  "scan_sign s =
     (case dropWhile is_space s of
        [] \<Rightarrow> (False, [])
      | c # cs \<Rightarrow>
          if c = CHR ''-'' then (True, cs)
          else if c = CHR ''+'' then (False, cs)
          else (False, c # cs))"

definition stoi :: "string \<Rightarrow> int outcome" where
  "stoi s =
     (let (neg, r) = scan_sign s; ds = takeWhile is_digit r;
          v = (if neg then - int (read_base 10 ds) else int (read_base 10 ds))
      in if ds = [] then Exn (Invalid_argument ''invalid stoi argument'')
         else if v < - (2 ^ 31) \<or> 2 ^ 31 \<le> v then Exn (Out_of_range ''stoi argument out of range'')
         else Ret v)"

definition stoul :: "string \<Rightarrow> nat outcome" where
  "stoul s =
     (let (neg, r) = scan_sign s; ds = takeWhile is_digit r; v = read_base 10 ds
      in if ds = [] then Exn (Invalid_argument ''invalid stoul argument'')
         else if 2 ^ 32 \<le> v then Exn (Out_of_range ''stoul argument out of range'')
         else Ret (if neg then (2 ^ 32 - v) mod 2 ^ 32 else v))"

text \<open>
  \<open>iss >> std::hex >> value\<close> on the two characters of an escape: skip white space, an optional
  sign, an optional \<open>0x\<close>, then hexadecimal digits; it fails when there is none.
\<close>

definition scan_0x :: "string \<Rightarrow> string" where
  "scan_0x s =
     (case s of
        c # d # cs \<Rightarrow>
          if c = CHR ''0'' \<and> (d = CHR ''x'' \<or> d = CHR ''X'') then cs else s
      | _ \<Rightarrow> s)"

definition extract_hex :: "string \<Rightarrow> int option" where
  "extract_hex s =
     (let (neg, r) = scan_sign s; ds = takeWhile is_hex (scan_0x r);
          v = int (read_base 16 ds)
      in if ds = [] then None else Some (if neg then - v else v))"

section \<open>Printing and reading are inverse\<close>

lemma code_digit_char:
  "d < 16 \<Longrightarrow> code_of (digit_char d) = (if d < 10 then 48 + d else 55 + d)"
  by (simp add: digit_char_def)

lemma code_digit_char_lower:
  "d < 16 \<Longrightarrow> code_of (digit_char_lower d) = (if d < 10 then 48 + d else 87 + d)"
  by (simp add: digit_char_lower_def)

lemma digit_val_digit_char [simp]: "d < 16 \<Longrightarrow> digit_val (digit_char d) = d"
  by (auto simp: digit_val_def code_digit_char char_class)

lemma digit_val_digit_char_lower [simp]: "d < 16 \<Longrightarrow> digit_val (digit_char_lower d) = d"
  by (auto simp: digit_val_def code_digit_char_lower char_class)

lemma is_digit_digit_char [simp]: "d < 10 \<Longrightarrow> is_digit (digit_char d)"
  by (auto simp: code_digit_char char_class)

lemma is_hex_digit_char [simp]: "d < 16 \<Longrightarrow> is_hex (digit_char d)"
  by (auto simp: code_digit_char char_class)

lemma read_base_append: "read_base b (xs @ [c]) = read_base b xs * b + digit_val c"
  by (simp add: read_base_def)

lemma read_base_Nil [simp]: "read_base b [] = 0"
  by (simp add: read_base_def)

lemma show_base_ne [simp]: "show_base f b n \<noteq> []"
  by (subst show_base.simps) simp

lemma read_show_base:
  assumes f: "\<And>d. d < b \<Longrightarrow> digit_val (f d) = d" and b: "2 \<le> b"
  shows "read_base b (show_base f b n) = n"
  using assms
proof (induction f b n rule: show_base.induct)
  case (1 f b n)
  show ?case
  proof (cases "n < b")
    case True
    then show ?thesis
      using 1(2) by (subst show_base.simps) (simp add: read_base_def)
  next
    case False
    then have "read_base b (show_base f b (n div b)) = n div b"
      using 1 by simp
    then show ?thesis
      using False 1(2) [of "n mod b"] \<open>2 \<le> b\<close>
      by (subst show_base.simps) (simp add: read_base_append)
  qed
qed

lemma read_dec [simp]: "read_base 10 (dec n) = n"
  by (simp add: dec_def read_show_base)

lemma set_show_base:
  assumes "2 \<le> b" shows "set (show_base f b n) \<subseteq> f ` {..<b}"
  using assms
proof (induction f b n rule: show_base.induct)
  case (1 f b n)
  then show ?case by (subst show_base.simps) auto
qed

lemma dec_digits: "c \<in> set (dec n) \<Longrightarrow> is_digit c"
  using set_show_base [of 10 digit_char n] by (auto simp: dec_def)

lemma all_digits_dec [simp]: "all_digits (dec n)"
  by (auto simp: all_digits_def list_all_iff dest: dec_digits)

lemma dec_ne [simp]: "dec n \<noteq> []"
  by (simp add: dec_def)

lemma dec_inj [simp]: "dec m = dec n \<longleftrightarrow> m = n"
  by (metis read_dec)

lemma dec_not_mem: "\<not> is_digit c \<Longrightarrow> c \<notin> set (dec n)"
  by (auto dest: dec_digits)

lemma is_digit_not_space: "is_digit c \<Longrightarrow> \<not> is_space c"
  by (auto simp: char_class)

lemma scan_sign_digits:
  assumes "all_digits s" shows "scan_sign s = (False, s)"
proof (cases s)
  case (Cons c cs)
  with assms have c: "is_digit c" by (simp add: all_digits_def)
  then have "c \<noteq> CHR ''-''" and "c \<noteq> CHR ''+''" by (auto simp: char_class)
  with Cons c show ?thesis by (simp add: scan_sign_def is_digit_not_space)
qed (simp add: scan_sign_def)

lemma takeWhile_all_digits: "all_digits s \<Longrightarrow> takeWhile is_digit s = s"
  by (simp add: all_digits_def list_all_iff)

lemma stoi_digits:
  "all_digits s \<Longrightarrow> s \<noteq> [] \<Longrightarrow>
     stoi s = (if read_base 10 s < 2 ^ 31 then Ret (int (read_base 10 s))
               else Exn (Out_of_range ''stoi argument out of range''))"
  by (auto simp: stoi_def scan_sign_digits takeWhile_all_digits)

lemma stoul_digits:
  "all_digits s \<Longrightarrow> s \<noteq> [] \<Longrightarrow>
     stoul s = (if read_base 10 s < 2 ^ 32 then Ret (read_base 10 s)
                else Exn (Out_of_range ''stoul argument out of range''))"
  by (auto simp: stoul_def scan_sign_digits takeWhile_all_digits)

lemma stoi_dec: "n < 2 ^ 31 \<Longrightarrow> stoi (dec n) = Ret (int n)"
  by (simp add: stoi_digits)

lemma stoul_dec: "n < 2 ^ 32 \<Longrightarrow> stoul (dec n) = Ret n"
  by (simp add: stoul_digits)

lemma stoul_less: "stoul s = Ret n \<Longrightarrow> n < 2 ^ 32"
  by (auto simp: stoul_def Let_def split: prod.splits if_splits)

lemma stoul_no_hang: "stoul s \<noteq> Hang"
  by (auto simp: stoul_def Let_def split: prod.splits if_splits)

lemma stoi_no_hang: "stoi s \<noteq> Hang"
  by (auto simp: stoi_def Let_def split: prod.splits if_splits)

text \<open>The escape written for a byte is read back as that byte.\<close>

lemma hex_not_sign: "is_hex c \<Longrightarrow> c \<noteq> CHR ''-'' \<and> c \<noteq> CHR ''+'' \<and> \<not> is_space c"
  by (auto simp: char_class)

lemma not_hex_x: "is_hex c \<Longrightarrow> c \<noteq> CHR ''x'' \<and> c \<noteq> CHR ''X''"
  by (auto simp: char_class)

lemma extract_hex2 [simp]: "n < 256 \<Longrightarrow> extract_hex (hex2_upper n) = Some (int n)"
proof -
  assume n: "n < 256"
  define a b where "a = digit_char (n div 16 mod 16)" and "b = digit_char (n mod 16)"
  have h: "is_hex a" "is_hex b" by (simp_all add: a_def b_def)
  have s: "scan_sign [a, b] = (False, [a, b])"
    using hex_not_sign [OF h(1)] by (simp add: scan_sign_def)
  have x: "scan_0x [a, b] = [a, b]"
    using not_hex_x [OF h(2)] by (simp add: scan_0x_def)
  have "read_base 16 [a, b] = n"
    using n by (simp add: read_base_def a_def b_def)
  then show ?thesis
    using h s x by (simp add: extract_hex_def hex2_upper_def a_def [symmetric] b_def [symmetric])
qed

lemma length_dec3:
  assumes "100 \<le> n" "n < 1000" shows "length (dec n) = 3"
proof -
  have d: "\<not> n < 10" "\<not> n div 10 < 10" "n div 10 div 10 < 10" using assms by linarith+
  then show ?thesis
    by (simp only: dec_def show_base.simps [of _ _ n] show_base.simps [of _ _ "n div 10"]
      show_base.simps [of _ _ "n div 10 div 10"] if_False if_True length_append list.size) simp
qed

end
