(* ===== verification/StringUtils.thy ===== *)
theory StringUtils
  imports CNumbers
begin

text \<open>
  The string helpers of \<open>core/utils.hpp\<close>: \<open>split\<close>, \<open>parseCmd\<close>, \<open>to_lower\<close> and
  \<open>to_Upper\<close>, with the standard algorithms \<open>getline\<close> on a delimiter that the
  configuration reader and the header parser use. (\<open>sanitize_path\<close> of the same file is in
  the theory of path confinement.)
\<close>

section \<open>split\<close>

text \<open>The loop of the code: \<open>start\<close> moves past each delimiter that \<open>find\<close> reports.\<close>

function split_loop :: "string \<Rightarrow> char \<Rightarrow> nat \<Rightarrow> string list" where
  "split_loop sv delim start =
     (case find_char_from delim sv start of
        None \<Rightarrow> [drop start sv]
      | Some pos \<Rightarrow> take (pos - start) (drop start sv) # split_loop sv delim (pos + 1))"
  by pat_completeness auto
termination
  by (relation "measure (\<lambda>(sv, d, start). length sv - start)")
     (auto dest!: find_char_from_bounds)

declare split_loop.simps [simp del]

definition split :: "string \<Rightarrow> char \<Rightarrow> string list" where
  "split sv delim = split_loop sv delim 0"

text \<open>The reference: the list of the maximal delimiter-free runs.\<close>

fun split_ref :: "char \<Rightarrow> string \<Rightarrow> string list" where
  "split_ref d [] = [[]]"
| "split_ref d (c # cs) =
     (if c = d then [] # split_ref d cs
      else (c # hd (split_ref d cs)) # tl (split_ref d cs))"

text \<open>Joining with a separator, the inverse of splitting.\<close>

fun join :: "string \<Rightarrow> string list \<Rightarrow> string" where
  "join sep [] = []"
| "join sep [x] = x"
| "join sep (x # y # ys) = x @ sep @ join sep (y # ys)"

lemma split_ref_ne [simp]: "split_ref d s \<noteq> []"
  by (cases s) auto

lemma split_ref_code [code]:
  "split_ref d [] = [[]]"
  "split_ref d (c # cs) =
     (if c = d then [] # split_ref d cs
      else case split_ref d cs of [] \<Rightarrow> [[c]] | x # xs \<Rightarrow> (c # x) # xs)"
  by (auto split: list.splits)

lemma split_ref_no_delim: "d \<notin> set s \<Longrightarrow> split_ref d s = [s]"
  by (induction s) auto

lemma split_ref_append:
  "d \<notin> set xs \<Longrightarrow> split_ref d (xs @ d # ys) = xs # split_ref d ys"
  by (induction xs) auto

lemma split_loop_ref: "split_loop sv delim start = split_ref delim (drop start sv)"
proof (induction sv delim start rule: split_loop.induct)
  case (1 sv delim start)
  show ?case
  proof (cases "find_char delim (drop start sv)")
    case None
    then have "delim \<notin> set (drop start sv)"
      by (simp add: find_char_None)
    with None show ?thesis
      by (subst split_loop.simps) (simp add: find_char_from_def split_ref_no_delim)
  next
    case (Some k)
    let ?r = "drop start sv"
    have r: "?r = take k ?r @ delim # drop (Suc k) ?r" and nd: "delim \<notin> set (take k ?r)"
      using find_char_Some [OF Some] by simp_all
    have "split_ref delim ?r = take k ?r # split_ref delim (drop (Suc k) ?r)"
      by (subst r) (rule split_ref_append [OF nd])
    moreover have "split_loop sv delim (start + k + 1) = split_ref delim (drop (start + k + 1) sv)"
      using 1 [of "start + k"] Some by (simp add: find_char_from_def)
    ultimately show ?thesis
      using Some by (subst split_loop.simps) (simp add: find_char_from_def add.commute)
  qed
qed

lemma split_eq_ref: "split s d = split_ref d s"
  by (simp add: split_def split_loop_ref)

lemma join_Cons_append: "ys \<noteq> [] \<Longrightarrow> join sep ((x @ y) # ys) = x @ join sep (y # ys)"
  by (cases ys) simp_all

lemma join_split_ref: "join [d] (split_ref d s) = s"
proof (induction s)
  case (Cons c cs)
  obtain y ys where yz: "split_ref d cs = y # ys"
    by (cases "split_ref d cs") auto
  with Cons show ?case by (cases ys) auto
qed simp

lemma split_ref_parts: "p \<in> set (split_ref d s) \<Longrightarrow> d \<notin> set p"
proof (induction s arbitrary: p)
  case (Cons c cs)
  then show ?case
    by (cases "split_ref d cs") (auto split: if_splits)
qed simp

lemma split_ref_join:
  "xs \<noteq> [] \<Longrightarrow> \<forall>p\<in>set xs. d \<notin> set p \<Longrightarrow> split_ref d (join [d] xs) = xs"
proof (induction "[d]" xs rule: join.induct)
  case (3 x y ys)
  then show ?case by (simp add: split_ref_append)
qed (auto simp: split_ref_no_delim)

lemma length_split_ref: "length (split_ref d s) = Suc (count_list s d)"
  by (induction s) auto

section \<open>parseCmd\<close>

definition parseCmd :: "string \<Rightarrow> char \<Rightarrow> string list" where
  "parseCmd sv delim =
     (case find_char_from delim sv 0 of
        None \<Rightarrow> [sv]
      | Some pos \<Rightarrow> [take pos sv, drop (pos + 1) sv])"

lemma parseCmd_none: "delim \<notin> set sv \<Longrightarrow> parseCmd sv delim = [sv]"
  by (simp add: parseCmd_def find_char_from_def find_char_None [THEN iffD2])

lemma parseCmd_word:
  "delim \<notin> set w \<Longrightarrow> parseCmd (w @ delim # rest) delim = [w, rest]"
  by (simp add: parseCmd_def find_char_from_def find_char_append)

lemma parseCmd_cases:
  "parseCmd sv delim = [sv] \<and> delim \<notin> set sv \<or>
   (\<exists>w rest. sv = w @ delim # rest \<and> delim \<notin> set w \<and> parseCmd sv delim = [w, rest])"
proof (cases "delim \<in> set sv")
  case True
  then obtain w rest where "sv = w @ delim # rest" and "delim \<notin> set w"
    by (meson split_list_first)
  then show ?thesis by (blast intro: parseCmd_word)
qed (simp add: parseCmd_none)

lemma join_parseCmd: "join [d] (parseCmd s d) = s"
  using parseCmd_cases [of s d] by auto

section \<open>Case conversion\<close>

definition to_lower :: "string \<Rightarrow> string" where
  "to_lower sv = map to_lower_char sv"

definition to_Upper :: "string \<Rightarrow> string" where
  "to_Upper sv = map to_upper_char sv"

lemma to_lower_idem [simp]: "to_lower (to_lower s) = to_lower s"
  by (simp add: to_lower_def)

lemma to_Upper_idem [simp]: "to_Upper (to_Upper s) = to_Upper s"
  by (simp add: to_Upper_def)

lemma length_to_Upper [simp]: "length (to_Upper s) = length s"
  by (simp add: to_Upper_def)

section \<open>Lines and fields of a stream\<close>

text \<open>
  \<open>while (getline(stream, part, d)) ...\<close>: the fields between delimiters, where a last empty
  field (nothing after the final delimiter, or an empty stream) is not delivered.
\<close>

definition getlines :: "char \<Rightarrow> string \<Rightarrow> string list" where
  "getlines d s =
     (let ps = split_ref d s in if last ps = [] then butlast ps else ps)"

lemma getlines_Nil [simp]: "getlines d [] = []"
  by (simp add: getlines_def)

lemma getlines_last:
  "d \<notin> set x \<Longrightarrow> x \<noteq> [] \<Longrightarrow> getlines d x = [x]"
  by (simp add: getlines_def split_ref_no_delim)

lemma getlines_Cons:
  "d \<notin> set x \<Longrightarrow> getlines d (x @ d # ys) = x # getlines d ys"
  by (simp add: getlines_def split_ref_append Let_def)

lemma getlines_parts: "p \<in> set (getlines d s) \<Longrightarrow> d \<notin> set p"
  by (auto simp: getlines_def Let_def dest: split_ref_parts in_set_butlastD split: if_splits)

text \<open>Lines, each ended by the delimiter, are read back one by one.\<close>

lemma getlines_concat:
  "\<forall>x\<in>set xs. d \<notin> set x \<Longrightarrow> getlines d (concat (map (\<lambda>x. x @ [d]) xs)) = xs"
  by (induction xs) (auto simp: getlines_Cons)

lemma getlines_join:
  assumes "xs \<noteq> []" "\<forall>p\<in>set xs. d \<notin> set p" "last xs \<noteq> []"
  shows "getlines d (join [d] xs) = xs"
  using assms by (simp add: getlines_def split_ref_join)

end
