(* ===== verification/StdPath.thy ===== *)
theory StdPath
  imports StringUtils
begin

text \<open>
  \<open>std::filesystem::path\<close> on Windows, as the text it holds: the decomposition into root name,
  root directory and names, \<open>operator/\<close>, \<open>filename\<close> and the element-wise iteration. Both \<open>/\<close>
  and the backslash separate names. Text is in the narrow native encoding throughout, whose
  conversion to and from wide text is taken as exact.
\<close>

type_synonym path = string

abbreviation BSL :: char where "BSL \<equiv> CHR 0x5C"

definition is_slash :: "char \<Rightarrow> bool" where
  "is_slash c \<longleftrightarrow> c = CHR ''/'' \<or> c = BSL"

definition is_letter :: "char \<Rightarrow> bool" where
  "is_letter c \<longleftrightarrow> is_upper c \<or> is_lower c"

fun is_drive_prefix :: "path \<Rightarrow> bool" where
  "is_drive_prefix (c # d # _) \<longleftrightarrow> is_letter c \<and> d = CHR '':''"
| "is_drive_prefix _ \<longleftrightarrow> False"

text \<open>
  The length of the root name: a drive, a device prefix such as the one of extended paths, or
  a server after two slashes.
\<close>

definition is_device_prefix :: "path \<Rightarrow> bool" where
  "is_device_prefix p \<longleftrightarrow>
     4 \<le> length p \<and> is_slash (p ! 0) \<and> is_slash (p ! 3)
     \<and> (length p = 4 \<or> \<not> is_slash (p ! 4))
     \<and> (is_slash (p ! 1) \<and> (p ! 2 = CHR ''?'' \<or> p ! 2 = CHR ''.'')
        \<or> p ! 1 = CHR ''?'' \<and> p ! 2 = CHR ''?'')"

definition is_server_prefix :: "path \<Rightarrow> bool" where
  "is_server_prefix p \<longleftrightarrow>
     3 \<le> length p \<and> is_slash (p ! 0) \<and> is_slash (p ! 1) \<and> \<not> is_slash (p ! 2)"

definition root_name_len :: "path \<Rightarrow> nat" where
  "root_name_len p =
     (if is_drive_prefix p then 2
      else if is_device_prefix p then 3
      else if is_server_prefix p then 3 + length (takeWhile (\<lambda>c. \<not> is_slash c) (drop 3 p))
      else 0)"

definition root_name :: "path \<Rightarrow> string" where
  "root_name p = take (root_name_len p) p"

definition after_root :: "path \<Rightarrow> string" where
  "after_root p = drop (root_name_len p) p"

definition has_root_directory :: "path \<Rightarrow> bool" where
  "has_root_directory p \<longleftrightarrow> after_root p \<noteq> [] \<and> is_slash (hd (after_root p))"

definition is_absolute :: "path \<Rightarrow> bool" where
  "is_absolute p \<longleftrightarrow>
     (if is_drive_prefix p then has_root_directory p else root_name p \<noteq> [])"

text \<open>\<open>operator/\<close>.\<close>

definition path_append :: "path \<Rightarrow> path \<Rightarrow> path" where
  "path_append p q =
     (if is_absolute q then q
      else if root_name q \<noteq> [] \<and> root_name q \<noteq> root_name p then q
      else if has_root_directory q then root_name p @ after_root q
      else
        (if after_root p = []
         then (if 3 \<le> length (root_name p) then p @ [BSL] else p)
         else if is_slash (last p) then p
         else p @ [BSL]) @ after_root q)"

text \<open>The names between the slashes after the root name; runs of slashes separate once.\<close>

definition norm_slash :: "char \<Rightarrow> char" where
  "norm_slash c = (if is_slash c then BSL else c)"

definition names :: "string \<Rightarrow> string list" where
  "names s = filter (\<lambda>x. x \<noteq> []) (split_ref BSL (map norm_slash s))"

definition filename :: "path \<Rightarrow> string" where
  "filename p = last (split_ref BSL (map norm_slash (after_root p)))"

text \<open>The elements a path iterates over.\<close>

definition path_elems :: "path \<Rightarrow> path list" where
  "path_elems p =
     (if root_name p = [] then [] else [root_name p])
     @ (if has_root_directory p then [[hd (after_root p)]] else [])
     @ names (after_root p)
     @ (if names (after_root p) \<noteq> [] \<and> is_slash (last p) then [[]] else [])"

section \<open>Locations\<close>

text \<open>
  What a path denotes once it is made absolute: a root and the names below it. Its text joins
  them with backslashes.
\<close>

type_synonym loc = "string \<times> string list"

definition loc_str :: "loc \<Rightarrow> path" where
  "loc_str l = fst l @ BSL # join [BSL] (snd l)"

definition valid_name :: "string \<Rightarrow> bool" where
  "valid_name s \<longleftrightarrow> s \<noteq> [] \<and> s \<noteq> ''.'' \<and> s \<noteq> ''..'' \<and> list_all (\<lambda>c. \<not> is_slash c) s"

definition valid_drive :: "string \<Rightarrow> bool" where
  "valid_drive r \<longleftrightarrow> (\<exists>c. r = [c, CHR '':''] \<and> is_upper c)"

definition valid_server :: "string \<Rightarrow> bool" where
  "valid_server r \<longleftrightarrow>
     (\<exists>n. r = BSL # BSL # n \<and> n \<noteq> [] \<and> list_all (\<lambda>c. \<not> is_slash c) n)"

definition valid_root :: "string \<Rightarrow> bool" where
  "valid_root r \<longleftrightarrow> valid_drive r \<or> valid_server r"

definition valid_loc :: "loc \<Rightarrow> bool" where
  "valid_loc l \<longleftrightarrow> valid_root (fst l) \<and> list_all valid_name (snd l)"

lemma upper_not_slash: "is_upper c \<Longrightarrow> \<not> is_slash c"
  by (auto simp: is_slash_def char_class)

lemma slash_BSL [simp]: "is_slash BSL"
  by (simp add: is_slash_def)

lemma colon_not_slash [simp]: "\<not> is_slash (CHR '':'')"
  by (simp add: is_slash_def)

lemma letter_not_slash: "is_letter c \<Longrightarrow> \<not> is_slash c"
  by (auto simp: is_slash_def is_letter_def char_class)

lemma root_name_len_drive:
  "is_upper c \<Longrightarrow> root_name_len (c # CHR '':'' # s) = 2"
  by (simp add: root_name_len_def is_letter_def)

lemma root_name_len_server:
  assumes n: "n \<noteq> []" "list_all (\<lambda>c. \<not> is_slash c) n" and s: "s = [] \<or> \<not> is_slash (hd s)"
  shows "root_name_len (BSL # BSL # n @ BSL # s) = 2 + length n"
proof -
  obtain a m where am: "n = a # m" using n(1) by (cases n) auto
  have a: "\<not> is_slash a" and m: "list_all (\<lambda>c. \<not> is_slash c) m" using n(2) am by auto
  let ?p = "BSL # BSL # n @ BSL # s"
  have nd: "\<not> is_drive_prefix ?p" by (simp add: is_letter_def char_class)
  have t: "takeWhile (\<lambda>c. \<not> is_slash c) (m @ BSL # s) = m"
    using m by (induction m) auto
  have "m = []" if "is_device_prefix ?p"
    using that am m by (cases m) (auto simp: is_device_prefix_def)
  moreover have "is_server_prefix ?p" using am a by (simp add: is_server_prefix_def)
  ultimately show ?thesis
    using nd am t by (auto simp: root_name_len_def)
qed

lemma join_head: "list_all valid_name cs \<Longrightarrow> join [BSL] cs = [] \<or> \<not> is_slash (hd (join [BSL] cs))"
proof (induction "[BSL]" cs rule: join.induct)
  case (2 x)
  then show ?case by (cases x) (auto simp: valid_name_def)
next
  case (3 x y ys)
  then show ?case by (cases x) (auto simp: valid_name_def)
qed simp

lemma root_name_len_loc:
  assumes "valid_loc l" shows "root_name_len (loc_str l) = length (fst l)"
proof (cases "valid_drive (fst l)")
  case True
  then show ?thesis by (auto simp: valid_drive_def loc_str_def root_name_len_drive)
next
  case False
  then obtain n where "fst l = BSL # BSL # n" "n \<noteq> []" "list_all (\<lambda>c. \<not> is_slash c) n"
    using assms by (auto simp: valid_loc_def valid_root_def valid_server_def)
  then show ?thesis
    using root_name_len_server [of n "join [BSL] (snd l)"] join_head [of "snd l"] assms
    by (simp add: loc_str_def valid_loc_def)
qed

lemma root_name_loc [simp]: "valid_loc l \<Longrightarrow> root_name (loc_str l) = fst l"
  by (simp add: root_name_def root_name_len_loc) (simp add: loc_str_def)

lemma after_root_loc [simp]: "valid_loc l \<Longrightarrow> after_root (loc_str l) = BSL # join [BSL] (snd l)"
  by (simp add: after_root_def root_name_len_loc) (simp add: loc_str_def)

lemma has_root_directory_loc [simp]: "valid_loc l \<Longrightarrow> has_root_directory (loc_str l)"
  by (simp add: has_root_directory_def)

lemma norm_slash_name: "list_all (\<lambda>c. \<not> is_slash c) s \<Longrightarrow> map norm_slash s = s"
  by (induction s) (auto simp: norm_slash_def)

lemma valid_name_no_BSL: "valid_name s \<Longrightarrow> BSL \<notin> set s"
  by (auto simp: valid_name_def list_all_iff)

lemma norm_slash_join:
  "list_all valid_name cs \<Longrightarrow> map norm_slash (join [BSL] cs) = join [BSL] cs"
proof (induction "[BSL]" cs rule: join.induct)
  case (2 x)
  then show ?case by (simp add: norm_slash_name valid_name_def)
next
  case (3 x y ys)
  then have "map norm_slash x = x" by (simp add: norm_slash_name valid_name_def)
  moreover have "norm_slash BSL = BSL" by (simp add: norm_slash_def)
  ultimately show ?case using 3 by simp
qed simp

lemma split_join_names:
  "list_all valid_name cs \<Longrightarrow> cs \<noteq> [] \<Longrightarrow> split_ref BSL (join [BSL] cs) = cs"
  by (rule split_ref_join) (auto simp: list_all_iff valid_name_no_BSL)

lemma names_join [simp]:
  assumes "list_all valid_name cs" shows "names (BSL # join [BSL] cs) = cs"
proof (cases "cs = []")
  case False
  have "filter (\<lambda>x. x \<noteq> []) cs = cs"
    using assms by (auto simp: list_all_iff valid_name_def intro: filter_True)
  then show ?thesis
    using assms False
    by (simp add: names_def norm_slash_join split_join_names norm_slash_def)
qed (simp add: names_def norm_slash_def)

lemma names_loc: "valid_loc l \<Longrightarrow> names (after_root (loc_str l)) = snd l"
  by (simp add: valid_loc_def)

lemma filename_loc: "valid_loc l \<Longrightarrow> snd l \<noteq> [] \<Longrightarrow> filename (loc_str l) = last (snd l)"
  by (simp add: filename_def valid_loc_def norm_slash_join split_join_names norm_slash_def)

lemma names_valid: "s \<in> set (names p) \<Longrightarrow> s \<noteq> ''.'' \<Longrightarrow> s \<noteq> ''..'' \<Longrightarrow> valid_name s"
proof -
  assume a: "s \<in> set (names p)" "s \<noteq> ''.''" "s \<noteq> ''..''"
  then have s: "s \<in> set (split_ref BSL (map norm_slash p))" "s \<noteq> []"
    by (auto simp: names_def)
  have sub: "set x \<subseteq> set t" if "x \<in> set (split_ref d t)" for x d t
    using that
  proof (induction t arbitrary: x)
    case (Cons c cs)
    then show ?case
      by (cases "split_ref d cs") (force split: if_splits)+
  qed simp
  have "\<not> is_slash c" if "c \<in> set s" for c
  proof -
    have "c \<noteq> BSL" using split_ref_parts [OF s(1)] that by auto
    moreover have "c \<in> set (map norm_slash p)" using sub [OF s(1)] that by auto
    ultimately show ?thesis by (auto simp: norm_slash_def is_slash_def split: if_splits)
  qed
  with a s(2) show ?thesis by (simp add: valid_name_def list_all_iff)
qed

end
