(* ===== verification/StdFs.thy ===== *)
theory StdFs
  imports StdPath "HOL-Library.AList"
begin

text \<open>
  The file system behind \<open>std::filesystem\<close> and the C file functions, as far as the program
  calls it: a table of files, directories and symbolic links by location, the current
  directories, the clock that stamps writes (in seconds, with the local calendar), and the
  system's error texts (their language is the system's, so they are a field). The order of the table is the order of directory
  iteration. Names are compared exactly.
\<close>

section \<open>State\<close>

record attr =
  perms :: nat
  mtime :: int

definition writable :: "attr \<Rightarrow> bool" where
  \<comment> \<open>the owner's write permission; a read-only file has none\<close>
  "writable a \<longleftrightarrow> perms a div 128 mod 2 = 1"

datatype node = RegFile attr string | Directory attr | Symlink path

datatype errc =
    No_such_file | Path_not_found | File_exists | Not_empty | Access_denied | Too_many_links
  | Not_a_directory

record os =
  nodes :: "(loc \<times> node) list"
  cur_dirs :: "(string \<times> string list) list"
  cur_root :: string
  now :: int
  local_tm :: "int \<Rightarrow> tm"
  err_text :: "errc \<Rightarrow> string"

definition lookup :: "os \<Rightarrow> loc \<Rightarrow> node option" where
  "lookup os l = map_of (nodes os) l"

definition is_dir_node :: "node option \<Rightarrow> bool" where
  "is_dir_node n = (case n of Some (Directory _) \<Rightarrow> True | _ \<Rightarrow> False)"

definition put_node :: "loc \<Rightarrow> node \<Rightarrow> os \<Rightarrow> os" where
  "put_node l n os = os\<lparr>nodes := AList.update l n (nodes os)\<rparr>"

definition below :: "loc \<Rightarrow> loc \<Rightarrow> bool" where
  \<comment> \<open>\<open>l\<close> is \<open>d\<close> or lies beneath it\<close>
  "below d l \<longleftrightarrow> fst l = fst d \<and> prefix (snd d) (snd l)"

definition parent :: "loc \<Rightarrow> loc" where
  "parent l = (fst l, butlast (snd l))"

definition children :: "os \<Rightarrow> loc \<Rightarrow> loc list" where
  "children os d = filter (\<lambda>l. snd l \<noteq> [] \<and> parent l = d) (map fst (nodes os))"

definition drop_below :: "loc \<Rightarrow> os \<Rightarrow> os" where
  "drop_below d os = os\<lparr>nodes := filter (\<lambda>(l, n). \<not> below d l) (nodes os)\<rparr>"

section \<open>Resolving a path\<close>

text \<open>
  The system collapses \<open>.\<close> and \<open>..\<close> in the text of a path before it opens anything; at the
  root \<open>..\<close> stays.
\<close>

fun collapse :: "string list \<Rightarrow> string list \<Rightarrow> string list" where
  "collapse acc [] = acc"
| "collapse acc (c # cs) =
     (if c = ''.'' then collapse acc cs
      else if c = ''..'' then collapse (butlast acc) cs
      else collapse (acc @ [c]) cs)"

definition cur_dir :: "os \<Rightarrow> string \<Rightarrow> string list" where
  "cur_dir os r = (case map_of (cur_dirs os) r of Some cs \<Rightarrow> cs | None \<Rightarrow> [])"

definition root_key :: "string \<Rightarrow> string" where
  "root_key r = (if is_drive_prefix r then map to_upper_char r else map norm_slash r)"

definition full_loc :: "os \<Rightarrow> path \<Rightarrow> loc" where
  "full_loc os p =
     (let r = root_name p; cs = names (after_root p)
      in if r = []
         then (cur_root os,
               collapse (if has_root_directory p then [] else cur_dir os (cur_root os)) cs)
         else if is_drive_prefix p
         then (root_key r,
               collapse (if has_root_directory p then [] else cur_dir os (root_key r)) cs)
         else (root_key r, collapse [] cs))"

text \<open>
  Symbolic links are followed from the root down, at most 63 of them in one path.
\<close>

function walk :: "nat \<Rightarrow> os \<Rightarrow> string \<Rightarrow> string list \<Rightarrow> string list \<Rightarrow> errc + loc" where
  "walk n os r pre [] = Inr (r, pre)"
| "walk n os r pre (c # cs) =
     (case lookup os (r, pre @ [c]) of
        None \<Rightarrow> Inl (if cs = [] then No_such_file else Path_not_found)
      | Some (RegFile a b) \<Rightarrow> if cs = [] then Inr (r, pre @ [c]) else Inl Path_not_found
      | Some (Directory a) \<Rightarrow> walk n os r (pre @ [c]) cs
      | Some (Symlink t) \<Rightarrow>
          if n = 0 then Inl Too_many_links
          else
            let l = full_loc os (path_append (loc_str (r, pre)) t)
            in if is_dir_node (lookup os (fst l, []))
               then walk (n - 1) os (fst l) [] (snd l @ cs)
               else Inl Path_not_found)"
  by pat_completeness auto
termination
  by (relation "measures [\<lambda>(n, os, r, pre, cs). n, \<lambda>(n, os, r, pre, cs). length cs]") auto

definition follow_loc :: "os \<Rightarrow> loc \<Rightarrow> errc + loc" where
  "follow_loc os l =
     (if is_dir_node (lookup os (fst l, [])) then walk 63 os (fst l) [] (snd l)
      else Inl Path_not_found)"

definition follow :: "os \<Rightarrow> path \<Rightarrow> errc + loc" where
  "follow os p = (if p = [] then Inl Path_not_found else follow_loc os (full_loc os p))"

text \<open>The location a path names without following a link at its last name.\<close>

definition locate :: "os \<Rightarrow> path \<Rightarrow> errc + loc" where
  "locate os p =
     (if p = [] then Inl Path_not_found
      else
        let l = full_loc os p
        in if snd l = [] then follow_loc os l
           else case follow_loc os (parent l) of
                  Inl e \<Rightarrow> Inl Path_not_found
                | Inr d \<Rightarrow>
                    if is_dir_node (lookup os d) then Inr (fst d, snd d @ [last (snd l)])
                    else Inl Path_not_found)"

section \<open>Queries\<close>

definition canonical :: "os \<Rightarrow> path \<Rightarrow> errc + path" where
  "canonical os p = map_sum id loc_str (follow os p)"

definition not_found :: "errc \<Rightarrow> bool" where
  "not_found e \<longleftrightarrow> e = No_such_file \<or> e = Path_not_found"

definition status :: "os \<Rightarrow> path \<Rightarrow> errc + node" where
  "status os p =
     (case follow os p of
        Inl e \<Rightarrow> Inl e
      | Inr l \<Rightarrow> (case lookup os l of None \<Rightarrow> Inl No_such_file | Some n \<Rightarrow> Inr n))"

text \<open>The overloads that report an error: existence, or the error when it is another one.\<close>

definition exists_ec :: "os \<Rightarrow> path \<Rightarrow> errc + bool" where
  "exists_ec os p =
     (case status os p of Inr n \<Rightarrow> Inr True | Inl e \<Rightarrow> if not_found e then Inr False else Inl e)"

definition is_directory_ec :: "os \<Rightarrow> path \<Rightarrow> errc + bool" where
  "is_directory_ec os p =
     (case status os p of
        Inr n \<Rightarrow> Inr (is_dir_node (Some n))
      | Inl e \<Rightarrow> if not_found e then Inr False else Inl e)"

definition file_size_ec :: "os \<Rightarrow> path \<Rightarrow> errc + nat" where
  "file_size_ec os p =
     (case status os p of
        Inl e \<Rightarrow> Inl e
      | Inr (RegFile a b) \<Rightarrow> Inr (length b)
      | Inr _ \<Rightarrow> Inl Access_denied)"

definition last_write_time_ec :: "os \<Rightarrow> path \<Rightarrow> errc + int" where
  "last_write_time_ec os p =
     (case status os p of
        Inl e \<Rightarrow> Inl e
      | Inr (RegFile a b) \<Rightarrow> Inr (mtime a)
      | Inr (Directory a) \<Rightarrow> Inr (mtime a)
      | Inr (Symlink t) \<Rightarrow> Inl No_such_file)"

text \<open>The overloads that throw.\<close>

definition fs_error :: "os \<Rightarrow> string \<Rightarrow> errc \<Rightarrow> path \<Rightarrow> exn" where
  "fs_error os op e p =
     Filesystem_error (op @ '': '' @ err_text os e @ '': '' @ [CHR 0x22] @ p @ [CHR 0x22])"

definition or_throw :: "string \<Rightarrow> (os \<Rightarrow> path \<Rightarrow> errc + 'a) \<Rightarrow> path \<Rightarrow> (os, 'a) eff" where
  "or_throw op f p os =
     (case f os p of Inr x \<Rightarrow> (Ret x, os) | Inl e \<Rightarrow> (Exn (fs_error os op e p), os))"

definition fs_exists :: "path \<Rightarrow> (os, bool) eff" where
  "fs_exists = or_throw ''exists'' exists_ec"

definition fs_is_directory :: "path \<Rightarrow> (os, bool) eff" where
  "fs_is_directory = or_throw ''status'' is_directory_ec"

definition fs_canonical :: "path \<Rightarrow> (os, path) eff" where
  "fs_canonical = or_throw ''canonical'' canonical"

definition fs_file_size :: "path \<Rightarrow> (os, nat) eff" where
  "fs_file_size = or_throw ''file_size'' file_size_ec"

section \<open>Changes\<close>

text \<open>Each returns the error, if any, and the new state.\<close>

definition fs_remove :: "os \<Rightarrow> path \<Rightarrow> errc option \<times> os" where
  "fs_remove os p =
     (case locate os p of
        Inl e \<Rightarrow> (if not_found e then None else Some e, os)
      | Inr l \<Rightarrow>
          (case lookup os l of
             None \<Rightarrow> (None, os)
           | Some (Directory a) \<Rightarrow>
               if snd l = [] then (Some Access_denied, os)
               else if children os l \<noteq> [] then (Some Not_empty, os)
               else (None, drop_below l os)
           | Some _ \<Rightarrow> (None, drop_below l os)))"

text \<open>A drive cannot be removed, only emptied.\<close>

definition fs_remove_all :: "os \<Rightarrow> path \<Rightarrow> errc option \<times> os" where
  "fs_remove_all os p =
     (case locate os p of
        Inl e \<Rightarrow> (if not_found e then None else Some e, os)
      | Inr l \<Rightarrow>
          if lookup os l = None then (None, os)
          else if snd l = []
          then (Some Access_denied,
                os\<lparr>nodes := filter (\<lambda>(k, n). below l k \<longrightarrow> k = l) (nodes os)\<rparr>)
          else (None, drop_below l os))"

text \<open>\<open>create_directories\<close>: the missing directories on the way, from the top.\<close>

fun make_dirs :: "os \<Rightarrow> string \<Rightarrow> string list \<Rightarrow> string list \<Rightarrow> errc option \<times> os" where
  "make_dirs os r pre [] = (None, os)"
| "make_dirs os r pre (c # cs) =
     (case follow_loc os (r, pre @ [c]) of
        Inr l \<Rightarrow>
          if is_dir_node (lookup os l) then make_dirs os r (pre @ [c]) cs
          else (Some Not_a_directory, os)
      | Inl e \<Rightarrow>
          if not_found e
          then (case follow_loc os (r, pre) of
                  Inl e' \<Rightarrow> (Some e', os)
                | Inr d \<Rightarrow>
                    if is_dir_node (lookup os d) \<and> lookup os (fst d, snd d @ [c]) = None
                    then make_dirs
                           (put_node (fst d, snd d @ [c])
                              (Directory \<lparr>perms = 511, mtime = now os\<rparr>) os)
                           r (pre @ [c]) cs
                    else (Some File_exists, os))
          else (Some e, os))"

definition fs_create_directories :: "os \<Rightarrow> path \<Rightarrow> errc option \<times> os" where
  "fs_create_directories os p =
     (if p = [] then (Some Path_not_found, os)
      else
        let l = full_loc os p
        in if is_dir_node (lookup os (fst l, [])) then make_dirs os (fst l) [] (snd l)
           else (Some Path_not_found, os))"

text \<open>Moving a tree: every location beneath \<open>a\<close> gets the prefix \<open>b\<close> in its place.\<close>

definition rebase :: "loc \<Rightarrow> loc \<Rightarrow> loc \<Rightarrow> loc" where
  "rebase a b l = (fst b, snd b @ drop (length (snd a)) (snd l))"

definition move_tree :: "loc \<Rightarrow> loc \<Rightarrow> os \<Rightarrow> os" where
  "move_tree a b os =
     os\<lparr>nodes := map (\<lambda>(l, n). (if below a l then rebase a b l else l, n))
          (filter (\<lambda>(l, n). below a l \<or> \<not> below b l) (nodes os))\<rparr>"

text \<open>
  \<open>rename\<close>: an existing target is replaced only when both are no directories.
\<close>

definition fs_rename :: "os \<Rightarrow> path \<Rightarrow> path \<Rightarrow> errc option \<times> os" where
  "fs_rename os p q =
     (case locate os p of
        Inl e \<Rightarrow> (Some e, os)
      | Inr a \<Rightarrow>
          (case lookup os a of
             None \<Rightarrow> (Some No_such_file, os)
           | Some n \<Rightarrow>
               (case locate os q of
                  Inl e \<Rightarrow> (Some e, os)
                | Inr b \<Rightarrow>
                    if snd a = [] \<or> snd b = [] then (Some Access_denied, os)
                    else if a = b then (None, os)
                    else if below a b then (Some Access_denied, os)
                    else if lookup os b \<noteq> None
                         \<and> (is_dir_node (Some n) \<or> is_dir_node (lookup os b))
                    then (Some Access_denied, os)
                    else (None, move_tree a b os))))"

text \<open>
  Opening a file for writing with truncation creates it where its directory exists; a
  directory cannot be opened.
\<close>

definition open_trunc :: "os \<Rightarrow> path \<Rightarrow> (errc + loc) \<times> os" where
  "open_trunc os p =
     (case follow os p of
        Inr l \<Rightarrow>
          (case lookup os l of
             Some (RegFile a b) \<Rightarrow>
               if writable a then (Inr l, put_node l (RegFile (a\<lparr>mtime := now os\<rparr>) []) os)
               else (Inl Access_denied, os)
           | _ \<Rightarrow> (Inl Access_denied, os))
      | Inl e \<Rightarrow>
          (case locate os p of
             Inl e' \<Rightarrow> (Inl e', os)
           | Inr l \<Rightarrow>
               if lookup os l = None
               then (Inr l, put_node l (RegFile \<lparr>perms = 511, mtime = now os\<rparr> []) os)
               else (Inl e, os)))"

text \<open>The contents of an open file, replaced.\<close>

definition set_contents :: "loc \<Rightarrow> string \<Rightarrow> os \<Rightarrow> os" where
  "set_contents l b os =
     (case lookup os l of
        Some (RegFile a _) \<Rightarrow> put_node l (RegFile (a\<lparr>mtime := now os\<rparr>) b) os
      | _ \<Rightarrow> os)"

text \<open>\<open>copy_file\<close> with \<open>overwrite_existing\<close>; the copy keeps the attributes.\<close>

definition fs_copy_file :: "os \<Rightarrow> path \<Rightarrow> path \<Rightarrow> errc option \<times> os" where
  "fs_copy_file os p q =
     (case follow os p of
        Inl e \<Rightarrow> (Some e, os)
      | Inr a \<Rightarrow>
          (case lookup os a of
             Some (RegFile at b) \<Rightarrow>
               (case (case follow os q of Inr l \<Rightarrow> Inr l | Inl e \<Rightarrow> locate os q) of
                  Inl e \<Rightarrow> (Some e, os)
                | Inr l \<Rightarrow>
                    (case lookup os l of
                       None \<Rightarrow> (None, put_node l (RegFile at b) os)
                     | Some (RegFile at' _) \<Rightarrow>
                         if l = a then (Some File_exists, os)
                         else if \<not> writable at' then (Some Access_denied, os)
                         else (None, put_node l (RegFile at b) os)
                     | Some _ \<Rightarrow> (Some File_exists, os)))
           | _ \<Rightarrow> (Some Access_denied, os)))"

section \<open>Well-formed file systems\<close>

text \<open>
  No location twice, every location is a root or lies in a directory, roots are directories,
  and names and roots are what the system admits.
\<close>

definition wf_node :: "os \<Rightarrow> loc \<Rightarrow> node \<Rightarrow> bool" where
  "wf_node os l n \<longleftrightarrow> valid_loc l \<and>
     (if snd l = [] then is_dir_node (Some n) else is_dir_node (lookup os (parent l)))"

definition wf_os :: "os \<Rightarrow> bool" where
  "wf_os os \<longleftrightarrow> distinct (map fst (nodes os)) \<and> (\<forall>(l, n)\<in>set (nodes os). wf_node os l n)
     \<and> (\<forall>(r, cs)\<in>set (cur_dirs os). list_all valid_name cs)"

lemma wf_osD: "wf_os os \<Longrightarrow> lookup os l = Some n \<Longrightarrow> wf_node os l n"
  by (auto simp: wf_os_def lookup_def dest!: map_of_SomeD)

lemma wf_valid: "wf_os os \<Longrightarrow> lookup os l \<noteq> None \<Longrightarrow> valid_loc l"
  by (auto simp: wf_node_def dest!: wf_osD)

lemma wf_parent: "wf_os os \<Longrightarrow> lookup os (r, pre @ [c]) \<noteq> None \<Longrightarrow> is_dir_node (lookup os (r, pre))"
  by (auto simp: wf_node_def parent_def dest!: wf_osD)

lemma wf_ancestor:
  "wf_os os \<Longrightarrow> lookup os (r, pre @ cs) \<noteq> None \<Longrightarrow> cs \<noteq> [] \<Longrightarrow> is_dir_node (lookup os (r, pre))"
proof (induction cs rule: rev_induct)
  case (snoc c cs)
  have "is_dir_node (lookup os (r, pre @ cs))"
    using wf_parent [of os r "pre @ cs" c] snoc by simp
  then show ?case
    using snoc by (cases "cs = []") (auto simp: is_dir_node_def split: option.splits)
qed simp

lemma dir_node_cases: "is_dir_node n \<longleftrightarrow> (\<exists>a. n = Some (Directory a))"
  by (auto simp: is_dir_node_def split: option.splits node.splits)

section \<open>Resolution names what is there\<close>

definition solid :: "os \<Rightarrow> loc \<Rightarrow> bool" where
  "solid os l \<longleftrightarrow> (\<exists>n. lookup os l = Some n \<and> (\<forall>t. n \<noteq> Symlink t))"

lemma walk_solid_result:
  "walk n os r pre cs = Inr l \<Longrightarrow> is_dir_node (lookup os (r, pre)) \<Longrightarrow> solid os l"
proof (induction n os r pre cs rule: walk.induct)
  case (1 n os r pre)
  then show ?case by (auto simp: solid_def dir_node_cases)
next
  case (2 n os r pre c cs)
  show ?case
  proof (cases "lookup os (r, pre @ [c])")
    case None
    then show ?thesis using 2(3) by (simp split: if_splits)
  next
    case (Some nd)
    show ?thesis
    proof (cases nd)
      case (RegFile a b)
      then show ?thesis using 2(3) Some by (auto simp: solid_def split: if_splits)
    next
      case (Directory a)
      then show ?thesis using 2(1,3) Some by (simp add: is_dir_node_def)
    next
      case (Symlink t)
      then show ?thesis using 2(2,3) Some by (auto simp: Let_def split: if_splits)
    qed
  qed
qed

lemma walk_on_solid:
  "wf_os os \<Longrightarrow> solid os (r, pre @ cs) \<Longrightarrow> walk n os r pre cs = Inr (r, pre @ cs)"
proof (induction cs arbitrary: pre)
  case (Cons c cs)
  show ?case
  proof (cases "cs = []")
    case True
    obtain nd where nd: "lookup os (r, pre @ [c]) = Some nd" "\<forall>t. nd \<noteq> Symlink t"
      using Cons(3) True by (auto simp: solid_def)
    then show ?thesis using True by (cases nd) auto
  next
    case False
    have "lookup os (r, (pre @ [c]) @ cs) \<noteq> None" using Cons(3) by (auto simp: solid_def)
    then have "is_dir_node (lookup os (r, pre @ [c]))"
      using wf_ancestor [OF Cons(2) _ False] by blast
    then show ?thesis
      using Cons(1) [OF Cons(2), of "pre @ [c]"] Cons(3) by (auto simp: dir_node_cases)
  qed
qed simp

lemma root_key_valid: "valid_root r \<Longrightarrow> root_key r = r"
proof -
  assume r: "valid_root r"
  have up: "to_upper_char c = c" if "is_upper c" for c
    using that by (auto simp: to_upper_char_def char_class)
  have "to_upper_char (CHR '':'') = CHR '':''" by code_simp
  then show ?thesis
    using r up
    by (auto simp: valid_root_def valid_drive_def valid_server_def root_key_def is_letter_def
        char_class norm_slash_def norm_slash_name split: if_splits)
qed

lemma collapse_valid: "list_all valid_name cs \<Longrightarrow> collapse acc cs = acc @ cs"
  by (induction cs arbitrary: acc) (auto simp: valid_name_def)

lemma is_drive_prefix_loc: "valid_loc l \<Longrightarrow> is_drive_prefix (loc_str l) = valid_drive (fst l)"
  by (auto simp: valid_loc_def valid_root_def valid_drive_def valid_server_def loc_str_def
      is_letter_def char_class)

lemma full_loc_str:
  assumes "valid_loc l" shows "full_loc os (loc_str l) = l"
proof -
  have ne: "fst l \<noteq> []"
    using assms by (auto simp: valid_loc_def valid_root_def valid_drive_def valid_server_def)
  have k: "root_key (fst l) = fst l"
    using assms by (simp add: valid_loc_def root_key_valid)
  have c: "collapse [] (snd l) = snd l"
    using assms by (simp add: valid_loc_def collapse_valid)
  have n: "names (BSL # join [BSL] (snd l)) = snd l"
    using assms by (simp add: valid_loc_def)
  show ?thesis
    using assms ne k c n by (simp add: full_loc_def Let_def prod_eq_iff)
qed

lemma solid_root: "wf_os os \<Longrightarrow> solid os l \<Longrightarrow> is_dir_node (lookup os (fst l, []))"
proof (cases "snd l = []")
  case True
  assume "wf_os os" "solid os l"
  moreover have "l = (fst l, [])" using True by (simp add: prod_eq_iff)
  ultimately show ?thesis
    using True by (auto simp: solid_def wf_node_def dest!: wf_osD)
next
  case False
  assume "wf_os os" "solid os l"
  then show ?thesis
    using wf_ancestor [of os "fst l" "[]" "snd l"] False by (auto simp: solid_def)
qed

lemma loc_str_ne [simp]: "loc_str l \<noteq> []"
  by (simp add: loc_str_def)

lemma follow_solid:
  assumes "wf_os os" and "solid os l" shows "follow os (loc_str l) = Inr l"
proof -
  have "valid_loc l" using assms by (auto simp: solid_def intro: wf_valid)
  then show ?thesis
    using assms walk_on_solid [of os "fst l" "[]" "snd l"]
    by (simp add: follow_def follow_loc_def full_loc_str solid_root)
qed

lemma follow_result_solid: "follow os p = Inr l \<Longrightarrow> solid os l"
  by (auto simp: follow_def follow_loc_def intro: walk_solid_result split: if_splits)

lemma follow_loc_solid:
  "wf_os os \<Longrightarrow> solid os l \<Longrightarrow> follow_loc os l = Inr l"
  using walk_on_solid [of os "fst l" "[]" "snd l"] by (simp add: follow_loc_def solid_root)

lemma solid_parent:
  assumes wf: "wf_os os" and s: "solid os l" and ne: "snd l \<noteq> []"
  shows "is_dir_node (lookup os (parent l))" and "solid os (parent l)"
proof -
  from s show d: "is_dir_node (lookup os (parent l))"
    using wf ne by (auto simp: solid_def wf_node_def dest!: wf_osD)
  then show "solid os (parent l)" by (auto simp: solid_def dir_node_cases)
qed

lemma locate_solid:
  assumes wf: "wf_os os" and s: "solid os l" shows "locate os (loc_str l) = Inr l"
proof -
  have v: "valid_loc l" using assms by (auto simp: solid_def intro: wf_valid)
  have f: "follow_loc os l = Inr l" using follow_loc_solid [OF wf s] .
  show ?thesis
  proof (cases "snd l = []")
    case True
    then show ?thesis using f v by (simp add: locate_def full_loc_str)
  next
    case False
    note p = solid_parent [OF wf s False]
    have "follow_loc os (parent l) = Inr (parent l)" using follow_loc_solid [OF wf p(2)] .
    then show ?thesis
      using v False p(1) by (simp add: locate_def full_loc_str) (simp add: parent_def prod_eq_iff)
  qed
qed

lemma canonical_cases:
  "canonical os p = Inr c \<Longrightarrow> \<exists>l. follow os p = Inr l \<and> c = loc_str l \<and> solid os l"
  by (cases "follow os p") (auto simp: canonical_def dest: follow_result_solid)

lemma loc_str_inj:
  assumes "valid_loc a" "valid_loc b" "loc_str a = loc_str b" shows "a = b"
  using assms full_loc_str by metis

end
