(* ===== verification/StdFsInv.thy ===== *)
theory StdFsInv
  imports StdFs
begin

text \<open>
  What the changes of the file system do, location by location, and that each keeps a
  well-formed file system well formed.
\<close>

lemma wf_os_lookup:
  "wf_os os \<longleftrightarrow> distinct (map fst (nodes os)) \<and> (\<forall>l n. lookup os l = Some n \<longrightarrow> wf_node os l n)
     \<and> (\<forall>(r, cs)\<in>set (cur_dirs os). list_all valid_name cs)"
  by (auto simp: wf_os_def lookup_def)

lemma wf_distinct: "wf_os os \<Longrightarrow> distinct (map fst (nodes os))"
  by (simp add: wf_os_def)

section \<open>One node\<close>

lemma lookup_put_node [simp]:
  "lookup (put_node l n os) k = (if k = l then Some n else lookup os k)"
  by (simp add: lookup_def put_node_def update_conv')

lemma put_node_frame [simp]:
  "cur_dirs (put_node l n os) = cur_dirs os" "cur_root (put_node l n os) = cur_root os"
  "now (put_node l n os) = now os" "err_text (put_node l n os) = err_text os"
  by (simp_all add: put_node_def)

lemma wf_put_node:
  assumes wf: "wf_os os" and n: "wf_node os l n"
    and dir: "is_dir_node (lookup os l) \<Longrightarrow> is_dir_node (Some n)"
  shows "wf_os (put_node l n os)"
proof -
  have nd: "wf_node (put_node l n os) k m" if "wf_node os k m" for k m
    using that dir by (auto simp: wf_node_def split: if_splits)
  have "distinct (map fst (nodes (put_node l n os)))"
    using wf by (simp add: put_node_def distinct_update wf_os_def)
  moreover have "wf_node (put_node l n os) k m" if "lookup (put_node l n os) k = Some m" for k m
    using that nd n wf_osD [OF wf] by (auto split: if_splits)
  ultimately show ?thesis using wf by (simp add: wf_os_lookup)
qed

section \<open>Removing a tree\<close>

lemma below_refl [simp]: "below l l"
  by (simp add: below_def)

lemma below_trans: "below a b \<Longrightarrow> below b c \<Longrightarrow> below a c"
  by (auto simp: below_def)

lemma below_parent: "below d l \<Longrightarrow> l \<noteq> d \<Longrightarrow> below d (parent l)"
  by (auto simp: below_def parent_def prefix_def prod_eq_iff butlast_append)

lemma parent_below: "below d (parent l) \<Longrightarrow> below d l"
  by (auto simp: below_def parent_def intro: prefix_order.trans prefixeq_butlast)

lemma map_of_filter_keys:
  "map_of (filter (\<lambda>(l, n). P l) xs) k = (if P k then map_of xs k else None)"
  by (induction xs) auto

lemma lookup_drop_below [simp]:
  "lookup (drop_below d os) l = (if below d l then None else lookup os l)"
  by (simp add: lookup_def drop_below_def map_of_filter_keys)

lemma distinct_map_filter: "distinct (map f xs) \<Longrightarrow> distinct (map f (filter P xs))"
  by (induction xs) auto

lemma wf_drop_below:
  assumes wf: "wf_os os" and d: "snd d \<noteq> []" shows "wf_os (drop_below d os)"
proof -
  have "wf_node (drop_below d os) k m" if "wf_node os k m" "\<not> below d k" for k m
    using that parent_below [of d k] by (auto simp: wf_node_def)
  then show ?thesis
    using wf by (auto simp: wf_os_lookup split: if_splits)
      (auto simp: drop_below_def distinct_map_filter)
qed

section \<open>Names\<close>

lemma list_all_butlast: "list_all P xs \<Longrightarrow> list_all P (butlast xs)"
  by (auto simp: list_all_iff dest: in_set_butlastD)

definition path_name :: "string \<Rightarrow> bool" where
  "path_name c \<longleftrightarrow> c = ''.'' \<or> c = ''..'' \<or> valid_name c"

lemma names_path_name: "list_all path_name (names q)"
  using names_valid by (auto simp: list_all_iff path_name_def)

lemma collapse_names:
  "list_all valid_name acc \<Longrightarrow> list_all path_name cs \<Longrightarrow> list_all valid_name (collapse acc cs)"
proof (induction cs arbitrary: acc)
  case (Cons c cs)
  then have c: "path_name c" and cs: "list_all path_name cs" by simp_all
  have b: "list_all valid_name (butlast acc)" using Cons(2) by (rule list_all_butlast)
  show ?case
  proof (cases "c = ''.'' \<or> c = ''..''")
    case True
    then show ?thesis using Cons(1) [OF Cons(2) cs] Cons(1) [OF b cs] by auto
  next
    case False
    then have "list_all valid_name (acc @ [c])" using c Cons(2) by (simp add: path_name_def)
    from Cons(1) [OF this cs] False show ?thesis by simp
  qed
qed simp

lemma full_loc_names: "wf_os os \<Longrightarrow> list_all valid_name (snd (full_loc os p))"
proof -
  assume wf: "wf_os os"
  have "list_all valid_name (cur_dir os r)" for r
    using wf by (auto simp: wf_os_def cur_dir_def dest!: map_of_SomeD split: option.splits)
  then have "list_all valid_name (collapse (cur_dir os r) (names q))"
    "list_all valid_name (collapse [] (names q))" for r q
    by (simp_all add: collapse_names names_path_name)
  then show ?thesis
    by (simp add: full_loc_def Let_def)
qed

lemma follow_loc_result_solid: "follow_loc os l = Inr k \<Longrightarrow> solid os k"
  by (auto simp: follow_loc_def intro: walk_solid_result split: if_splits)

lemma solid_valid: "wf_os os \<Longrightarrow> solid os l \<Longrightarrow> valid_loc l"
  by (auto simp: solid_def intro: wf_valid)

lemma locate_result:
  assumes wf: "wf_os os" and l: "locate os p = Inr l"
  shows "valid_loc l" and "snd l \<noteq> [] \<Longrightarrow> is_dir_node (lookup os (parent l))"
    and "snd l = [] \<Longrightarrow> is_dir_node (lookup os l)"
proof -
  let ?f = "full_loc os p"
  have "valid_loc l \<and> (if snd l = [] then is_dir_node (lookup os l)
      else is_dir_node (lookup os (parent l)))"
  proof (cases "snd ?f = []")
    case True
    then have "solid os l"
      using l by (auto simp: locate_def Let_def intro: follow_loc_result_solid split: if_splits)
    then show ?thesis
      using wf solid_valid [OF wf] solid_parent [OF wf, of l] solid_root [OF wf, of l]
      by (auto simp: prod_eq_iff) (metis prod.collapse)
  next
    case False
    then obtain d where d: "follow_loc os (parent ?f) = Inr d" "is_dir_node (lookup os d)"
      and ld: "l = (fst d, snd d @ [last (snd ?f)])"
      using l by (auto simp: locate_def Let_def split: if_splits sum.splits)
    have "valid_loc d" using wf follow_loc_result_solid [OF d(1)] by (rule solid_valid)
    moreover have "valid_name (last (snd ?f))"
      using full_loc_names [OF wf, of p] False by (simp add: list_all_iff)
    ultimately show ?thesis
      using d(2) ld by (simp add: valid_loc_def parent_def)
  qed
  then show "valid_loc l" and "snd l \<noteq> [] \<Longrightarrow> is_dir_node (lookup os (parent l))"
    and "snd l = [] \<Longrightarrow> is_dir_node (lookup os l)" by (auto split: if_splits)
qed

section \<open>The operations\<close>

lemma wf_fs_remove: "wf_os os \<Longrightarrow> wf_os (snd (fs_remove os p))"
proof -
  assume wf: "wf_os os"
  have "snd l \<noteq> []" if "locate os p = Inr l" "\<not> is_dir_node (lookup os l)" for l
    using locate_result(3) [OF wf that(1)] that(2) by blast
  then show ?thesis
    using wf by (auto simp: fs_remove_def is_dir_node_def intro!: wf_drop_below
        split: sum.splits option.splits node.splits)
qed

lemma lookup_empty_drive:
  "lookup (os\<lparr>nodes := filter (\<lambda>(k, n). below l k \<longrightarrow> k = l) (nodes os)\<rparr>) k =
     (if below l k \<longrightarrow> k = l then lookup os k else None)"
  by (simp add: lookup_def map_of_filter_keys)

lemma wf_fs_remove_all: "wf_os os \<Longrightarrow> wf_os (snd (fs_remove_all os p))"
proof -
  assume wf: "wf_os os"
  let ?e = "\<lambda>l. os\<lparr>nodes := filter (\<lambda>(k, n). below l k \<longrightarrow> k = l) (nodes os)\<rparr>"
  have "wf_node (?e l) k m" if "wf_node os k m" "below l k \<longrightarrow> k = l" "snd l = []" for l k m
    using that below_parent [of l k] parent_below [of l k]
    by (auto simp: wf_node_def lookup_empty_drive)
  then have "wf_os (?e l)" if "snd l = []" for l
    using wf that by (auto simp: wf_os_lookup lookup_empty_drive split: if_splits)
      (auto simp: distinct_map_filter)
  then show ?thesis
    using wf by (auto simp: fs_remove_all_def intro: wf_drop_below split: sum.splits)
qed

lemma put_dir_wf:
  assumes wf: "wf_os os" and d: "is_dir_node (lookup os d)" and c: "valid_name c"
    and new: "lookup os (fst d, snd d @ [c]) = None"
  shows "wf_os (put_node (fst d, snd d @ [c]) (Directory a) os)"
proof (rule wf_put_node [OF wf])
  have "valid_loc d" using wf d by (auto simp: dir_node_cases intro: wf_valid)
  then show "wf_node os (fst d, snd d @ [c]) (Directory a)"
    using d c by (simp add: wf_node_def valid_loc_def parent_def)
qed (use new in \<open>simp add: is_dir_node_def\<close>)

lemma wf_make_dirs:
  "wf_os os \<Longrightarrow> list_all valid_name cs \<Longrightarrow> wf_os (snd (make_dirs os r pre cs))"
proof (induction os r pre cs rule: make_dirs.induct)
  case (2 os r pre c cs)
  note IH1 = 2(2) and IH2 = 2(1) and wf = 2(3) and cs = 2(4)
  show ?case
  proof (cases "follow_loc os (r, pre @ [c])")
    case (Inr l)
    then show ?thesis using IH1 [OF Inr] wf cs by simp
  next
    case (Inl e)
    show ?thesis
    proof (cases "not_found e \<and> (\<exists>d. follow_loc os (r, pre) = Inr d \<and> is_dir_node (lookup os d)
        \<and> lookup os (fst d, snd d @ [c]) = None)")
      case True
      then obtain d where d: "not_found e" "follow_loc os (r, pre) = Inr d"
        "is_dir_node (lookup os d) \<and> lookup os (fst d, snd d @ [c]) = None" by blast
      have "wf_os (put_node (fst d, snd d @ [c]) (Directory \<lparr>perms = 511, mtime = now os\<rparr>) os)"
        using put_dir_wf [OF wf] d(3) cs by simp
      from IH2 [OF Inl d(1,2,3) this] show ?thesis
        using cs Inl d by simp
    next
      case False
      then show ?thesis using wf Inl by (auto split: sum.splits)
    qed
  qed
qed simp

lemma wf_fs_create_directories: "wf_os os \<Longrightarrow> wf_os (snd (fs_create_directories os p))"
  by (simp add: fs_create_directories_def Let_def wf_make_dirs full_loc_names)

lemma wf_new_file:
  assumes wf: "wf_os os" and l: "locate os p = Inr l" and new: "lookup os l = None"
  shows "wf_os (put_node l (RegFile a b) os)"
proof (rule wf_put_node [OF wf])
  show "wf_node os l (RegFile a b)"
    using locate_result [OF wf l] new by (auto simp: wf_node_def is_dir_node_def)
qed (use new in \<open>simp add: is_dir_node_def\<close>)

lemma wf_over_file:
  assumes wf: "wf_os os" and l: "lookup os l = Some (RegFile a b)"
  shows "wf_os (put_node l (RegFile a' b') os)"
proof (rule wf_put_node [OF wf])
  show "wf_node os l (RegFile a' b')"
    using wf_osD [OF wf l] by (auto simp: wf_node_def is_dir_node_def split: if_splits)
qed (use l in \<open>simp add: is_dir_node_def\<close>)

lemma wf_open_trunc: "wf_os os \<Longrightarrow> wf_os (snd (open_trunc os p))"
  by (auto simp: open_trunc_def intro: wf_new_file wf_over_file
      split: sum.splits option.splits node.splits)

lemma wf_set_contents: "wf_os os \<Longrightarrow> wf_os (set_contents l b os)"
  by (auto simp: set_contents_def intro: wf_over_file split: option.splits node.splits)

lemma wf_fs_copy_file: "wf_os os \<Longrightarrow> wf_os (snd (fs_copy_file os p q))"
proof -
  assume wf: "wf_os os"
  have s: "\<exists>n. lookup os l = Some n" if "follow os q = Inr l" for l
    using follow_result_solid [OF that] by (auto simp: solid_def)
  show ?thesis
    using wf s by (auto simp: fs_copy_file_def intro: wf_new_file wf_over_file
        split: sum.splits option.splits node.splits)
qed

section \<open>Moving a tree\<close>

lemma below_rebase: "below b (rebase a b l)"
  by (simp add: below_def rebase_def)

lemma rebase_back: "below a l \<Longrightarrow> rebase b a (rebase a b l) = l"
  by (auto simp: below_def rebase_def prod_eq_iff prefix_def)

lemma rebase_root [simp]: "rebase a b a = b"
  by (simp add: rebase_def)

lemma rebase_parent:
  "below a l \<Longrightarrow> l \<noteq> a \<Longrightarrow> parent (rebase a b l) = rebase a b (parent l)"
  by (auto simp: below_def rebase_def parent_def prefix_def prod_eq_iff butlast_append)

definition apart :: "loc \<Rightarrow> loc \<Rightarrow> bool" where
  "apart a b \<longleftrightarrow> \<not> below a b \<and> \<not> below b a"

lemma apart_sym: "apart a b = apart b a"
  by (auto simp: apart_def)

lemma below_disjoint: "apart a b \<Longrightarrow> below a l \<Longrightarrow> \<not> below b l"
  unfolding apart_def below_def by (metis prefix_same_cases)

lemma map_of_move:
  assumes "apart a b"
  shows "map_of (map (\<lambda>(l, n). (if below a l then rebase a b l else l, n))
           (filter (\<lambda>(l, n). below a l \<or> \<not> below b l) xs)) k =
         (if below b k then map_of xs (rebase b a k) else if below a k then None else map_of xs k)"
proof (induction xs)
  case (Cons x xs)
  obtain l n where x: "x = (l, n)" by (cases x)
  show ?case
  proof (cases "below a l")
    case True
    then have "\<not> below b l" using assms below_disjoint by blast
    moreover have "rebase a b l = k \<longleftrightarrow> below b k \<and> rebase b a k = l"
      using True below_rebase rebase_back by metis
    ultimately show ?thesis
      using Cons x True by (auto simp: below_rebase)
  next
    case False
    moreover have "rebase b a k \<noteq> l"
      using False below_rebase by metis
    ultimately show ?thesis using Cons x by auto
  qed
qed simp

lemma lookup_move_tree:
  "apart a b \<Longrightarrow> lookup (move_tree a b os) k =
     (if below b k then lookup os (rebase b a k) else if below a k then None else lookup os k)"
  by (simp add: lookup_def move_tree_def map_of_move)

lemma distinct_move:
  assumes "apart a b" and d: "distinct (map fst xs)"
  shows "distinct (map fst (map (\<lambda>(l, n). (if below a l then rebase a b l else l, n))
           (filter (\<lambda>(l, n). below a l \<or> \<not> below b l) xs)))"
proof -
  let ?g = "\<lambda>l. if below a l then rebase a b l else l"
  let ?ys = "filter (\<lambda>(l, n). below a l \<or> \<not> below b l) xs"
  have "map fst (map (\<lambda>(l, n). (?g l, n)) ?ys) = map ?g (map fst ?ys)"
    by (simp add: comp_def case_prod_beta)
  moreover have "inj_on ?g (set (map fst ?ys))"
  proof (rule inj_onI)
    fix l k
    assume l: "l \<in> set (map fst ?ys)" and k: "k \<in> set (map fst ?ys)" and e: "?g l = ?g k"
    have "below a l = below a k"
      using l k e below_rebase [of b a l] below_rebase [of b a k] by (auto split: if_splits)
    then show "l = k" using e by (metis rebase_back)
  qed
  ultimately show ?thesis
    using distinct_map_filter [OF d, of "\<lambda>(l, n). below a l \<or> \<not> below b l"]
    by (simp only: distinct_map [of ?g] simp_thms)
qed

lemma wf_move_tree:
  assumes wf: "wf_os os" and ap: "apart a b" and a: "snd a \<noteq> []" and b: "snd b \<noteq> []"
    and vb: "valid_loc b" and pb: "is_dir_node (lookup os (parent b))"
  shows "wf_os (move_tree a b os)"
proof -
  let ?os = "move_tree a b os"
  note lk = lookup_move_tree [OF ap]
  have npb: "\<not> below b (parent b)"
  proof
    assume "below b (parent b)"
    then have "length (snd b) \<le> length (butlast (snd b))"
      using prefix_length_le by (fastforce simp: below_def parent_def)
    moreover have "0 < length (snd b)" using b by simp
    ultimately show False by (simp only: length_butlast)
  qed
  have npa: "\<not> below a (parent b)"
    using ap parent_below [of a b] unfolding apart_def by blast
  have node: "wf_node ?os k n" if n: "lookup ?os k = Some n" for k n
  proof (cases "below b k")
    case True
    let ?l = "rebase b a k"
    have l: "lookup os ?l = Some n" using n True by (simp add: lk)
    have k: "k = rebase a b ?l" and bl: "below a ?l"
      using True by (simp_all add: rebase_back below_rebase)
    have w: "wf_node os ?l n" using wf l by (rule wf_osD)
    have ne: "snd k \<noteq> []" using True b by (auto simp: below_def)
    have vk: "valid_loc k"
      using w vb by (subst k) (auto simp: wf_node_def valid_loc_def rebase_def list_all_iff
          dest: in_set_dropD)
    have "is_dir_node (lookup ?os (parent k))"
    proof (cases "k = b")
      case True
      then show ?thesis using pb npa npb by (simp add: lk)
    next
      case False
      have "?l \<noteq> a" using False k by (metis rebase_root)
      moreover have "parent k = rebase a b (parent ?l)"
        using rebase_parent [OF bl \<open>?l \<noteq> a\<close>] k by metis
      moreover have "snd ?l \<noteq> []" using bl a by (auto simp: below_def)
      ultimately show ?thesis
        using w bl by (simp add: lk wf_node_def below_rebase rebase_back below_parent)
    qed
    then show ?thesis using vk ne by (simp add: wf_node_def)
  next
    case False
    then have na: "\<not> below a k" and l: "lookup os k = Some n"
      using n by (auto simp: lk split: if_splits)
    have "\<not> below a (parent k)" "\<not> below b (parent k)"
      using na False parent_below by blast+
    then show ?thesis
      using wf_osD [OF wf l] by (simp add: wf_node_def lk)
  qed
  have "distinct (map fst (nodes ?os))"
    using distinct_move [OF ap wf_distinct [OF wf]] by (simp add: move_tree_def)
  moreover have "\<forall>(r, cs)\<in>set (cur_dirs ?os). list_all valid_name cs"
    using wf by (simp add: wf_os_def move_tree_def)
  ultimately show ?thesis using node by (simp add: wf_os_lookup)
qed

lemma existing_below:
  assumes wf: "wf_os os" and l: "lookup os l \<noteq> None" and b: "below b l" "l \<noteq> b"
  shows "is_dir_node (lookup os b)"
proof -
  obtain cs where "snd l = snd b @ cs" "fst l = fst b" using b(1) by (auto simp: below_def prefix_def)
  then have "l = (fst b, snd b @ cs)" "cs \<noteq> []" using b(2) by (auto simp: prod_eq_iff)
  then show ?thesis using wf_ancestor [OF wf, of "fst b" "snd b" cs] l by simp
qed

lemma wf_fs_rename: "wf_os os \<Longrightarrow> wf_os (snd (fs_rename os p q))"
proof -
  assume wf: "wf_os os"
  have "wf_os (move_tree a b os)"
    if a: "locate os p = Inr a" "lookup os a = Some n" "snd a \<noteq> []"
      and b: "locate os q = Inr b" "snd b \<noteq> []" "a \<noteq> b" "\<not> below a b"
        "lookup os b \<noteq> None \<longrightarrow> \<not> is_dir_node (lookup os b)" for a b n
  proof -
    have "\<not> below b a"
      using existing_below [OF wf, of a b] a(2) b(3,5) by (auto simp: is_dir_node_def split: option.splits)
    then have "apart a b" using b(4) by (simp add: apart_def)
    then show ?thesis
      using locate_result [OF wf b(1)] a b wf_move_tree [OF wf] by simp
  qed
  then show ?thesis
    using wf by (auto simp: fs_rename_def split: sum.splits option.splits)
qed

lemmas wf_changes =
  wf_fs_remove wf_fs_remove_all wf_fs_create_directories wf_fs_rename wf_fs_copy_file
  wf_open_trunc wf_set_contents

section \<open>Writing a file does not move anything\<close>

lemma full_loc_put [simp]: "full_loc (put_node l n os) p = full_loc os p"
  by (simp add: full_loc_def cur_dir_def Let_def)

lemma walk_put_file:
  "lookup os l = Some (RegFile a b) \<Longrightarrow>
     walk n (put_node l (RegFile a' b') os) r pre cs = walk n os r pre cs"
proof (induction n os r pre cs rule: walk.induct)
  case (2 n os r pre c cs)
  show ?case
  proof (cases "lookup os (r, pre @ [c])")
    case None
    then have "(r, pre @ [c]) \<noteq> l" using 2(3) by auto
    then show ?thesis using None by simp
  next
    case (Some nd)
    show ?thesis
    proof (cases nd)
      case (RegFile x y)
      then show ?thesis using Some by simp
    next
      case (Directory x)
      then have "(r, pre @ [c]) \<noteq> l" using 2(3) Some by auto
      then show ?thesis using Some Directory 2(1) [OF Some Directory 2(3)] by simp
    next
      case (Symlink t)
      then have ne: "(r, pre @ [c]) \<noteq> l" using 2(3) Some by auto
      let ?k = "full_loc os (path_append (loc_str (r, pre)) t)"
      have d: "is_dir_node (lookup (put_node l (RegFile a' b') os) (fst ?k, []))
          = is_dir_node (lookup os (fst ?k, []))"
        using 2(3) by (simp add: is_dir_node_def)
      show ?thesis
        using 2(2) [OF Some Symlink _ refl _ 2(3)] Some Symlink ne d by (simp add: Let_def)
    qed
  qed
qed simp

lemma follow_put_file:
  "lookup os l = Some (RegFile a b) \<Longrightarrow> follow (put_node l (RegFile a' b') os) p = follow os p"
  by (simp add: follow_def follow_loc_def walk_put_file) (simp add: is_dir_node_def)

lemma set_contents_file:
  "lookup os l = Some (RegFile a b) \<Longrightarrow>
     set_contents l c os = put_node l (RegFile (a\<lparr>mtime := now os\<rparr>) c) os"
  by (simp add: set_contents_def)

section \<open>A small file system\<close>

text \<open>
  The drive D with a served directory, a file and a subdirectory in it, and beside it a
  directory whose name extends the served one's. Concrete applications evaluate on it.
\<close>

definition plain_attr :: attr where
  "plain_attr = \<lparr>perms = 511, mtime = 0\<rparr>"

definition sample_os :: os where
  "sample_os =
     \<lparr>nodes =
        [((''D:'', []), Directory plain_attr),
         ((''D:'', [''ftp'']), Directory plain_attr),
         ((''D:'', [''ftp'', ''a.txt'']), RegFile plain_attr ''hello''),
         ((''D:'', [''ftp'', ''sub'']), Directory plain_attr),
         ((''D:'', [''ftp-private'']), Directory plain_attr),
         ((''D:'', [''ftp-private'', ''key'']), RegFile plain_attr ''secret'')],
      cur_dirs = [], cur_root = ''D:'', now = 0,
      local_tm = (\<lambda>t. \<lparr>tm_wday = 0, tm_mday = 1, tm_mon = 0, tm_year = 126, tm_hour = 0,
        tm_min = 0, tm_sec = 0\<rparr>),
      err_text = (\<lambda>e. ''error'')\<rparr>"

lemma wf_sample_os: "wf_os sample_os"
proof -
  have d: "valid_root ''D:''"
    by (simp add: valid_root_def valid_drive_def char_class)
  have n: "list_all valid_name [''ftp'', ''a.txt'', ''sub'', ''ftp-private'', ''key'']"
    by code_simp
  show ?thesis
    using n by (simp add: wf_os_def sample_os_def wf_node_def valid_loc_def d lookup_def parent_def
        is_dir_node_def)
qed

definition served :: path where
  "served = ''D:'' @ [BSL] @ ''ftp''"

lemma follow_served: "follow sample_os served = Inr (''D:'', [''ftp''])"
  by code_simp

end
