(* ===== verification/WinText.thy ===== *)
theory WinText
  imports Prelude
begin

text \<open>
  Text conversion through the Windows API, as \<open>StringUtil::encode\<close> (\<open>stringUtil.h\<close>) and the
  class \<open>faw::Encoding\<close> (\<open>webdav/Encoding.hpp\<close>) wrap it. The API itself is not part of the
  repository: the record \<open>winapi\<close> holds its two conversion functions and is an argument of
  every definition that reaches them. A conversion that fails, or of an empty text, is the
  empty result (the API then returns the length 0).
\<close>

record winapi =
  mb_to_wc :: "nat \<Rightarrow> string \<Rightarrow> 16 word list"
  wc_to_mb :: "nat \<Rightarrow> 16 word list \<Rightarrow> string"

text \<open>Reading a buffer as a C string: up to the first NUL.\<close>

definition c_str :: "string \<Rightarrow> string" where
  "c_str s = takeWhile (\<lambda>c. code_of c \<noteq> 0) s"

definition c_wstr :: "16 word list \<Rightarrow> 16 word list" where
  "c_wstr w = takeWhile (\<lambda>c. c \<noteq> 0) w"

definition CP_ACP :: nat where
  "CP_ACP = 0"

definition CP_UTF8 :: nat where
  "CP_UTF8 = 65001"

section \<open>StringUtil::encode\<close>

text \<open>The character types the templates are instantiated with.\<close>

datatype char_type = Char_t | Wchar_t | Char8_t | Char16_t | Char32_t

definition GetWin32CodePage :: "char_type \<Rightarrow> int" where
  "GetWin32CodePage t =
     (case t of
        Char_t \<Rightarrow> int CP_ACP
      | Char8_t \<Rightarrow> int CP_UTF8
      | Wchar_t \<Rightarrow> 777
      | _ \<Rightarrow> -1)"

text \<open>
  \<open>encode<Target, Source>\<close> by the three branches the explicit instantiations reach: from wide
  text, to wide text, and between two narrow encodings by way of wide text. A narrow type is
  \<open>char\<close> or \<open>char8_t\<close>; the early exits on code page -1 and on equal types are kept.
\<close>

definition encode_from_wide :: "winapi \<Rightarrow> char_type \<Rightarrow> 16 word list \<Rightarrow> string outcome" where
  "encode_from_wide api dst input =
     (if GetWin32CodePage dst = -1 then Ret []
      else if input = [] then Ret []
      else
        let r = wc_to_mb api (nat (GetWin32CodePage dst)) input
        in if r = [] then Exn (Runtime_error ''WideCharToMultiByte failed'')
           else Ret (c_str r))"

definition encode_to_wide :: "winapi \<Rightarrow> char_type \<Rightarrow> string \<Rightarrow> 16 word list outcome" where
  "encode_to_wide api src input =
     (if GetWin32CodePage src = -1 then Ret []
      else if input = [] then Ret []
      else
        let r = mb_to_wc api (nat (GetWin32CodePage src)) input
        in if r = [] then Exn (Runtime_error ''MultiByteToWideChar failed'')
           else Ret (c_wstr r))"

definition encode_narrow ::
    "winapi \<Rightarrow> char_type \<Rightarrow> char_type \<Rightarrow> string \<Rightarrow> string outcome" where
  "encode_narrow api dst src input =
     (if GetWin32CodePage src = -1 \<or> GetWin32CodePage dst = -1 then Ret []
      else if dst = src then Ret []
      else
        let w = mb_to_wc api (nat (GetWin32CodePage src)) input
        in if w = [] then Exn (Runtime_error ''MultiByteToWideChar failed'')
           else
             let r = wc_to_mb api (nat (GetWin32CodePage dst)) w
             in if r = [] then Exn (Runtime_error ''WideCharToMultiByte failed'')
                else Ret (c_str r))"

lemma encode_narrow_no_hang: "encode_narrow api dst src s \<noteq> Hang"
  by (simp add: encode_narrow_def Let_def)

section \<open>faw::Encoding\<close>

definition conv_to_multi :: "winapi \<Rightarrow> 16 word list \<Rightarrow> nat \<Rightarrow> string" where
  "conv_to_multi api old to_type = c_str (wc_to_mb api to_type (c_wstr old))"

definition conv_to_wide :: "winapi \<Rightarrow> string \<Rightarrow> nat \<Rightarrow> 16 word list" where
  "conv_to_wide api old to_type = c_wstr (mb_to_wc api to_type (c_str old))"

definition gb18030_to_utf16 :: "winapi \<Rightarrow> string \<Rightarrow> 16 word list" where
  "gb18030_to_utf16 api old = conv_to_wide api old CP_ACP"

definition utf16_to_gb18030 :: "winapi \<Rightarrow> 16 word list \<Rightarrow> string" where
  "utf16_to_gb18030 api old = conv_to_multi api old CP_ACP"

definition utf8_to_utf16 :: "winapi \<Rightarrow> string \<Rightarrow> 16 word list" where
  "utf8_to_utf16 api old = conv_to_wide api old CP_UTF8"

definition utf16_to_utf8 :: "winapi \<Rightarrow> 16 word list \<Rightarrow> string" where
  "utf16_to_utf8 api old = conv_to_multi api old CP_UTF8"

definition gb18030_to_utf8 :: "winapi \<Rightarrow> string \<Rightarrow> string" where
  "gb18030_to_utf8 api old = utf16_to_utf8 api (gb18030_to_utf16 api old)"

definition utf8_to_gb18030 :: "winapi \<Rightarrow> string \<Rightarrow> string" where
  "utf8_to_gb18030 api old = utf16_to_gb18030 api (utf8_to_utf16 api old)"

section \<open>An API that agrees with ASCII\<close>

text \<open>
  What the program relies on for ASCII text: every code page it uses maps the 127 non-NUL
  ASCII bytes to the same code units, both ways.
\<close>

definition is_ascii_text :: "string \<Rightarrow> bool" where
  "is_ascii_text s \<longleftrightarrow> list_all (\<lambda>c. 0 < code_of c \<and> code_of c < 128) s"

definition widen :: "string \<Rightarrow> 16 word list" where
  "widen s = map (\<lambda>c. word_of_nat (code_of c)) s"

definition ascii_api :: "winapi \<Rightarrow> bool" where
  "ascii_api api \<longleftrightarrow>
     (\<forall>cp s. cp \<in> {CP_ACP, CP_UTF8} \<longrightarrow> is_ascii_text s \<longrightarrow>
        mb_to_wc api cp s = widen s \<and> wc_to_mb api cp (widen s) = s)"

text \<open>A concrete API with that behaviour: bytes and code units one to one.\<close>

definition latin_api :: winapi where
  "latin_api =
     \<lparr>mb_to_wc = (\<lambda>cp s. widen s),
      wc_to_mb = (\<lambda>cp w. map (\<lambda>u. char_of (unat u)) w)\<rparr>"

lemma char_of_widen: "char_of (unat (word_of_nat (code_of c) :: 16 word)) = c"
proof -
  have "code_of c < 256" by simp
  then have "code_of c mod 65536 = code_of c" by (intro mod_less) linarith
  then have "unat (word_of_nat (code_of c) :: 16 word) = code_of c"
    by (simp add: unat_of_nat)
  then show ?thesis by simp
qed

lemma widen_back [simp]: "map (\<lambda>u. char_of (unat u)) (widen s) = s"
  by (simp add: widen_def char_of_widen comp_def)

lemma ascii_latin_api [simp]: "ascii_api latin_api"
  by (simp add: ascii_api_def latin_api_def)

lemma widen_eq_Nil [simp]: "widen s = [] \<longleftrightarrow> s = []"
  by (simp add: widen_def)

lemma is_ascii_textD: "is_ascii_text s \<Longrightarrow> c \<in> set s \<Longrightarrow> 0 < code_of c \<and> code_of c < 128"
  by (auto simp: is_ascii_text_def list_all_iff)

lemma c_str_ascii [simp]: "is_ascii_text s \<Longrightarrow> c_str s = s"
  by (auto simp: c_str_def dest!: is_ascii_textD)

lemma c_wstr_widen [simp]:
  assumes "is_ascii_text s" shows "c_wstr (widen s) = widen s"
proof -
  have "(word_of_nat (code_of c) :: 16 word) \<noteq> 0" if "c \<in> set s" for c
  proof
    assume "(word_of_nat (code_of c) :: 16 word) = 0"
    then have "char_of (unat (0 :: 16 word)) = c" by (metis char_of_widen)
    then have "code_of c = 0" by (metis of_char_of unat_0 mod_0)
    with is_ascii_textD [OF assms that] show False by simp
  qed
  then show ?thesis by (auto simp: c_wstr_def widen_def)
qed

lemma encode_narrow_ascii:
  assumes api: "ascii_api api" and s: "is_ascii_text s" "s \<noteq> []"
  shows "encode_narrow api Char_t Char8_t s = Ret s"
    and "encode_narrow api Char8_t Char_t s = Ret s"
  using api s
  by (simp_all add: encode_narrow_def GetWin32CodePage_def ascii_api_def Let_def)

lemma gb18030_to_utf8_ascii:
  assumes api: "ascii_api api" and s: "is_ascii_text s"
  shows "gb18030_to_utf8 api s = s"
  using api s
  by (simp add: gb18030_to_utf8_def utf16_to_utf8_def gb18030_to_utf16_def
      conv_to_multi_def conv_to_wide_def ascii_api_def)

end
