(* ===== verification/UrlCodec.thy ===== *)
theory UrlCodec
  imports CNumbers WinText
begin

text \<open>
  The percent coding of \<open>webdav/http_parser.cpp\<close>: \<open>decode_url\<close>, \<open>encode_url\<close>,
  \<open>encodeFilename\<close> and the UTF-8 encoder \<open>encodeUtf8\<close>.
\<close>

section \<open>decode_url and encode_url\<close>

text \<open>
  The index loop of the code as a recursion over the rest of the text: at \<open>%\<close> with two more
  characters, these are read by the stream extraction \<open>>> hex >> int\<close>; when it fails, or when
  fewer than two characters follow, the \<open>%\<close> is copied.
\<close>

function decode_url :: "string \<Rightarrow> string" where
  "decode_url [] = []"
| "decode_url (c # cs) =
     (if c = CHR ''%'' \<and> 2 \<le> length cs
      then (case extract_hex (take 2 cs) of
              Some v \<Rightarrow> char_of (nat (v mod 256)) # decode_url (drop 2 cs)
            | None \<Rightarrow> c # decode_url cs)
      else c # decode_url cs)"
  by pat_completeness auto
termination
  by (relation "measure length") auto

definition is_unreserved :: "char \<Rightarrow> bool" where
  "is_unreserved c \<longleftrightarrow>
     is_alnum c \<or> c = CHR ''-'' \<or> c = CHR ''_'' \<or> c = CHR ''.'' \<or> c = CHR ''~''"

definition percent :: "char \<Rightarrow> string" where
  "percent c = CHR ''%'' # hex2_upper (code_of c)"

definition encode_url_char :: "char \<Rightarrow> string" where
  "encode_url_char c = (if is_unreserved c then [c] else percent c)"

definition encode_url :: "string \<Rightarrow> string" where
  "encode_url str = concat (map encode_url_char str)"

text \<open>The overload on \<open>u8string_view\<close> has the same loop over the same bytes.\<close>

definition encode_url_u8 :: "string \<Rightarrow> string" where
  "encode_url_u8 str = concat (map encode_url_char str)"

definition encode_name_char :: "char \<Rightarrow> string" where
  "encode_name_char c =
     (if is_unreserved c then [c]
      else if c = CHR '' '' then ''%20''
      else if code_of c \<le> 127 then [c]
      else percent c)"

definition encodeFilename :: "winapi \<Rightarrow> string \<Rightarrow> string" where
  "encodeFilename api filename =
     concat (map encode_name_char (gb18030_to_utf8 api (c_str filename)))"

lemma decode_url_other [simp]: "c \<noteq> CHR ''%'' \<Longrightarrow> decode_url (c # cs) = c # decode_url cs"
  by simp

lemma length_hex2_upper [simp]: "length (hex2_upper n) = 2"
  by (simp add: hex2_upper_def)

lemma decode_percent [simp]: "decode_url (percent c @ s) = c # decode_url s"
  by (simp add: percent_def nat_mod_distrib)

declare decode_url.simps(2) [simp del]

lemma unreserved_not_percent: "is_unreserved c \<Longrightarrow> c \<noteq> CHR ''%''"
  by (auto simp: is_unreserved_def char_class)

lemma decode_encode_append: "decode_url (encode_url str @ s) = str @ decode_url s"
  by (induction str) (auto simp: encode_url_def encode_url_char_def unreserved_not_percent)

lemma decode_encode: "decode_url (encode_url str) = str"
  using decode_encode_append [of str "[]"] by simp

lemma decode_url_id: "CHR ''%'' \<notin> set s \<Longrightarrow> decode_url s = s"
  by (induction s) auto

lemma decode_percent20: "decode_url (CHR ''%'' # CHR ''2'' # CHR ''0'' # s) = CHR '' '' # decode_url s"
proof -
  have "percent (CHR '' '') = ''%20''" by code_simp
  then show ?thesis using decode_percent [of "CHR '' ''" s] by simp
qed

lemma decode_encode_name:
  "CHR ''%'' \<notin> set s \<Longrightarrow> decode_url (concat (map encode_name_char s)) = s"
  by (induction s) (auto simp: encode_name_char_def decode_percent20 unreserved_not_percent)

lemma length_decode_url: "length (decode_url s) \<le> length s"
proof (induction s rule: decode_url.induct)
  case (2 c cs)
  then show ?case
    by (auto simp: decode_url.simps(2) split: option.splits)
qed simp

section \<open>encodeUtf8\<close>

text \<open>The bytes stored in \<open>output\<close>; the empty list is the return value 0.\<close>

definition encodeUtf8 :: "32 word \<Rightarrow> 8 word list" where
  "encodeUtf8 cp =
     (if 0xD800 \<le> cp \<and> cp \<le> 0xDFFF then []
      else if 0x10FFFF < cp then []
      else if cp < 0x80 then [ucast cp]
      else if cp < 0x800 then
        [ucast (0xC0 OR drop_bit 6 cp), ucast (0x80 OR (cp AND 0x3F))]
      else if cp < 0x10000 then
        [ucast (0xE0 OR drop_bit 12 cp), ucast (0x80 OR (drop_bit 6 cp AND 0x3F)),
         ucast (0x80 OR (cp AND 0x3F))]
      else
        [ucast (0xF0 OR drop_bit 18 cp), ucast (0x80 OR (drop_bit 12 cp AND 0x3F)),
         ucast (0x80 OR (drop_bit 6 cp AND 0x3F)), ucast (0x80 OR (cp AND 0x3F))])"

definition is_scalar :: "32 word \<Rightarrow> bool" where
  "is_scalar cp \<longleftrightarrow> cp \<le> 0x10FFFF \<and> \<not> (0xD800 \<le> cp \<and> cp \<le> 0xDFFF)"

lemma encodeUtf8_empty: "encodeUtf8 cp = [] \<longleftrightarrow> \<not> is_scalar cp"
  by (auto simp: encodeUtf8_def is_scalar_def not_le)

lemma encodeUtf8_length: "length (encodeUtf8 cp) \<le> 4"
  by (simp add: encodeUtf8_def)

end
