(* ===== verification/HttpMessage.thy ===== *)
theory HttpMessage
  imports StringUtils UrlCodec "HOL-Library.AList"
begin

text \<open>
  HTTP messages: the types of \<open>webdav/http_parser.hpp\<close> and, of \<open>http_parser.cpp\<close>, the request
  line, the headers, the method names, the responses and the date.

  The header table is an \<open>unordered_map\<close>: an association list with distinct keys, whose
  iteration order is an argument of \<open>generate_response\<close>.
\<close>

section \<open>Types\<close>

datatype HttpMethod =
    GET | HEAD | PUT | DELETE | MKCOL | PROPFIND | PROPPATCH | COPY | MOVE | LOCK | UNLOCK
  | OPTIONS

datatype HttpVersion = HTTP10 | HTTP11 | UNKNOWN

record HttpRequest =
  req_method :: HttpMethod
  req_path :: string
  req_version :: HttpVersion
  req_headers :: "(string \<times> string) list"
  req_body :: string
  req_host :: string
  req_if_match :: string
  req_if_none_match :: string
  req_if_modified_since :: string
  req_if_unmodified_since :: string
  req_authorization :: string
  req_depth :: string
  req_destination :: string
  req_overwrite :: string
  req_lock_token :: string
  req_content_type :: string
  req_content_length :: nat

record HttpResponse =
  resp_status_code :: nat
  resp_status_message :: string
  resp_version :: HttpVersion
  resp_headers :: "(string \<times> string) list"
  resp_body :: string

text \<open>
  \<open>method\<close> and \<open>version\<close> of a fresh request are not initialised by the code, so their first
  values are arguments.
\<close>

definition new_request :: "HttpMethod \<Rightarrow> HttpVersion \<Rightarrow> HttpRequest" where
  "new_request m v =
     \<lparr>req_method = m, req_path = [], req_version = v, req_headers = [], req_body = [],
      req_host = [], req_if_match = [], req_if_none_match = [], req_if_modified_since = [],
      req_if_unmodified_since = [], req_authorization = [], req_depth = [],
      req_destination = [], req_overwrite = [], req_lock_token = [], req_content_type = [],
      req_content_length = 0\<rparr>"

definition new_response :: HttpResponse where
  "new_response =
     \<lparr>resp_status_code = 200, resp_status_message = [], resp_version = HTTP11,
      resp_headers = [], resp_body = []\<rparr>"

definition set_header :: "string \<Rightarrow> string \<Rightarrow> HttpResponse \<Rightarrow> HttpResponse" where
  "set_header key v r = r\<lparr>resp_headers := AList.update key v (resp_headers r)\<rparr>"

definition get_header :: "string \<Rightarrow> HttpResponse \<Rightarrow> string" where
  "get_header key r =
     (case map_of (resp_headers r) key of Some v \<Rightarrow> v | None \<Rightarrow> [])"

lemma get_set_header: "get_header k (set_header k' v r) = (if k = k' then v else get_header k r)"
  by (simp add: get_header_def set_header_def update_conv')

section \<open>Methods\<close>

definition method_to_string :: "HttpMethod \<Rightarrow> string" where
  "method_to_string m =
     (case m of
        GET \<Rightarrow> ''GET''
      | HEAD \<Rightarrow> ''HEAD''
      | PUT \<Rightarrow> ''PUT''
      | DELETE \<Rightarrow> ''DELETE''
      | MKCOL \<Rightarrow> ''MKCOL''
      | PROPFIND \<Rightarrow> ''PROPFIND''
      | PROPPATCH \<Rightarrow> ''PROPPATCH''
      | COPY \<Rightarrow> ''COPY''
      | MOVE \<Rightarrow> ''MOVE''
      | LOCK \<Rightarrow> ''LOCK''
      | UNLOCK \<Rightarrow> ''UNLOCK''
      | OPTIONS \<Rightarrow> ''OPTIONS'')"

definition string_to_method :: "string \<Rightarrow> HttpMethod option" where
  "string_to_method str =
     (if str = ''GET'' then Some GET
      else if str = ''HEAD'' then Some HEAD
      else if str = ''PUT'' then Some PUT
      else if str = ''DELETE'' then Some DELETE
      else if str = ''MKCOL'' then Some MKCOL
      else if str = ''PROPFIND'' then Some PROPFIND
      else if str = ''PROPPATCH'' then Some PROPPATCH
      else if str = ''COPY'' then Some COPY
      else if str = ''MOVE'' then Some MOVE
      else if str = ''LOCK'' then Some LOCK
      else if str = ''UNLOCK'' then Some UNLOCK
      else if str = ''OPTIONS'' then Some OPTIONS
      else None)"

lemma string_to_method_to_string [simp]: "string_to_method (method_to_string m) = Some m"
  by (cases m) (simp_all add: method_to_string_def string_to_method_def)

lemma method_to_string_to_method:
  "string_to_method s = Some m \<Longrightarrow> method_to_string m = s"
  by (auto simp: method_to_string_def string_to_method_def split: if_splits)

lemma method_string_no_space: "CHR '' '' \<notin> set (method_to_string m)"
  by (cases m) (simp_all add: method_to_string_def)

section \<open>The request line\<close>

text \<open>
  The three reference parameters are the fields of the request; a result \<open>None\<close> is the return
  value \<open>false\<close>. Without a third part the version keeps the value it had.
\<close>

definition parse_request_line :: "string \<Rightarrow> HttpRequest \<Rightarrow> HttpRequest option" where
  "parse_request_line line r =
     (let parts = split line (CHR '' '')
      in if length parts < 2 then None
         else case string_to_method (parts ! 0) of
           None \<Rightarrow> None
         | Some m \<Rightarrow>
             let r1 = r\<lparr>req_method := m, req_path := decode_url (parts ! 1)\<rparr>
             in Some
                  (if 3 \<le> length parts
                   then r1\<lparr>req_version :=
                          (if parts ! 2 = ''HTTP/1.1'' then HTTP11
                           else if parts ! 2 = ''HTTP/1.0'' then HTTP10
                           else UNKNOWN)\<rparr>
                   else r1))"

section \<open>Headers\<close>

abbreviation CR :: char where "CR \<equiv> CHR 0x0D"
abbreviation LF :: char where "LF \<equiv> CHR 0x0A"
abbreviation TAB :: char where "TAB \<equiv> CHR 0x09"

definition crlf :: string where
  "crlf = [CR, LF]"

text \<open>Saving a header in the table and in the field it has, if any.\<close>

definition store_header :: "string \<Rightarrow> string \<Rightarrow> HttpRequest \<Rightarrow> HttpRequest outcome" where
  "store_header key v r0 =
     (let r = r0\<lparr>req_headers := AList.update key v (req_headers r0)\<rparr>
      in if key = ''host'' then Ret (r\<lparr>req_host := v\<rparr>)
         else if key = ''if-match'' then Ret (r\<lparr>req_if_match := v\<rparr>)
         else if key = ''if-none-match'' then Ret (r\<lparr>req_if_none_match := v\<rparr>)
         else if key = ''authorization'' then Ret (r\<lparr>req_authorization := v\<rparr>)
         else if key = ''depth'' then Ret (r\<lparr>req_depth := v\<rparr>)
         else if key = ''destination'' then Ret (r\<lparr>req_destination := v\<rparr>)
         else if key = ''overwrite'' then Ret (r\<lparr>req_overwrite := v\<rparr>)
         else if key = ''lock-token'' then Ret (r\<lparr>req_lock_token := v\<rparr>)
         else if key = ''content-type'' then Ret (r\<lparr>req_content_type := v\<rparr>)
         else if key = ''content-length'' then
           (case stoul v of
              Ret n \<Rightarrow> Ret (r\<lparr>req_content_length := n\<rparr>)
            | Exn e \<Rightarrow> Exn e
            | Hang \<Rightarrow> Hang)
         else Ret r)"

definition strip_cr :: "string \<Rightarrow> string" where
  "strip_cr line = (if line \<noteq> [] \<and> last line = CR then butlast line else line)"

definition parse_header_line :: "string \<Rightarrow> HttpRequest \<Rightarrow> HttpRequest outcome" where
  "parse_header_line line0 r =
     (if line0 = [] \<or> line0 = [CR] then Ret r
      else
        let line = strip_cr line0
        in case find_char (CHR '':'') line of
             None \<Rightarrow> Ret r
           | Some colon_pos \<Rightarrow>
               let key = to_lower (take colon_pos line);
                   v = dropWhile (\<lambda>c. c = CHR '' '' \<or> c = TAB) (drop (colon_pos + 1) line)
               in store_header key v r)"

fun parse_header_lines :: "string list \<Rightarrow> HttpRequest \<Rightarrow> HttpRequest outcome" where
  "parse_header_lines [] r = Ret r"
| "parse_header_lines (l # ls) r =
     (case parse_header_line l r of
        Ret r' \<Rightarrow> parse_header_lines ls r'
      | Exn e \<Rightarrow> Exn e
      | Hang \<Rightarrow> Hang)"

definition parse_headers :: "string \<Rightarrow> HttpRequest \<Rightarrow> HttpRequest outcome" where
  "parse_headers str r = parse_header_lines (getlines LF str) r"

section \<open>What the parsers do on well-formed input\<close>

lemma encode_url_chars: "c \<in> set (encode_url p) \<Longrightarrow> is_unreserved c \<or> c = CHR ''%''"
proof -
  have h: "is_unreserved (digit_char d)" if "d < 16" for d
    using that by (auto simp: is_unreserved_def char_class code_digit_char)
  assume "c \<in> set (encode_url p)"
  then show ?thesis
    by (auto simp: encode_url_def encode_url_char_def percent_def hex2_upper_def intro: h
        split: if_splits)
qed

lemma encode_url_no [simp]:
  "CHR '' '' \<notin> set (encode_url p)" "CHR '':'' \<notin> set (encode_url p)"
  "CR \<notin> set (encode_url p)" "LF \<notin> set (encode_url p)"
  by (auto dest!: encode_url_chars simp: is_unreserved_def char_class)

text \<open>
  The request line a client writes for method \<open>m\<close> and path \<open>p\<close>, percent-encoded, is parsed
  back to exactly that method and path, for every method and every byte string \<open>p\<close>.
\<close>

theorem request_line_roundtrip:
  "parse_request_line (method_to_string m @ '' '' @ encode_url p @ '' HTTP/1.1'') r =
     Some (r\<lparr>req_method := m, req_path := p, req_version := HTTP11\<rparr>)"
proof -
  have "split (method_to_string m @ '' '' @ encode_url p @ '' HTTP/1.1'') (CHR '' '')
      = [method_to_string m, encode_url p, ''HTTP/1.1'']"
    using method_string_no_space [of m]
    by (simp add: split_eq_ref split_ref_append)
  then show ?thesis
    by (simp add: parse_request_line_def decode_encode)
qed

lemma parse_header_line_colonless:
  "CHR '':'' \<notin> set l \<Longrightarrow> parse_header_line l r = Ret r"
proof -
  assume a: "CHR '':'' \<notin> set l"
  then have "CHR '':'' \<notin> set (strip_cr l)"
    by (auto simp: strip_cr_def dest: in_set_butlastD)
  then have "find_char (CHR '':'') (strip_cr l) = None"
    by (simp add: find_char_None)
  then show ?thesis by (simp add: parse_header_line_def)
qed

text \<open>A header line as a client writes it, with or without its carriage return.\<close>

lemma parse_header_line_field:
  assumes k: "CHR '':'' \<notin> set k" and v: "v \<noteq> []" "hd v \<noteq> CHR '' ''" "hd v \<noteq> TAB" "last v \<noteq> CR"
    and l: "l = k @ '': '' @ v \<or> l = k @ '': '' @ v @ [CR]"
  shows "parse_header_line l r = store_header (to_lower k) v r"
proof -
  have s: "strip_cr l = k @ CHR '':'' # CHR '' '' # v"
    using l v by (auto simp: strip_cr_def butlast_append)
  have d: "dropWhile (\<lambda>c. c = CHR '' '' \<or> c = TAB) v = v"
    using v by (cases v) auto
  have "l \<noteq> [] \<and> l \<noteq> [CR]"
    using l v by (cases k) auto
  then show ?thesis
    using s d by (simp add: parse_header_line_def find_char_append [OF k])
qed

section \<open>Responses\<close>

definition error_response :: "nat \<Rightarrow> string \<Rightarrow> HttpResponse" where
  "error_response code message =
     (set_header ''Content-Length'' (dec (length message))
       (set_header ''Content-Type'' ''text/plain''
         (new_response\<lparr>resp_status_code := code, resp_status_message := message\<rparr>)))
     \<lparr>resp_body := message\<rparr>"

definition header_text :: "string \<times> string \<Rightarrow> string" where
  "header_text kv = fst kv @ '': '' @ snd kv @ crlf"

text \<open>\<open>order\<close> is the iteration order of the hash table.\<close>

definition generate_response ::
    "((string \<times> string) list \<Rightarrow> (string \<times> string) list) \<Rightarrow> HttpResponse \<Rightarrow> string" where
  "generate_response order r =
     ''HTTP/1.1 '' @ dec (resp_status_code r) @ '' '' @ resp_status_message r @ crlf
     @ concat (map header_text (order (resp_headers r)))
     @ crlf @ resp_body r"

text \<open>An iteration visits every entry once.\<close>

definition visits_all :: "('a list \<Rightarrow> 'a list) \<Rightarrow> bool" where
  "visits_all order \<longleftrightarrow> (\<forall>hs. distinct (order hs) = distinct hs \<and> set (order hs) = set hs)"

section \<open>The date\<close>

definition days :: "string list" where
  "days = [''Sun'', ''Mon'', ''Tue'', ''Wed'', ''Thu'', ''Fri'', ''Sat'']"

definition months :: "string list" where
  "months = [''Jan'', ''Feb'', ''Mar'', ''Apr'', ''May'', ''Jun'', ''Jul'', ''Aug'', ''Sep'',
     ''Oct'', ''Nov'', ''Dec'']"

text \<open>The date of the broken-down UTC time \<open>t\<close> that \<open>gmtime\<close> returned.\<close>

definition getHttpDate :: "tm \<Rightarrow> string" where
  "getHttpDate t =
     days ! tm_wday t @ '', '' @ pad_left (CHR ''0'') 2 (dec (tm_mday t)) @ '' ''
     @ months ! tm_mon t @ '' '' @ dec (tm_year t + 1900) @ '' ''
     @ pad_left (CHR ''0'') 2 (dec (tm_hour t)) @ '':''
     @ pad_left (CHR ''0'') 2 (dec (tm_min t)) @ '':''
     @ pad_left (CHR ''0'') 2 (dec (tm_sec t)) @ '' GMT''"

end
