(* ===== verification/WinStdio.thy ===== *)
theory WinStdio
  imports StdFsInv HttpMessage
begin

text \<open>
  The text mode of the C runtime on Windows, which \<open>fopen\<close> with \<open>"r+"\<close> and the file streams
  opened without \<open>binary\<close> use: on input a carriage return before a line feed disappears and
  Ctrl-Z ends the file; on output every line feed gets a carriage return in front.
\<close>

abbreviation CTRL_Z :: char where "CTRL_Z \<equiv> CHR 0x1A"

fun text_in :: "string \<Rightarrow> string" where
  "text_in [] = []"
| "text_in (c # cs) =
     (if c = CTRL_Z then []
      else if c = CR \<and> cs \<noteq> [] \<and> hd cs = LF then text_in cs
      else c # text_in cs)"

definition text_out :: "string \<Rightarrow> string" where
  "text_out s = concat (map (\<lambda>c. if c = LF then crlf else [c]) s)"

lemma text_out_Cons: "text_out (c # s) = (if c = LF then crlf else [c]) @ text_out s"
  by (simp add: text_out_def)

lemma hd_text_out: "text_out s \<noteq> [] \<Longrightarrow> hd (text_out s) \<noteq> LF"
  by (cases s) (auto simp: text_out_def crlf_def)

lemma text_in_out: "CTRL_Z \<notin> set s \<Longrightarrow> text_in (text_out s) = s"
proof (induction s)
  case (Cons c s)
  then show ?case using hd_text_out [of s] by (auto simp: text_out_Cons crlf_def)
qed (simp add: text_out_def)

lemma length_text_out: "length (text_out s) = length s + count_list s LF"
  by (induction s) (auto simp: text_out_def crlf_def)

text \<open>Opening and reading a whole file: \<open>None\<close> when it does not open.\<close>

definition file_bytes :: "os \<Rightarrow> path \<Rightarrow> string option" where
  "file_bytes os p =
     (case status os p of Inr (RegFile a b) \<Rightarrow> Some b | _ \<Rightarrow> None)"

end
