(* ===== verification/PathGuard.thy ===== *)
theory PathGuard
  imports StdFsInv UrlCodec
begin

text \<open>
  The five places where the program decides whether a path lies under a root:
  \<open>PathResolver::resolve\<close> (FTP), \<open>DavRequestHandler::resolve_path\<close> and
  \<open>DavResourceFactory::validate_path\<close> (WebDAV), \<open>utils::sanitize_path\<close>, and the path test of
  \<open>AccessController::check_permission\<close> (in the theory of access control). All compare the text
  of two canonical paths; the locale \<open>guard\<close> holds that contract and what follows from it.
\<close>

section \<open>The definitions\<close>

definition resolve :: "os \<Rightarrow> path \<Rightarrow> path \<Rightarrow> string \<Rightarrow> path" where
  "resolve os current root p =
     (let target = path_append current p
      in case canonical os target of
           Inl e \<Rightarrow> []
         | Inr c \<Rightarrow>
             (case canonical os root of
                Inl e \<Rightarrow> []
              | Inr rc \<Rightarrow> if \<not> starts_at_0 c rc then [] else c))"

definition substr_1 :: "string \<Rightarrow> string outcome" where
  "substr_1 s = (if s = [] then Exn (Out_of_range ''invalid string position'') else Ret (drop 1 s))"

definition resolve_path :: "os \<Rightarrow> path \<Rightarrow> string \<Rightarrow> path outcome" where
  "resolve_path os root request_path =
     (let decoded = decode_url request_path
      in case substr_1 decoded of
           Exn e \<Rightarrow> Exn e
         | Hang \<Rightarrow> Hang
         | Ret rel \<Rightarrow>
             (case canonical os (path_append root rel) of
                Inl e \<Rightarrow> Ret []
              | Inr c \<Rightarrow>
                  (case canonical os root of
                     Inl e \<Rightarrow> Ret []
                   | Inr rc \<Rightarrow> if \<not> starts_at_0 c rc then Ret [] else Ret c)))"

definition validate_path :: "os \<Rightarrow> path \<Rightarrow> path \<Rightarrow> bool" where
  "validate_path os root p =
     (case canonical os p of
        Inl e \<Rightarrow> False
      | Inr c \<Rightarrow>
          (case canonical os root of Inl e \<Rightarrow> False | Inr rc \<Rightarrow> starts_at_0 c rc))"

definition sanitize_path :: "string \<Rightarrow> string \<Rightarrow> (os, string) eff" where
  "sanitize_path root p =
     bindE (fs_canonical (path_append root p)) (\<lambda>c.
     bindE (fs_canonical root) (\<lambda>rc.
     if \<not> starts_at_0 c rc then ret [] else ret c))"

text \<open>\<open>PathResolver::get_relative_path\<close>: what is left of the two paths after the elements they share.\<close>

fun skip_common :: "path list \<Rightarrow> path list \<Rightarrow> path list \<times> path list" where
  "skip_common (a # as) (b # bs) = (if a = b then skip_common as bs else (a # as, b # bs))"
| "skip_common as bs = (as, bs)"

definition relative_text :: "path \<Rightarrow> path \<Rightarrow> path" where
  "relative_text abs_canonical root_canonical =
     (let (as, bs) = skip_common (path_elems abs_canonical) (path_elems root_canonical);
          up = foldl (\<lambda>r b. path_append r ''..'') [] bs;
          result = foldl path_append up as
      in if result = [] then ''/'' else result)"

definition get_relative_path :: "path \<Rightarrow> path \<Rightarrow> (os, path) eff" where
  "get_relative_path p base =
     bindE (fs_canonical base) (\<lambda>root_canonical.
     bindE (fs_canonical p) (\<lambda>abs_canonical.
     ret (relative_text abs_canonical root_canonical)))"

section \<open>Text prefix and location\<close>

text \<open>
  A location whose text extends the root's text in the middle of a name: beside the root, with
  a name that starts with the root's name.
\<close>

definition name_extends :: "string list \<Rightarrow> string list \<Rightarrow> bool" where
  "name_extends cs ds \<longleftrightarrow>
     (\<exists>pre x y rest. cs = pre @ [x] \<and> ds = pre @ (x @ y) # rest \<and> y \<noteq> [])"

definition beside :: "loc \<Rightarrow> loc \<Rightarrow> bool" where
  "beside r l \<longleftrightarrow> fst l = fst r \<and> name_extends (snd r) (snd l)"

lemma name_extends_one: "y \<noteq> [] \<Longrightarrow> name_extends [x] ((x @ y) # rest)"
  by (auto simp: name_extends_def)

lemma name_extends_Cons: "name_extends cs ds \<Longrightarrow> name_extends (x # cs) (x # ds)"
  unfolding name_extends_def by (metis append_Cons)

lemma join_append:
  "cs \<noteq> [] \<Longrightarrow> ds \<noteq> [] \<Longrightarrow> join s (cs @ ds) = join s cs @ s @ join s ds"
  by (induction s cs rule: join.induct) (auto simp: neq_Nil_conv)

lemma join_prefix: "prefix (join [BSL] cs) (join [BSL] (cs @ ds))"
  by (cases "cs = [] \<or> ds = []") (auto simp: join_append)

lemma prefix_no_sep:
  "b \<notin> set x \<Longrightarrow> prefix x (d @ b # t) \<Longrightarrow> prefix x d"
proof (induction x arbitrary: d)
  case (Cons a x)
  show ?case
  proof (cases d)
    case Nil
    then show ?thesis using Cons(2,3) by simp
  next
    case (Cons c e)
    then show ?thesis using Cons.IH [of e] Cons.prems by simp
  qed
qed simp

lemma prefix_sep:
  "b \<notin> set x \<Longrightarrow> b \<notin> set d \<Longrightarrow> prefix (x @ b # s) (d @ b # t) \<Longrightarrow> x = d \<and> prefix s t"
proof (induction x arbitrary: d)
  case Nil
  then show ?case by (cases d) auto
next
  case (Cons a x)
  then show ?case by (cases d) auto
qed

lemma no_slash_no_BSL: "list_all (\<lambda>c. \<not> is_slash c) n \<Longrightarrow> BSL \<notin> set n"
  by (induction n) auto

lemma prefix_join_ne:
  assumes "BSL \<in> set s" "prefix s (join [BSL] [d])" shows "BSL \<in> set d"
  using assms by (auto simp: prefix_def)

lemma names_of_prefix:
  assumes "list_all valid_name cs" "list_all valid_name ds"
    and "prefix (join [BSL] cs) (join [BSL] ds)"
  shows "prefix cs ds \<or> name_extends cs ds"
  using assms
proof (induction "[BSL]" cs arbitrary: ds rule: join.induct)
  case (2 x)
  have x: "x \<noteq> []" "BSL \<notin> set x" using 2(1) valid_name_no_BSL by (auto simp: valid_name_def)
  then obtain d ds' where ds: "ds = d # ds'" using 2(3) by (cases ds) auto
  have "prefix x d"
    using 2(3) x prefix_no_sep [of BSL x d] unfolding ds by (cases ds') auto
  then obtain y where "d = x @ y" by (auto simp: prefix_def)
  then show ?case using ds name_extends_one [of y x ds'] by (cases "y = []") auto
next
  case (3 x y ys)
  have x: "BSL \<notin> set x" using 3(2) by (simp add: valid_name_no_BSL)
  obtain d ds' where ds: "ds = d # ds'" using 3(4) by (cases ds) auto
  have d: "BSL \<notin> set d" using 3(3) unfolding ds by (simp add: valid_name_no_BSL)
  have m: "BSL \<in> set (join [BSL] (x # y # ys))" by simp
  have "ds' \<noteq> []"
  proof
    assume "ds' = []"
    then have "prefix (join [BSL] (x # y # ys)) (join [BSL] [d])" using 3(4) by (simp only: ds)
    then show False using prefix_join_ne [OF m] d by blast
  qed
  then obtain e es where e: "ds' = e # es" by (cases ds') auto
  have p: "x = d \<and> prefix (join [BSL] (y # ys)) (join [BSL] ds')"
  proof -
    have "prefix (x @ BSL # join [BSL] (y # ys)) (d @ BSL # join [BSL] ds')"
      using 3(4) by (simp add: ds e)
    then show ?thesis by (rule prefix_sep [OF x d])
  qed
  have "prefix (y # ys) ds' \<or> name_extends (y # ys) ds'"
    using 3(1) [of ds'] 3(2,3) p unfolding ds by simp
  then show ?case
  proof
    assume "prefix (y # ys) ds'"
    then show ?case using p unfolding ds by simp
  next
    assume "name_extends (y # ys) ds'"
    then show ?case using p name_extends_Cons unfolding ds by blast
  qed
qed simp

lemma root_of_prefix:
  assumes r: "valid_root a" and b: "valid_root b" and p: "prefix (a @ BSL # s) (b @ BSL # t)"
  shows "a = b \<and> prefix s t"
proof (cases "valid_drive a")
  case True
  then obtain c where a: "a = [c, CHR '':'']" "is_upper c" by (auto simp: valid_drive_def)
  show ?thesis
  proof (cases "valid_drive b")
    case True
    then show ?thesis using a p by (auto simp: valid_drive_def)
  next
    case False
    then have "c = BSL" using b a p by (auto simp: valid_root_def valid_server_def)
    then show ?thesis using a upper_not_slash [of c] by simp
  qed
next
  case False
  then obtain n where a: "a = BSL # BSL # n" "BSL \<notin> set n"
    using r no_slash_no_BSL unfolding valid_root_def valid_server_def by blast
  show ?thesis
  proof (cases "valid_drive b")
    case True
    then show ?thesis using a p upper_not_slash by (auto simp: valid_drive_def)
  next
    case False
    then obtain m where "b = BSL # BSL # m" "BSL \<notin> set m"
      using b no_slash_no_BSL unfolding valid_root_def valid_server_def by blast
    then show ?thesis using a p prefix_sep [of BSL n m s t] by simp
  qed
qed

lemma text_prefix_iff:
  assumes r: "valid_loc r" and l: "valid_loc l"
  shows "prefix (loc_str r) (loc_str l) \<longleftrightarrow> below r l \<or> beside r l"
proof
  assume "prefix (loc_str r) (loc_str l)"
  then have "prefix (fst r @ BSL # join [BSL] (snd r)) (fst l @ BSL # join [BSL] (snd l))"
    by (simp only: loc_str_def)
  moreover have "valid_root (fst r)" "valid_root (fst l)"
    using r l by (simp_all add: valid_loc_def)
  ultimately have f: "fst r = fst l" and p: "prefix (join [BSL] (snd r)) (join [BSL] (snd l))"
    using root_of_prefix by blast+
  have "prefix (snd r) (snd l) \<or> name_extends (snd r) (snd l)"
    using names_of_prefix [OF _ _ p] r l by (simp add: valid_loc_def)
  then show "below r l \<or> beside r l"
    using f by (simp add: below_def beside_def)
next
  assume "below r l \<or> beside r l"
  then show "prefix (loc_str r) (loc_str l)"
  proof
    assume "below r l"
    then obtain ds where "fst l = fst r" "snd l = snd r @ ds" by (auto simp: below_def prefix_def)
    then show ?thesis by (simp add: loc_str_def join_prefix)
  next
    assume "beside r l"
    then obtain pre x y rest where l: "fst l = fst r" "snd r = pre @ [x]" "snd l = pre @ (x @ y) # rest"
      unfolding beside_def name_extends_def by blast
    have a: "prefix (x @ z) (join [BSL] ((x @ z @ y) # rest))" for z
      by (cases rest) auto
    have "prefix (join [BSL] (pre @ [x])) (join [BSL] (pre @ (x @ y) # rest))"
      using a [of "[]"] by (cases "pre = []") (simp_all add: join_append)
    then show ?thesis using l by (simp add: loc_str_def)
  qed
qed

lemma beside_drive: "snd r = [] \<Longrightarrow> \<not> beside r l"
  by (simp add: beside_def name_extends_def)

section \<open>The contract\<close>

text \<open>
  A guard decides on a path under a root: \<open>Some c\<close> when it lets the path through as \<open>c\<close>.
\<close>

locale guard =
  fixes admit :: "os \<Rightarrow> path \<Rightarrow> path \<Rightarrow> path option"
  assumes admit_iff: "admit os root p = Some c \<longleftrightarrow>
      canonical os p = Inr c \<and> (\<exists>rc. canonical os root = Inr rc \<and> prefix rc c)"
begin

lemma admit_locs:
  assumes "wf_os os" "admit os root p = Some c"
  shows "\<exists>l r. follow os p = Inr l \<and> c = loc_str l \<and> follow os root = Inr r
    \<and> solid os l \<and> (below r l \<or> beside r l)"
proof -
  obtain rc where "canonical os p = Inr c" "canonical os root = Inr rc" and pre: "prefix rc c"
    using assms(2) by (auto simp: admit_iff)
  then obtain l r where l: "follow os p = Inr l" "c = loc_str l" "solid os l"
    and r: "follow os root = Inr r" "rc = loc_str r" "solid os r"
    using canonical_cases by metis
  have "valid_loc r" "valid_loc l" using solid_valid [OF assms(1)] l(3) r(3) by auto
  then have "below r l \<or> beside r l" using text_prefix_iff pre l(2) r(2) by simp
  then show ?thesis using l r by blast
qed

lemma admit_exact:
  assumes wf: "wf_os os" and l: "follow os p = Inr l" and r: "follow os root = Inr r"
  shows "admit os root p = (if below r l \<or> beside r l then Some (loc_str l) else None)"
proof -
  have v: "valid_loc r" "valid_loc l"
    using solid_valid [OF wf] follow_result_solid l r by blast+
  have c: "canonical os p = Inr (loc_str l)" "canonical os root = Inr (loc_str r)"
    using l r by (simp_all add: canonical_def)
  show ?thesis
  proof (cases "prefix (loc_str r) (loc_str l)")
    case True
    then have "admit os root p = Some (loc_str l)" using c by (simp add: admit_iff)
    then show ?thesis using True text_prefix_iff [OF v] by simp
  next
    case False
    then have "admit os root p = None"
      using c by (cases "admit os root p") (auto simp: admit_iff)
    then show ?thesis using False text_prefix_iff [OF v] by simp
  qed
qed

lemma admit_drive:
  assumes "wf_os os" "follow os root = Inr (d, [])" "admit os root p = Some c"
  shows "\<exists>l. follow os p = Inr l \<and> c = loc_str l \<and> below (d, []) l"
  using admit_locs [OF assms(1,3)] assms(2) beside_drive [of "(d, [])"] by auto

end

section \<open>The guards of the program\<close>

definition resolve_admit :: "os \<Rightarrow> path \<Rightarrow> path \<Rightarrow> path option" where
  "resolve_admit os root p =
     (case canonical os p of
        Inl e \<Rightarrow> None
      | Inr c \<Rightarrow>
          (case canonical os root of Inl e \<Rightarrow> None | Inr rc \<Rightarrow> if starts_at_0 c rc then Some c else None))"

interpretation ftp_guard: guard resolve_admit
  by unfold_locales (auto simp: resolve_admit_def split: sum.splits)

interpretation dav_guard: guard "\<lambda>os root p.
    if validate_path os root p then (case canonical os p of Inr c \<Rightarrow> Some c | Inl e \<Rightarrow> None) else None"
  by unfold_locales (auto simp: validate_path_def split: sum.splits)

interpretation sanitize_guard: guard "\<lambda>os root p.
    (case bindE (fs_canonical p) (\<lambda>c. bindE (fs_canonical root) (\<lambda>rc.
        if \<not> starts_at_0 c rc then ret [] else ret c)) os of
       (Ret c, _) \<Rightarrow> if c = [] then None else Some c | _ \<Rightarrow> None)"
proof unfold_locales
  fix os root p c
  have ne: "d \<noteq> []" if "canonical os p = Inr d" for d
    using canonical_cases [OF that] by auto
  show "(case bindE (fs_canonical p) (\<lambda>c. bindE (fs_canonical root) (\<lambda>rc.
        if \<not> starts_at_0 c rc then ret [] else ret c)) os of
       (Ret c, _) \<Rightarrow> if c = [] then None else Some c | _ \<Rightarrow> None) = Some c \<longleftrightarrow>
      canonical os p = Inr c \<and> (\<exists>rc. canonical os root = Inr rc \<and> prefix rc c)"
    using ne by (cases "canonical os p"; cases "canonical os root")
      (auto simp: fs_canonical_def or_throw_def bindE_def ret_def)
qed

lemma resolve_admitted:
  "resolve os current root p = (case resolve_admit os root (path_append current p) of
     Some c \<Rightarrow> c | None \<Rightarrow> [])"
  by (auto simp: resolve_def resolve_admit_def Let_def split: sum.splits)

lemma resolve_path_admitted:
  "resolve_path os root q =
     (if decode_url q = [] then Exn (Out_of_range ''invalid string position'')
      else Ret (case resolve_admit os root (path_append root (tl (decode_url q))) of
                  Some c \<Rightarrow> c | None \<Rightarrow> []))"
  by (auto simp: resolve_path_def resolve_admit_def substr_1_def Let_def drop_Suc split: sum.splits)

lemma admitted_ne: "resolve_admit os root p = Some c \<Longrightarrow> c \<noteq> []"
  by (auto simp: ftp_guard.admit_iff dest!: canonical_cases)

section \<open>What a resolved path is\<close>

lemma resolve_locs:
  assumes "wf_os os" and "resolve os current root p = c" and "c \<noteq> []"
  shows "\<exists>l r. follow os (path_append current p) = Inr l \<and> c = loc_str l
    \<and> follow os root = Inr r \<and> solid os l \<and> (below r l \<or> beside r l)"
proof -
  have "resolve_admit os root (path_append current p) = Some c"
    using assms(2,3) by (auto simp: resolve_admitted split: option.splits)
  then show ?thesis by (rule ftp_guard.admit_locs [OF assms(1)])
qed

lemma resolved_again:
  assumes "wf_os os" and "resolve os current root p = c" and "c \<noteq> []"
  shows "follow os c = follow os (path_append current p)" and "locate os c = follow os c"
proof -
  obtain l where l: "follow os (path_append current p) = Inr l" "c = loc_str l" "solid os l"
    using resolve_locs [OF assms] by blast
  show "follow os c = follow os (path_append current p)" and "locate os c = follow os c"
    using l assms(1) by (simp_all add: follow_solid locate_solid)
qed

lemma resolve_missing: "follow os (path_append current p) = Inl e \<Longrightarrow> resolve os current root p = []"
  by (simp add: resolve_def canonical_def)

text \<open>
  C16: What \<open>PathResolver::resolve\<close> lets through, exactly: a path that leads to a location is
  returned, as the text of that location, when the location is the root or beneath it, or when
  it lies beside the root under a name that merely starts with the root's name; any other
  existing location is refused.
\<close>

theorem resolve_exact:
  assumes "wf_os os" and "follow os (path_append current p) = Inr l" and "follow os root = Inr r"
  shows "resolve os current root p = (if below r l \<or> beside r l then loc_str l else [])"
  using ftp_guard.admit_exact [OF assms] by (simp add: resolve_admitted)

lemma follow_file:
  "follow sample_os (path_append served ''a.txt'') = Inr (''D:'', [''ftp'', ''a.txt''])"
  by code_simp

lemma resolve_exact_witness:
  "resolve sample_os served served ''a.txt'' = ''D:'' @ [BSL] @ ''ftp'' @ [BSL] @ ''a.txt''"
  using resolve_exact [OF wf_sample_os follow_file follow_served]
  by (simp add: below_def loc_str_def)

text \<open>
  With the root of a drive as root directory (the server's default is the drive d) the
  confinement of FTP paths is exact: whatever \<open>resolve\<close> returns is the text of an existing
  location on that drive, links followed.
\<close>

theorem resolve_drive_root:
  assumes "wf_os os" and "follow os root = Inr (d, [])"
    and "resolve os current root p = c" and "c \<noteq> []"
  shows "\<exists>l. follow os (path_append current p) = Inr l \<and> c = loc_str l \<and> fst l = d \<and> solid os l"
  using resolve_locs [OF assms(1,3,4)] assms(2) beside_drive [of "(d, [])"]
  by (auto simp: below_def)

lemma follow_drive: "follow sample_os ''d:'' = Inr (''D:'', [])"
  by code_simp

lemma resolve_drive_sub:
  "resolve sample_os ''d:'' ''d:'' ''ftp/sub'' = ''D:'' @ [BSL] @ ''ftp'' @ [BSL] @ ''sub''"
  by code_simp

lemma resolve_drive_root_witness:
  "\<exists>l. follow sample_os (path_append ''d:'' ''ftp/sub'') = Inr l
    \<and> ''D:'' @ [BSL] @ ''ftp'' @ [BSL] @ ''sub'' = loc_str l \<and> fst l = ''D:'' \<and> solid sample_os l"
  by (rule resolve_drive_root [OF wf_sample_os follow_drive resolve_drive_sub]) simp

text \<open>
  The WebDAV resolver is the FTP resolver on the decoded request path less its first
  character, and throws on a path that decodes to nothing.
\<close>

theorem resolve_path_same_guard:
  "resolve_path os root q =
     (if decode_url q = [] then Exn (Out_of_range ''invalid string position'')
      else Ret (resolve os root root (tl (decode_url q))))"
  by (simp add: resolve_path_admitted resolve_admitted)

text \<open>
  \<open>sanitize_path\<close> is the same guard where both paths exist, and throws the error of the
  first one that does not.
\<close>

theorem sanitize_path_same_guard:
  "sanitize_path root p os =
     (case canonical os (path_append root p) of
        Inl e \<Rightarrow> (Exn (fs_error os ''canonical'' e (path_append root p)), os)
      | Inr c \<Rightarrow>
          (case canonical os root of
             Inl e \<Rightarrow> (Exn (fs_error os ''canonical'' e root), os)
           | Inr rc \<Rightarrow> (Ret (resolve os root root p), os)))"
  by (auto simp: sanitize_path_def fs_canonical_def or_throw_def bindE_def ret_def resolve_def
      split: sum.splits)

lemma validate_resolved:
  assumes "wf_os os" and "resolve os current root p = c" and "c \<noteq> []"
  shows "validate_path os root c"
  using assms resolved_again(1) [OF assms]
  by (auto simp: validate_path_def resolve_def canonical_def Let_def split: sum.splits if_splits)

section \<open>The relative path\<close>

lemma skip_common_append: "skip_common (as @ ds) as = (ds, [])"
  by (induction as) (cases ds, auto)

lemma last_not_slash:
  assumes "list_all valid_name cs" "cs \<noteq> []" shows "\<not> is_slash (last (join [BSL] cs))"
proof -
  have n: "valid_name (last cs)" using assms by (simp add: list_all_iff)
  then have "last cs \<noteq> []" by (simp add: valid_name_def)
  moreover have "last (join [BSL] (bs @ [x])) = last x" if "x \<noteq> []" for bs x
    using that by (cases "bs = []") (auto simp: join_append)
  ultimately have "last (join [BSL] cs) = last (last cs)"
    using assms(2) by (metis append_butlast_last_id)
  then show ?thesis using n \<open>last cs \<noteq> []\<close> by (auto simp: valid_name_def list_all_iff)
qed

lemma join_ne: "list_all valid_name cs \<Longrightarrow> cs \<noteq> [] \<Longrightarrow> join [BSL] cs \<noteq> []"
  by (cases cs rule: remdups_adj.cases) (auto simp: valid_name_def)

lemma path_elems_loc:
  assumes "valid_loc l" shows "path_elems (loc_str l) = [fst l, [BSL]] @ snd l"
proof -
  have v: "list_all valid_name (snd l)" using assms by (simp add: valid_loc_def)
  have r: "fst l \<noteq> []"
    using assms by (auto simp: valid_loc_def valid_root_def valid_drive_def valid_server_def)
  have "\<not> is_slash (last (loc_str l))" if "snd l \<noteq> []"
    using last_not_slash [OF v that] join_ne [OF v that] by (simp add: loc_str_def)
  then show ?thesis
    using assms v r by (auto simp: path_elems_def)
qed

definition plain_names :: "string list \<Rightarrow> bool" where
  "plain_names ds \<longleftrightarrow> list_all (\<lambda>n. valid_name n \<and> CHR '':'' \<notin> set n) ds"

lemma join_colon: "CHR '':'' \<in> set (join [BSL] ds) \<Longrightarrow> \<exists>n\<in>set ds. CHR '':'' \<in> set n"
  by (induction "[BSL]" ds rule: join.induct) auto

lemma drive_colon: "is_drive_prefix p \<Longrightarrow> CHR '':'' \<in> set p"
  by (cases p rule: is_drive_prefix.cases) auto

lemma plain_no_root:
  assumes "plain_names ds" shows "root_name_len (join [BSL] ds) = 0"
proof -
  have v: "list_all valid_name ds" using assms by (auto simp: plain_names_def list_all_iff)
  have "\<not> is_drive_prefix (join [BSL] ds)"
    using drive_colon join_colon assms by (fastforce simp: plain_names_def list_all_iff)
  moreover have "\<not> is_device_prefix (join [BSL] ds)" "\<not> is_server_prefix (join [BSL] ds)"
    using join_head [OF v]
    by (cases "join [BSL] ds"; simp add: is_device_prefix_def is_server_prefix_def)+
  ultimately show ?thesis by (simp add: root_name_len_def)
qed

lemma append_plain:
  assumes "plain_names ds" and "plain_names [d]"
  shows "path_append (join [BSL] ds) d = join [BSL] (ds @ [d])"
proof -
  have v: "list_all valid_name ds" "valid_name d" using assms by (auto simp: plain_names_def list_all_iff)
  have d: "root_name_len d = 0" using plain_no_root [OF assms(2)] by simp
  have nr: "root_name_len (join [BSL] ds) = 0" using plain_no_root [OF assms(1)] .
  have nd: "\<not> is_drive_prefix d"
    using drive_colon [of d] assms(2) by (auto simp: plain_names_def)
  have h: "d \<noteq> []" "\<not> is_slash (hd d)" using v(2) by (auto simp: valid_name_def list_all_iff)
  show ?thesis
  proof (cases "ds = []")
    case True
    then show ?thesis using d nd h nr
      by (simp add: path_append_def is_absolute_def root_name_def after_root_def has_root_directory_def)
  next
    case False
    then show ?thesis
      using d nd h nr last_not_slash [OF v(1) False] join_ne [OF v(1) False]
      by (simp add: path_append_def is_absolute_def root_name_def after_root_def
          has_root_directory_def join_append)
  qed
qed

lemma foldl_plain:
  "plain_names (ds @ es) \<Longrightarrow> foldl path_append (join [BSL] ds) es = join [BSL] (ds @ es)"
proof (induction es arbitrary: ds)
  case (Cons e es)
  have "path_append (join [BSL] ds) e = join [BSL] (ds @ [e])"
    using Cons(2) by (intro append_plain) (auto simp: plain_names_def)
  then show ?case using Cons(1) [of "ds @ [e]"] Cons(2) by simp
qed simp

text \<open>
  The relative path PWD reports for a directory under the root is the names below the root
  joined by backslashes, and a slash for the root itself.
\<close>

theorem relative_text_below:
  assumes "valid_loc (r, cs)" and "plain_names ds"
  shows "relative_text (loc_str (r, cs @ ds)) (loc_str (r, cs)) =
    (if ds = [] then ''/'' else join [BSL] ds)"
proof -
  have v: "list_all valid_name ds" using assms(2) by (auto simp: plain_names_def list_all_iff)
  then have "valid_loc (r, cs @ ds)" using assms(1) by (simp add: valid_loc_def)
  then have "skip_common (path_elems (loc_str (r, cs @ ds))) (path_elems (loc_str (r, cs))) = (ds, [])"
    using assms(1) skip_common_append [of "[r, [BSL]] @ cs" ds] by (simp add: path_elems_loc)
  moreover have "foldl path_append [] ds = join [BSL] ds"
    using foldl_plain [of "[]" ds] assms(2) by simp
  ultimately show ?thesis
    using join_ne [OF v] by (simp add: relative_text_def)
qed

lemma relative_text_below_witness:
  "relative_text (loc_str (''D:'', [''ftp''] @ [''sub'', ''x''])) (loc_str (''D:'', [''ftp'']))
     = ''sub'' @ [BSL] @ ''x''"
proof -
  have "valid_loc (''D:'', [''ftp''])"
    by (simp add: valid_loc_def valid_root_def valid_drive_def char_class valid_name_def is_slash_def)
  moreover have "plain_names [''sub'', ''x'']"
    by (simp add: plain_names_def valid_name_def is_slash_def)
  ultimately show ?thesis
    using relative_text_below [of "''D:''" "[''ftp'']" "[''sub'', ''x'']"] by simp
qed

end
