(* ===== verification/AsyncFs.thy ===== *)
theory AsyncFs
  imports WinStdio PathGuard
begin

text \<open>
  \<open>core/async_fs\<close>: the file operations of \<open>AsyncFileSystemPOSIX\<close> behind the interface
  \<open>IAsyncFileSystem\<close> (the locale \<open>async_fs\<close>), the C file wrapper \<open>CNtFile\<close> and the class
  \<open>AsyncFileBuffered\<close> on top of it.
\<close>

record FileEntry =
  fe_path :: path
  fe_size :: nat
  fe_is_directory :: bool
  fe_last_modified :: int
  fe_permissions :: nat

section \<open>AsyncFileSystemPOSIX\<close>

definition error_of :: "string \<Rightarrow> errc option \<times> os \<Rightarrow> unit outcome \<times> os" where
  \<comment> \<open>the pattern of the operations that throw \<open>runtime_error(what + ec.message())\<close>\<close>
  "error_of what r =
     (case fst r of
        None \<Rightarrow> (Ret (), snd r)
      | Some e \<Rightarrow> (Exn (Runtime_error (what @ err_text (snd r) e)), snd r))"

definition entry_of :: "os \<Rightarrow> path \<Rightarrow> string \<Rightarrow> FileEntry list" where
  "entry_of os dir name =
     (let p = path_append dir name
      in case status os p of
           Inl ec \<Rightarrow> []
         | Inr (Directory a) \<Rightarrow>
             [\<lparr>fe_path = p, fe_size = 0, fe_is_directory = True, fe_last_modified = mtime a,
               fe_permissions = perms a\<rparr>]
         | Inr (RegFile a b) \<Rightarrow>
             [\<lparr>fe_path = p, fe_size = length b, fe_is_directory = False,
               fe_last_modified = mtime a, fe_permissions = perms a\<rparr>]
         | Inr (Symlink t) \<Rightarrow> [])"

definition read_directory :: "path \<Rightarrow> (os, FileEntry list) eff" where
  "read_directory p os =
     (case follow os p of
        Inl e \<Rightarrow> (Exn (fs_error os ''directory_iterator::directory_iterator'' e p), os)
      | Inr d \<Rightarrow>
          if is_dir_node (lookup os d)
          then (Ret (concat (map (\<lambda>l. entry_of os p (last (snd l))) (children os d))), os)
          else (Exn (fs_error os ''directory_iterator::directory_iterator'' Not_a_directory p), os))"

definition create_directory :: "path \<Rightarrow> (os, unit) eff" where
  "create_directory p os =
     error_of ''Failed to create directory: '' (fs_create_directories os p)"

definition remove_directory :: "path \<Rightarrow> (os, unit) eff" where
  "remove_directory p os = error_of ''Failed to remove directory: '' (fs_remove_all os p)"

definition file_size :: "path \<Rightarrow> (os, nat) eff" where
  "file_size p os = (case file_size_ec os p of Inl ec \<Rightarrow> (Ret 0, os) | Inr n \<Rightarrow> (Ret n, os))"

definition exists :: "path \<Rightarrow> (os, bool) eff" where
  "exists p os = (case exists_ec os p of Inl ec \<Rightarrow> (Ret False, os) | Inr b \<Rightarrow> (Ret b, os))"

definition remove_file :: "path \<Rightarrow> (os, unit) eff" where
  "remove_file p os = error_of ''Failed to remove file: '' (fs_remove os p)"

definition rename :: "path \<Rightarrow> path \<Rightarrow> (os, unit) eff" where
  "rename p q os = error_of ''Failed to rename: '' (fs_rename os p q)"

text \<open>
  \<open>read_file\<close> and \<open>write_file\<close>: the descriptors are opened in text mode, and the offset is
  cast to \<open>off_t\<close>, which has 32 bits on Windows. A carriage return at the end of the block is
  decided by the byte after it.
\<close>

definition strerror :: "errc \<Rightarrow> string" where
  "strerror e = (if not_found e then ''No such file or directory'' else ''Permission denied'')"

definition off_t :: "nat \<Rightarrow> int" where
  "off_t offset = sint (word_of_nat offset :: 32 word)"

definition read_text :: "nat \<Rightarrow> string \<Rightarrow> string" where
  "read_text n s =
     (if 0 < n \<and> n < length s \<and> s ! (n - 1) = CR \<and> s ! n = LF then text_in (take (Suc n) s)
      else text_in (take n s))"

definition read_file :: "path \<Rightarrow> nat \<Rightarrow> nat \<Rightarrow> (os, string) eff" where
  \<comment> \<open>the size of the buffer and the offset; the result is what is put into the buffer\<close>
  "read_file p n offset os =
     (case status os p of
        Inr (RegFile a b) \<Rightarrow>
          if 0 < offset \<and> off_t offset < 0
          then (Exn (Runtime_error ''Failed to seek: Invalid argument''), os)
          else (Ret (read_text n (drop (nat (off_t offset)) b)), os)
      | Inr _ \<Rightarrow> (Exn (Runtime_error (''Failed to open file: '' @ strerror Access_denied)), os)
      | Inl e \<Rightarrow> (Exn (Runtime_error (''Failed to open file: '' @ strerror e)), os))"

definition overwrite :: "nat \<Rightarrow> string \<Rightarrow> string \<Rightarrow> string" where
  \<comment> \<open>writing \<open>d\<close> at a position, which leaves zeros when it is beyond the end\<close>
  "overwrite pos d s =
     take pos s @ replicate (pos - length s) (CHR 0x00) @ d @ drop (pos + length d) s"

definition open_write :: "os \<Rightarrow> path \<Rightarrow> bool \<Rightarrow> (errc + loc) \<times> os" where
  \<comment> \<open>\<open>open\<close> with \<open>O_WRONLY | O_CREAT\<close>, truncating or not\<close>
  "open_write os p trunc =
     (case follow os p of
        Inr l \<Rightarrow>
          if trunc then open_trunc os p
          else (case lookup os l of
                  Some (RegFile a b) \<Rightarrow> (if writable a then Inr l else Inl Access_denied, os)
                | _ \<Rightarrow> (Inl Access_denied, os))
      | Inl e \<Rightarrow> open_trunc os p)"

definition contents :: "os \<Rightarrow> loc \<Rightarrow> string" where
  "contents os l = (case lookup os l of Some (RegFile a b) \<Rightarrow> b | _ \<Rightarrow> [])"

definition write_file :: "path \<Rightarrow> string \<Rightarrow> nat \<Rightarrow> (os, nat) eff" where
  "write_file p d offset os =
     (case open_write os p (offset = 0) of
        (Inl e, os') \<Rightarrow>
          (Exn (Runtime_error (''Failed to open file for writing: '' @ strerror e)), os')
      | (Inr l, os') \<Rightarrow>
          if 0 < offset \<and> off_t offset < 0
          then (Exn (Runtime_error ''Failed to seek: Invalid argument''), os')
          else (Ret (length d),
                set_contents l (overwrite (nat (off_t offset)) (text_out d) (contents os' l)) os'))"

section \<open>The interface\<close>

text \<open>
  What the handlers rely on: queries leave the file system alone, changes keep it well formed
  and make no symbolic link.
\<close>

definition no_new_links :: "os \<Rightarrow> os \<Rightarrow> bool" where
  "no_new_links os os' \<longleftrightarrow>
     (\<forall>l t. lookup os' l = Some (Symlink t) \<longrightarrow> lookup os l = Some (Symlink t))"

definition keeps :: "('s \<Rightarrow> bool) \<Rightarrow> ('s, 'a) eff \<Rightarrow> bool" where
  "keeps P m \<longleftrightarrow> (\<forall>s. P s \<longrightarrow> P (snd (m s)))"

definition reads :: "('s, 'a) eff \<Rightarrow> bool" where
  "reads m \<longleftrightarrow> (\<forall>s. snd (m s) = s)"

lemma readsD: "reads m \<Longrightarrow> m s = (r, t) \<Longrightarrow> t = s"
  unfolding reads_def by (metis snd_conv)

lemma reads_bindE:
  assumes "reads m" "\<And>x. reads (f x)" shows "reads (bindE m f)"
  unfolding reads_def
proof
  fix s
  obtain r t where m: "m s = (r, t)" by (cases "m s")
  then have "t = s" using readsD [OF assms(1)] by blast
  then show "snd (bindE m f s) = s"
    using m assms(2) by (cases r) (simp_all add: bindE_def reads_def)
qed

lemma reads_basic [simp]: "reads (ret x)" "reads (raise e)" "reads (getE f)" "reads (liftE r)"
  by (simp_all add: reads_def eff_simps)

lemma keepsD: "keeps P m \<Longrightarrow> P s \<Longrightarrow> P (snd (m s))"
  by (simp add: keeps_def)

lemma keeps_reads: "reads m \<Longrightarrow> keeps P m"
  by (simp add: keeps_def reads_def)

lemma keeps_bindE:
  assumes m: "keeps P m" and f: "\<And>x. keeps P (f x)" shows "keeps P (bindE m f)"
  unfolding keeps_def
proof (intro allI impI)
  fix s assume s: "P s"
  obtain r t where mt: "m s = (r, t)" by (cases "m s")
  then have t: "P t" using keepsD [OF m s] by simp
  show "P (snd (bindE m f s))"
    using mt t keepsD [OF f] by (cases r) (auto simp: bindE_def)
qed

lemma keeps_simple [intro]: "keeps P (ret x)" "keeps P (raise e)" "keeps P (getE f)" "keeps P (liftE r)"
  by (simp_all add: keeps_def eff_simps)

locale async_fs =
  fixes dir_entries :: "path \<Rightarrow> ('s, FileEntry list) eff"
    and make_dir :: "path \<Rightarrow> ('s, unit) eff"
    and delete_dir :: "path \<Rightarrow> ('s, unit) eff"
    and size_of :: "path \<Rightarrow> ('s, nat) eff"
    and is_there :: "path \<Rightarrow> ('s, bool) eff"
    and delete_file :: "path \<Rightarrow> ('s, unit) eff"
    and move_to :: "path \<Rightarrow> path \<Rightarrow> ('s, unit) eff"
    and inv :: "'s \<Rightarrow> bool"
  assumes queries: "reads (dir_entries p)" "reads (size_of p)" "reads (is_there p)"
    and changes: "keeps inv (make_dir p)" "keeps inv (delete_dir p)" "keeps inv (delete_file p)"
      "keeps inv (move_to p q)"
    and total: "\<exists>x. fst (size_of p s) = Ret x" "\<exists>b. fst (is_there p s) = Ret b"
begin

text \<open>The steps of the delete and rename handlers.\<close>

lemma delete_keeps: "keeps inv (if d then delete_dir p else delete_file p)"
  using changes by simp

lemma checked_size: "keeps inv (bindE (is_there p) (\<lambda>b. if b then size_of p else ret 0))"
  by (rule keeps_bindE) (auto intro: keeps_reads queries)

lemma move_all_keeps: "keeps inv (foldr (\<lambda>pq m. bindE (move_to (fst pq) (snd pq)) (\<lambda>_. m)) ps (ret ()))"
  by (induction ps) (auto intro: keeps_bindE changes)

end

interpretation posix_fs: async_fs read_directory create_directory remove_directory file_size
  exists remove_file rename wf_os
  by unfold_locales
     (auto simp: reads_def keeps_def read_directory_def create_directory_def remove_directory_def
       file_size_def exists_def remove_file_def rename_def error_of_def wf_changes
       split: sum.splits option.splits)

section \<open>CNtFile\<close>

record CNtFile =
  nt_fp :: "loc option"
  nt_text :: bool
  nt_pos :: nat
  nt_size :: nat

text \<open>The text of the exception, in the bytes the source has.\<close>

definition cannot_open :: string where
  "cannot_open =
     [CHR 0xE6, CHR 0x97, CHR 0xA0, CHR 0xE6, CHR 0xB3, CHR 0x95, CHR 0xE6, CHR 0x89, CHR 0x93,
      CHR 0xE5, CHR 0xBC, CHR 0x80, CHR 0xE6, CHR 0x96, CHR 0x87, CHR 0xE4, CHR 0xBB, CHR 0xB6]
     @ '': ''"

definition new_CNtFile :: "path \<Rightarrow> bool \<Rightarrow> (os, CNtFile) eff" where
  "new_CNtFile p readOnly =
     bindE (fs_file_size p) (\<lambda>n.
     bindE (getE (\<lambda>os. (follow os p, status os p))) (\<lambda>(l, st).
     case (l, st) of
       (Inr l, Inr (RegFile a b)) \<Rightarrow>
         if readOnly \<or> writable a
         then ret \<lparr>nt_fp = Some l, nt_text = (\<not> readOnly), nt_pos = 0, nt_size = n\<rparr>
         else raise (Runtime_error (cannot_open @ p))
     | _ \<Rightarrow> raise (Runtime_error (cannot_open @ p))))"

text \<open>
  \<open>fread\<close> in text mode: the characters delivered and how far it read in the file.
\<close>

fun fread_text :: "nat \<Rightarrow> string \<Rightarrow> string \<times> nat" where
  "fread_text 0 s = ([], 0)"
| "fread_text (Suc n) [] = ([], 0)"
| "fread_text (Suc n) (c # cs) =
     (if c = CTRL_Z then ([], 0)
      else if c = CR \<and> cs \<noteq> [] \<and> hd cs = LF
      then (case fread_text n (tl cs) of (t, k) \<Rightarrow> (LF # t, k + 2))
      else (case fread_text n cs of (t, k) \<Rightarrow> (c # t, k + 1)))"

text \<open>\<open>Read\<close> and \<open>Write\<close> ignore their offset: they continue where the file position is.\<close>

definition nt_Read :: "nat \<Rightarrow> nat \<Rightarrow> CNtFile \<Rightarrow> os \<Rightarrow> string \<times> CNtFile" where
  "nt_Read offset n f os =
     (case nt_fp f of
        None \<Rightarrow> ([], f)
      | Some l \<Rightarrow>
          let rest = drop (nt_pos f) (contents os l)
          in if nt_text f
             then (case fread_text n rest of (t, k) \<Rightarrow> (t, f\<lparr>nt_pos := nt_pos f + k\<rparr>))
             else (take n rest, f\<lparr>nt_pos := nt_pos f + length (take n rest)\<rparr>))"

definition nt_Write :: "nat \<Rightarrow> string \<Rightarrow> CNtFile \<Rightarrow> os \<Rightarrow> nat \<times> CNtFile \<times> os" where
  "nt_Write offset d f os =
     (case nt_fp f of
        None \<Rightarrow> (0, f, os)
      | Some l \<Rightarrow>
          let raw = (if nt_text f then text_out d else d)
          in (length d, f\<lparr>nt_pos := nt_pos f + length raw\<rparr>,
              set_contents l (overwrite (nt_pos f) raw (contents os l)) os))"

definition nt_Append :: "string \<Rightarrow> CNtFile \<Rightarrow> os \<Rightarrow> nat \<times> CNtFile \<times> os" where
  "nt_Append d f os =
     (case nt_fp f of
        None \<Rightarrow> (0, f, os)
      | Some l \<Rightarrow> nt_Write 0 d (f\<lparr>nt_pos := length (contents os l)\<rparr>) os)"

definition nt_Close :: "CNtFile \<Rightarrow> CNtFile" where
  "nt_Close f = f\<lparr>nt_fp := None\<rparr>"

section \<open>AsyncFileBuffered\<close>

record AsyncFileBuffered =
  af_file_size :: nat
  af_current_offset :: nat
  af_rawfile :: CNtFile

definition new_AsyncFileBuffered :: "path \<Rightarrow> (os, AsyncFileBuffered) eff" where
  "new_AsyncFileBuffered p =
     bindE (new_CNtFile p False) (\<lambda>f.
     ret \<lparr>af_file_size = (if nt_fp f \<noteq> None then nt_size f else 0), af_current_offset = 0,
          af_rawfile = f\<rparr>)"

definition af_read :: "nat \<Rightarrow> AsyncFileBuffered \<Rightarrow> os \<Rightarrow> string \<times> AsyncFileBuffered" where
  "af_read n f os =
     (case nt_Read (af_current_offset f) n (af_rawfile f) os of
        (bs, raw) \<Rightarrow>
          (bs, f\<lparr>af_rawfile := raw, af_current_offset := af_current_offset f + length bs\<rparr>))"

definition af_write :: "string \<Rightarrow> AsyncFileBuffered \<Rightarrow> os \<Rightarrow> nat \<times> AsyncFileBuffered \<times> os" where
  "af_write d f os =
     (case nt_Write (af_current_offset f) d (af_rawfile f) os of
        (n, raw, os') \<Rightarrow>
          (n, f\<lparr>af_rawfile := raw, af_current_offset := af_current_offset f + n,
               af_file_size := max (af_file_size f) (af_current_offset f + n)\<rparr>, os'))"

definition af_seek :: "nat \<Rightarrow> (AsyncFileBuffered, unit) eff" where
  "af_seek offset f =
     (if af_file_size f < offset
      then (Exn (Out_of_range ''Seek offset exceeds file size''), f)
      else (Ret (), f\<lparr>af_current_offset := offset\<rparr>))"

definition af_close :: "AsyncFileBuffered \<Rightarrow> AsyncFileBuffered" where
  "af_close f = f\<lparr>af_rawfile := nt_Close (af_rawfile f)\<rparr>"

section \<open>Reading in blocks is reading the text\<close>

lemma fread_text_spec:
  "fread_text n s = (t, k) \<Longrightarrow> t = take n (text_in s) \<and> text_in (drop k s) = drop n (text_in s)"
proof (induction n s arbitrary: t k rule: fread_text.induct)
  case (3 n c cs)
  show ?case
  proof (cases "c = CTRL_Z")
    case True
    then show ?thesis using 3(3) by simp
  next
    case False
    show ?thesis
    proof (cases "c = CR \<and> cs \<noteq> [] \<and> hd cs = LF")
      case True
      then obtain r where cs: "cs = LF # r" by (cases cs) auto
      obtain t' k' where r: "fread_text n r = (t', k')" by (cases "fread_text n r")
      then have "t = LF # t'" "k = k' + 2" using 3(3) True cs by auto
      moreover have "t' = take n (text_in r) \<and> text_in (drop k' r) = drop n (text_in r)"
        using 3(1) [OF False True] r cs by simp
      ultimately show ?thesis using cs True by simp
    next
      case nc: False
      obtain t' k' where r: "fread_text n cs = (t', k')" by (cases "fread_text n cs")
      then have "t = c # t'" "k = k' + 1" using 3(3) False nc by auto
      moreover have "t' = take n (text_in cs) \<and> text_in (drop k' cs) = drop n (text_in cs)"
        using 3(2) [OF False nc r] .
      ultimately show ?thesis using False nc by auto
    qed
  qed
qed simp_all

text \<open>
  What is left to read in an open file: in text mode, the translation of the rest.
\<close>

definition remaining :: "CNtFile \<Rightarrow> os \<Rightarrow> string" where
  "remaining f os =
     (case nt_fp f of
        None \<Rightarrow> []
      | Some l \<Rightarrow>
          let rest = drop (nt_pos f) (contents os l) in if nt_text f then text_in rest else rest)"

lemma nt_Read_remaining:
  assumes "nt_Read off n f os = (bs, f')"
  shows "bs = take n (remaining f os) \<and> remaining f' os = drop n (remaining f os)
     \<and> nt_fp f' = nt_fp f \<and> nt_text f' = nt_text f"
proof (cases "nt_fp f")
  case None
  then show ?thesis using assms by (auto simp: nt_Read_def remaining_def)
next
  case (Some l)
  let ?rest = "drop (nt_pos f) (contents os l)"
  show ?thesis
  proof (cases "nt_text f")
    case True
    obtain t k where r: "fread_text n ?rest = (t, k)" by (cases "fread_text n ?rest")
    then have "bs = t" "f' = f\<lparr>nt_pos := nt_pos f + k\<rparr>"
      using assms Some True by (auto simp: nt_Read_def)
    then show ?thesis
      using fread_text_spec [OF r] Some True by (simp add: remaining_def add.commute)
  next
    case False
    then have "bs = take n ?rest" "f' = f\<lparr>nt_pos := nt_pos f + length (take n ?rest)\<rparr>"
      using assms Some by (auto simp: nt_Read_def Let_def)
    moreover have "drop (length (take n ?rest)) ?rest = drop n ?rest"
      by (cases "n \<le> length ?rest") simp_all
    ultimately show ?thesis
      using Some False by (simp add: remaining_def add.commute)
  qed
qed

lemma af_read_remaining:
  "af_read n f os = (bs, f') \<Longrightarrow>
     bs = take n (remaining (af_rawfile f) os)
     \<and> remaining (af_rawfile f') os = drop n (remaining (af_rawfile f) os)
     \<and> nt_fp (af_rawfile f') = nt_fp (af_rawfile f)"
  by (auto simp: af_read_def dest!: nt_Read_remaining split: prod.splits)

lemma nt_Read_any_offset: "nt_Read off n f os = nt_Read off' n f os"
  by (simp add: nt_Read_def)

text \<open>
  The position set by \<open>seek\<close> has no effect on the next \<open>read\<close>: it delivers the same bytes
  whatever the current offset is.
\<close>

theorem seek_ignored:
  "fst (af_read n (snd (af_seek offset f)) os) = fst (af_read n f os)"
  using nt_Read_any_offset [of offset n "af_rawfile f" os "af_current_offset f"]
  by (simp add: af_seek_def af_read_def split: prod.splits)

text \<open>
  The offset of \<open>read_file\<close> is taken modulo 2 to the 32: a read that starts a multiple of
  4 GiB into a file reads its beginning.
\<close>

theorem read_file_offset_wraps: "read_file p n (2 ^ 32 * k) os = read_file p n 0 os"
proof -
  have "(word_of_nat (2 ^ 32 * k) :: 32 word) = 0"
    unfolding word_of_nat_eq_0_iff by simp
  then have "off_t (2 ^ 32 * k) = 0" by (simp add: off_t_def)
  moreover have "off_t 0 = 0" by (simp add: off_t_def)
  ultimately show ?thesis by (simp add: read_file_def split: sum.splits node.splits)
qed

text \<open>
  C40: What \<open>write_file\<close> writes at offset zero over an existing file, \<open>read_file\<close> with a large
  enough buffer reads back, for text without the end-of-file character Ctrl-Z: the two text
  mode translations cancel.
\<close>

theorem write_read_file:
  assumes "follow os p = Inr l" and "lookup os l = Some (RegFile a b)" and "writable a"
    and "CTRL_Z \<notin> set d" and "length d + count_list d LF \<le> n"
  shows "\<exists>os'. write_file p d 0 os = (Ret (length d), os') \<and> read_file p n 0 os' = (Ret d, os')"
proof -
  let ?os1 = "put_node l (RegFile (a\<lparr>mtime := now os\<rparr>) []) os"
  let ?os2 = "put_node l (RegFile (a\<lparr>mtime := now os\<rparr>) (text_out d)) ?os1"
  have o: "off_t 0 = 0" by (simp add: off_t_def)
  have "write_file p d 0 os = (Ret (length d), ?os2)"
    using assms o by (simp add: write_file_def open_write_def open_trunc_def set_contents_def
        overwrite_def contents_def)
  moreover have "follow ?os2 p = Inr l"
    using assms(1,2) by (simp add: follow_put_file)
  then have "read_file p n 0 ?os2 = (Ret (read_text n (text_out d)), ?os2)"
    using o by (simp add: read_file_def status_def)
  moreover have "read_text n (text_out d) = d"
    using assms(4,5) by (simp add: read_text_def length_text_out text_in_out)
  ultimately show ?thesis by auto
qed

lemma lookup_sample_file:
  "lookup sample_os (''D:'', [''ftp'', ''a.txt'']) = Some (RegFile plain_attr ''hello'')"
  by (simp add: lookup_def sample_os_def)

lemma writable_plain: "writable plain_attr"
  by (simp add: writable_def plain_attr_def)

lemma write_read_file_witness:
  "\<exists>os'. write_file (path_append served ''a.txt'') ''new'' 0 sample_os = (Ret 3, os')
     \<and> read_file (path_append served ''a.txt'') 100 0 os' = (Ret ''new'', os')"
  using write_read_file [OF follow_file lookup_sample_file writable_plain, of "''new''" 100]
  by (simp add: eval_nat_numeral)

end
