(* ===== verification/FtpTypes.thy ===== *)
theory FtpTypes
  imports AsyncFs
begin

text \<open>
  The types of \<open>ftp/ftp_types.hpp\<close>. Two pairs of response codes share a number in the source:
  comparisons go by the number.
\<close>

datatype ResponseCode =
    DataConnectionOpen
  | ServiceReady | EnterPasviveMode | FileStatusOkay | DirectoryStatusOkay | HelpMessage
  | NameSystemType
  | CommandOkay | FileActionCompleted | LoggedIn | CWD_pub | DirectoryCreated | FileActionPending
  | NeedPassword | NeedAccount | NeedMoreInfo
  | ServiceNotAvailable | ServiceClosingControl | DataConnectionClosed | FileActionNotTaken
  | ActionAborted
  | SyntaxError | ParameterSyntaxError | CommandNotImplemented | BadSequence
  | ParameterNotImplemented | NotLoggedIn | NeedAccountForStoring | FileUnavailable
  | PageTypeUnknown | ExceededStorageAllocation | FileNameNotAllowed

fun response_code :: "ResponseCode \<Rightarrow> nat" where
  "response_code DataConnectionOpen = 150"
| "response_code ServiceReady = 220"
| "response_code EnterPasviveMode = 227"
| "response_code FileStatusOkay = 213"
| "response_code DirectoryStatusOkay = 212"
| "response_code HelpMessage = 211"
| "response_code NameSystemType = 215"
| "response_code CommandOkay = 200"
| "response_code FileActionCompleted = 226"
| "response_code LoggedIn = 230"
| "response_code CWD_pub = 250"
| "response_code DirectoryCreated = 257"
| "response_code FileActionPending = 350"
| "response_code NeedPassword = 331"
| "response_code NeedAccount = 332"
| "response_code NeedMoreInfo = 350"
| "response_code ServiceNotAvailable = 421"
| "response_code ServiceClosingControl = 421"
| "response_code DataConnectionClosed = 426"
| "response_code FileActionNotTaken = 450"
| "response_code ActionAborted = 451"
| "response_code SyntaxError = 500"
| "response_code ParameterSyntaxError = 501"
| "response_code CommandNotImplemented = 502"
| "response_code BadSequence = 503"
| "response_code ParameterNotImplemented = 504"
| "response_code NotLoggedIn = 530"
| "response_code NeedAccountForStoring = 532"
| "response_code FileUnavailable = 550"
| "response_code PageTypeUnknown = 551"
| "response_code ExceededStorageAllocation = 552"
| "response_code FileNameNotAllowed = 553"

datatype TransferMode = ASCII | IMAGE | LOCAL

datatype DataConnectionType = ACTIVE | PASSIVE

datatype UserPermission = PermNONE | PermREAD | PermWRITE | PermADMIN

record FTPSessionState =
  st_username :: string
  st_authenticated :: bool
  st_permission :: UserPermission
  st_current_directory :: path
  st_root_directory :: path
  st_transfer_mode :: TransferMode
  st_representation_type :: string
  st_data_conn_type :: DataConnectionType
  st_data_conn_port :: nat
  st_data_conn_host :: string
  st_rename_from_path :: path
  st_login_time :: int
  st_bytes_transferred :: nat

definition initial_state :: "path \<Rightarrow> int \<Rightarrow> FTPSessionState" where
  \<comment> \<open>the member initialisers, with what the session's constructor sets\<close>
  "initial_state root t =
     \<lparr>st_username = [], st_authenticated = False, st_permission = PermNONE,
      st_current_directory = root, st_root_directory = root, st_transfer_mode = IMAGE,
      st_representation_type = ''I'', st_data_conn_type = PASSIVE, st_data_conn_port = 0,
      st_data_conn_host = [], st_rename_from_path = [], st_login_time = t,
      st_bytes_transferred = 0\<rparr>"

record FTPFileInfo =
  fi_name :: string
  fi_size :: nat
  fi_is_directory :: bool
  fi_permissions :: nat
  fi_modified_time :: int

type_synonym reply = "ResponseCode \<times> string"

lemma response_code_range: "150 \<le> response_code c \<and> response_code c < 600"
  by (cases c) simp_all

lemma response_code_length: "length (dec (response_code c)) = 3"
  using response_code_range [of c] by (intro length_dec3) simp_all

end
