(* ===== verification/Sockets.thy ===== *)
theory Sockets
  imports Prelude
begin

text \<open>
  A TCP socket as the program sees it through Boost.Asio. What the peer and the network do is
  an input of the model: \<open>to_read\<close> scripts what arrives (segments of bytes, and errors such as
  end of file, which Asio throws), \<open>write_faults\<close> the errors of the next composed writes
  (none beyond the list) and \<open>send_sizes\<close> how many bytes the next single sends accept, or the
  error they fail with (all the bytes beyond the list). A read with nothing left in the script never completes.

  \<open>async_read_some\<close> hands over at most as many bytes as its buffer holds; what is left of a
  segment stays for the next read.
\<close>

record sock =
  to_read :: "(exn + string) list"
  write_faults :: "exn option list"
  send_sizes :: "(exn + nat) list"
  written :: string
  is_open :: bool

definition read_some :: "nat \<Rightarrow> (sock, string) eff" where
  "read_some n k =
     (case to_read k of
        [] \<Rightarrow> (Hang, k)
      | Inl e # rs \<Rightarrow> (Exn e, k\<lparr>to_read := rs\<rparr>)
      | Inr b # rs \<Rightarrow>
          if length b \<le> n then (Ret b, k\<lparr>to_read := rs\<rparr>)
          else (Ret (take n b), k\<lparr>to_read := Inr (drop n b) # rs\<rparr>))"

text \<open>\<open>async_write\<close>: all the bytes, or an error.\<close>

definition write_all :: "string \<Rightarrow> (sock, unit) eff" where
  "write_all bs k =
     (case write_faults k of
        Some e # fs \<Rightarrow> (Exn e, k\<lparr>write_faults := fs\<rparr>)
      | _ # fs \<Rightarrow> (Ret (), k\<lparr>write_faults := fs, written := written k @ bs\<rparr>)
      | [] \<Rightarrow> (Ret (), k\<lparr>written := written k @ bs\<rparr>))"

text \<open>\<open>async_send\<close>: some prefix of the bytes; the result is its length.\<close>

definition send_some :: "string \<Rightarrow> (sock, nat) eff" where
  "send_some bs k =
     (case send_sizes k of
        [] \<Rightarrow> (Ret (length bs), k\<lparr>written := written k @ bs\<rparr>)
      | Inl e # ms \<Rightarrow> (Exn e, k\<lparr>send_sizes := ms\<rparr>)
      | Inr m # ms \<Rightarrow>
          (Ret (min m (length bs)),
           k\<lparr>send_sizes := ms, written := written k @ take m bs\<rparr>))"

definition close_sock :: "sock \<Rightarrow> sock" where
  "close_sock k = k\<lparr>is_open := False\<rparr>"

text \<open>A quiet network: no write fails and every send takes all its bytes.\<close>

definition quiet :: "sock \<Rightarrow> bool" where
  "quiet k \<longleftrightarrow> write_faults k = [] \<and> send_sizes k = []"

text \<open>
  The bytes and errors still to come, counted: every read that completes with a non-empty
  buffer makes this smaller, which is why the loops over a socket terminate or wait.
\<close>

fun event_size :: "exn + string \<Rightarrow> nat" where
  "event_size (Inl e) = 1"
| "event_size (Inr b) = Suc (length b)"

definition pending :: "sock \<Rightarrow> nat" where
  "pending k = sum_list (map event_size (to_read k))"

lemma read_some_pending:
  assumes "read_some n k = (Ret b, k')" and "0 < n"
  shows "pending k' < pending k"
  using assms
  by (auto simp: read_some_def pending_def split: list.splits sum.splits if_splits)

lemma read_some_length:
  "read_some n k = (Ret b, k') \<Longrightarrow> length b \<le> n"
  by (auto simp: read_some_def split: list.splits sum.splits if_splits)

lemma read_some_frame:
  "read_some n k = (r, k') \<Longrightarrow> written k' = written k \<and> write_faults k' = write_faults k
     \<and> send_sizes k' = send_sizes k \<and> is_open k' = is_open k"
  by (auto simp: read_some_def split: list.splits sum.splits if_splits)

lemma read_some_segment:
  "to_read k = Inr b # rs \<Longrightarrow> length b \<le> n \<Longrightarrow> read_some n k = (Ret b, k\<lparr>to_read := rs\<rparr>)"
  by (simp add: read_some_def)

lemma write_all_reads [simp]: "to_read (snd (write_all bs k)) = to_read k"
  by (auto simp: write_all_def split: list.splits option.splits)

lemma write_all_reads_eq: "write_all bs k = (r, k') \<Longrightarrow> to_read k' = to_read k"
  using write_all_reads [of bs k] by simp

lemma write_all_pending [simp]: "pending (snd (write_all bs k)) = pending k"
  by (simp add: pending_def)

lemma write_all_quiet:
  "quiet k \<Longrightarrow> write_all bs k = (Ret (), k\<lparr>written := written k @ bs\<rparr>)"
  by (simp add: quiet_def write_all_def)

lemma send_some_reads [simp]: "to_read (snd (send_some bs k)) = to_read k"
  by (auto simp: send_some_def split: list.splits sum.splits)

lemma send_some_quiet:
  "quiet k \<Longrightarrow> send_some bs k = (Ret (length bs), k\<lparr>written := written k @ bs\<rparr>)"
  by (simp add: quiet_def send_some_def)

lemma quiet_updates [simp]:
  "quiet (k\<lparr>written := w\<rparr>) = quiet k" "quiet (k\<lparr>to_read := r\<rparr>) = quiet k"
  "quiet (k\<lparr>is_open := b\<rparr>) = quiet k"
  by (simp_all add: quiet_def)

lemma pending_updates [simp]:
  "pending (k\<lparr>written := w\<rparr>) = pending k" "pending (k\<lparr>is_open := b\<rparr>) = pending k"
  "pending (k\<lparr>send_sizes := m\<rparr>) = pending k" "pending (k\<lparr>write_faults := f\<rparr>) = pending k"
  by (simp_all add: pending_def)

text \<open>What a script delivers before its first error.\<close>

fun delivered :: "(exn + string) list \<Rightarrow> string" where
  "delivered [] = []"
| "delivered (Inl e # rs) = []"
| "delivered (Inr b # rs) = b @ delivered rs"

fun first_error :: "(exn + string) list \<Rightarrow> exn option" where
  "first_error [] = None"
| "first_error (Inl e # rs) = Some e"
| "first_error (Inr b # rs) = first_error rs"

lemma read_some_delivered:
  assumes "read_some n k = (Ret b, k')"
  shows "delivered (to_read k) = b @ delivered (to_read k')"
    and "first_error (to_read k) = first_error (to_read k')"
  using assms
  by (auto simp: read_some_def split: list.splits sum.splits if_splits)

lemma read_some_ready:
  assumes "delivered (to_read k) \<noteq> []"
  obtains b k' where "read_some n k = (Ret b, k')"
proof (cases "to_read k" rule: delivered.cases)
  case (3 b rs)
  then show ?thesis using that by (cases "length b \<le> n") (simp_all add: read_some_def)
qed (use assms in simp_all)

end
