(* ===== verification/DataChannel.thy ===== *)
theory DataChannel
  imports FtpTypes Sockets
begin

text \<open>
  \<open>ftp/data_channel\<close>: the manager of data connections, whose state is the passive acceptor and
  the port announced last, and the transfers of files and listings over a data socket.

  The network is an input: which ports a listener can be opened on, which bindings fail, the
  port the system picks for port 0, the connections that arrive at a passive listener and the
  results of the active connects, each in order. A data socket that was closed is recorded.
\<close>

section \<open>The manager\<close>

record net =
  port_free :: "nat \<Rightarrow> bool"
  bind_error :: "nat \<Rightarrow> exn option"
  ephemeral :: nat
  address_error :: "string \<Rightarrow> exn option"
  incoming :: "(exn + sock) list"
  outgoing :: "(exn + sock) list"
  closed_socks :: "sock list"

record DataChannelManager =
  dm_acceptor :: "nat option"
  dm_passive_port :: nat
  dm_net :: net

definition new_manager :: "net \<Rightarrow> DataChannelManager" where
  "new_manager n = \<lparr>dm_acceptor = None, dm_passive_port = 20000, dm_net = n\<rparr>"

definition PASV_PORT_MIN :: nat where "PASV_PORT_MIN = 20000"

definition PASV_PORT_MAX :: nat where "PASV_PORT_MAX = 30000"

fun first_port :: "(nat \<Rightarrow> bool) \<Rightarrow> nat list \<Rightarrow> nat" where
  "first_port free [] = 0"
| "first_port free (p # ps) = (if free p then p else first_port free ps)"

definition find_available_port :: "net \<Rightarrow> nat" where
  "find_available_port n = first_port (port_free n) [PASV_PORT_MIN ..< Suc PASV_PORT_MAX]"

text \<open>The acceptor is bound to the loopback address, whose text is the first component.\<close>

definition create_passive_channel :: "(DataChannelManager, string \<times> nat) eff" where
  "create_passive_channel m =
     (let port = find_available_port (dm_net m)
      in case bind_error (dm_net m) port of
           Some e \<Rightarrow> (Exn e, m)
         | None \<Rightarrow>
             let local_port = (if port = 0 then ephemeral (dm_net m) else port)
             in (Ret (''127.0.0.1'', local_port),
                 m\<lparr>dm_acceptor := Some local_port, dm_passive_port := local_port\<rparr>))"

definition create_active_channel :: "(DataChannelManager, sock) eff" where
  "create_active_channel m =
     (case outgoing (dm_net m) of
        [] \<Rightarrow> (Hang, m)
      | Inl e # cs \<Rightarrow> (Exn e, m\<lparr>dm_net := (dm_net m)\<lparr>outgoing := cs\<rparr>\<rparr>)
      | Inr k # cs \<Rightarrow> (Ret k, m\<lparr>dm_net := (dm_net m)\<lparr>outgoing := cs\<rparr>\<rparr>))"

definition accept_passive_connection :: "nat \<Rightarrow> (DataChannelManager, sock) eff" where
  "accept_passive_connection port m =
     (if dm_acceptor m \<noteq> Some port
      then (Exn (Runtime_error (''No passive connection pending on port '' @ dec port)), m)
      else
        (case incoming (dm_net m) of
           [] \<Rightarrow> (Hang, m)
         | Inl e # cs \<Rightarrow> (Exn e, m\<lparr>dm_net := (dm_net m)\<lparr>incoming := cs\<rparr>\<rparr>)
         | Inr k # cs \<Rightarrow>
             (Ret k, m\<lparr>dm_acceptor := None, dm_net := (dm_net m)\<lparr>incoming := cs\<rparr>\<rparr>)))"

definition close_all :: "DataChannelManager \<Rightarrow> DataChannelManager" where
  "close_all m = m\<lparr>dm_acceptor := None\<rparr>"

section \<open>Sending a file\<close>

text \<open>The inner loop: \<open>async_send\<close> until the block is out.\<close>

function send_chunk :: "string \<Rightarrow> sock \<Rightarrow> unit outcome \<times> sock" where
  "send_chunk rest k =
     (if rest = [] then (Ret (), k)
      else case send_some rest k of
             (Ret m, k') \<Rightarrow> send_chunk (drop m rest) k'
           | (Exn e, k') \<Rightarrow> (Exn e, k')
           | (Hang, k') \<Rightarrow> (Hang, k'))"
  by pat_completeness auto
termination
  by (relation "measures [\<lambda>(rest, k). length (send_sizes k), \<lambda>(rest, k). length rest]")
     (auto simp: send_some_def split: list.splits sum.splits)

declare send_chunk.simps [simp del]

definition BUFFER_SIZE :: nat where "BUFFER_SIZE = 64 * 1024"

definition SIZE_MAX :: nat where "SIZE_MAX = 2 ^ 64 - 1"

lemma af_read_shrinks:
  assumes "af_read n f os = (bs, f')" "bs \<noteq> []"
  shows "length (remaining (af_rawfile f') os) < length (remaining (af_rawfile f) os)"
proof -
  have b: "bs = take n (remaining (af_rawfile f) os)"
    and r: "remaining (af_rawfile f') os = drop n (remaining (af_rawfile f) os)"
    using af_read_remaining [OF assms(1)] by blast+
  have "0 < length bs" using assms(2) by simp
  then show ?thesis unfolding b r by simp
qed

function send_loop ::
    "AsyncFileBuffered \<Rightarrow> nat \<Rightarrow> nat \<Rightarrow> os \<times> sock \<Rightarrow> nat outcome \<times> os \<times> sock" where
  "send_loop f total_sent max_bytes (os, k) =
     (if total_sent < max_bytes
      then case af_read (min BUFFER_SIZE (max_bytes - total_sent)) f os of
             (bs, f') \<Rightarrow>
               if bs = [] then (Ret total_sent, os, k)
               else (case send_chunk bs k of
                       (Ret _, k') \<Rightarrow> send_loop f' (total_sent + length bs) max_bytes (os, k')
                     | (Exn e, k') \<Rightarrow> (Exn e, os, k')
                     | (Hang, k') \<Rightarrow> (Hang, os, k'))
      else (Ret total_sent, os, k))"
  by pat_completeness auto
termination
  by (relation "measure (\<lambda>(f, t, n, os, k). length (remaining (af_rawfile f) os))")
     (auto dest: af_read_shrinks [OF sym])

declare send_loop.simps [simp del]

text \<open>A state-passing call on the file system, in a state that also holds a data socket.\<close>

definition on_disk :: "(os, 'a) eff \<Rightarrow> (os \<times> sock, 'a) eff" where
  "on_disk m s = (case m (fst s) of (r, os') \<Rightarrow> (r, os', snd s))"

definition seek_if :: "bool \<Rightarrow> nat \<Rightarrow> AsyncFileBuffered \<Rightarrow> AsyncFileBuffered outcome" where
  "seek_if c offset f =
     (if c then (case af_seek offset f of (Ret _, f') \<Rightarrow> Ret f' | (Exn e, f') \<Rightarrow> Exn e | (Hang, f') \<Rightarrow> Hang)
      else Ret f)"

definition send_file :: "path \<Rightarrow> nat \<Rightarrow> nat \<Rightarrow> (os \<times> sock, nat) eff" where
  "send_file filepath offset max_bytes =
     bindE (on_disk (new_AsyncFileBuffered filepath)) (\<lambda>f.
     bindE (liftE (seek_if (0 < offset) offset f)) (\<lambda>f.
     send_loop f 0 max_bytes))"

section \<open>Receiving a file\<close>

function receive_loop ::
    "AsyncFileBuffered \<Rightarrow> nat \<Rightarrow> nat \<Rightarrow> os \<times> sock \<Rightarrow> nat outcome \<times> os \<times> sock" where
  "receive_loop f total_received max_bytes (os, k) =
     (if total_received < max_bytes
      then case read_some BUFFER_SIZE k of
             (Ret bs, k') \<Rightarrow>
               if bs = [] then (Ret total_received, os, k')
               else (case af_write bs f os of
                       (n, f', os') \<Rightarrow> receive_loop f' (total_received + n) max_bytes (os', k'))
           | (Exn e, k') \<Rightarrow> (Exn e, os, k')
           | (Hang, k') \<Rightarrow> (Hang, os, k')
      else (Ret total_received, os, k))"
  by pat_completeness auto
termination
  by (relation "measure (\<lambda>(f, t, n, os, k). pending k)")
     (auto simp: BUFFER_SIZE_def dest: read_some_pending [OF sym])

declare receive_loop.simps [simp del]

definition receive_file :: "path \<Rightarrow> bool \<Rightarrow> nat \<Rightarrow> (os \<times> sock, nat) eff" where
  "receive_file filepath append_mode max_bytes =
     bindE (on_disk (new_AsyncFileBuffered filepath)) (\<lambda>f.
     bindE (liftE (seek_if append_mode (af_file_size f) f)) (\<lambda>f.
     receive_loop f 0 max_bytes))"

section \<open>Listings\<close>

definition has_perm :: "nat \<Rightarrow> nat \<Rightarrow> bool" where
  "has_perm p flag \<longleftrightarrow> p AND flag \<noteq> 0"

definition perm_char :: "nat \<Rightarrow> nat \<Rightarrow> char \<Rightarrow> char" where
  "perm_char p flag c = (if has_perm p flag then c else CHR ''-'')"

definition list_date :: "os \<Rightarrow> int \<Rightarrow> string" where
  "list_date os t =
     (let tm = local_tm os t;
          day = months ! tm_mon tm @ '' '' @ pad_left (CHR ''0'') 2 (dec (tm_mday tm))
      in if 180 * 24 * 3600 < now os - t
         then day @ ''  '' @ dec (tm_year tm + 1900)
         else day @ '' '' @ pad_left (CHR ''0'') 2 (dec (tm_hour tm)) @ '':''
              @ pad_left (CHR ''0'') 2 (dec (tm_min tm)))"

definition format_list_entry :: "os \<Rightarrow> FTPFileInfo \<Rightarrow> string" where
  "format_list_entry os info =
     (let p = fi_permissions info
      in [if fi_is_directory info then CHR ''d'' else CHR ''-'',
          perm_char p 256 (CHR ''r''), perm_char p 128 (CHR ''w''), perm_char p 64 (CHR ''x''),
          perm_char p 32 (CHR ''r''), perm_char p 16 (CHR ''w''), perm_char p 8 (CHR ''x''),
          perm_char p 4 (CHR ''r''), perm_char p 2 (CHR ''w''), perm_char p 1 (CHR ''x'')]
         @ ''    1 root root ''
         @ pad_left (CHR '' '') 12 (dec (fi_size info)) @ '' ''
         @ list_date os (fi_modified_time info) @ '' '' @ fi_name info)"

text \<open>A listing goes out in one \<open>async_send\<close>.\<close>

definition send_once :: "string \<Rightarrow> (os \<times> sock, unit) eff" where
  "send_once listing s =
     (case send_some listing (snd s) of
        (Ret n, k) \<Rightarrow> (Ret (), fst s, k)
      | (Exn e, k) \<Rightarrow> (Exn e, fst s, k)
      | (Hang, k) \<Rightarrow> (Hang, fst s, k))"

definition list_text :: "os \<Rightarrow> FTPFileInfo list \<Rightarrow> string" where
  "list_text os entries = concat (map (\<lambda>e. format_list_entry os e @ crlf) entries)"

definition name_text :: "FTPFileInfo list \<Rightarrow> string" where
  "name_text entries = concat (map (\<lambda>e. fi_name e @ crlf) entries)"

definition send_listing :: "FTPFileInfo list \<Rightarrow> (os \<times> sock, unit) eff" where
  "send_listing entries s = send_once (list_text (fst s) entries) s"

text \<open>The name of an entry goes to the client in UTF-8.\<close>

definition u8_name :: "winapi \<Rightarrow> path \<Rightarrow> string" where
  "u8_name api p = c_str (wc_to_mb api CP_UTF8 (mb_to_wc api CP_ACP (filename p)))"

definition file_info :: "winapi \<Rightarrow> FileEntry \<Rightarrow> FTPFileInfo" where
  "file_info api e =
     \<lparr>fi_name = u8_name api (fe_path e), fi_size = fe_size e,
      fi_is_directory = fe_is_directory e, fi_permissions = fe_permissions e,
      fi_modified_time = fe_last_modified e\<rparr>"

definition send_directory_listing :: "winapi \<Rightarrow> path \<Rightarrow> bool \<Rightarrow> (os \<times> sock, unit) eff" where
  "send_directory_listing api dir_path detailed =
     bindE (on_disk (read_directory dir_path)) (\<lambda>entries.
     let file_infos = map (file_info api) entries
     in if detailed then send_listing file_infos
        else send_once (name_text file_infos))"

section \<open>Ports\<close>

lemma first_port_result:
  "first_port free ps = p \<Longrightarrow> p = 0 \<or> (p \<in> set ps \<and> free p)"
  by (induction ps) (auto split: if_splits)

lemma first_port_least:
  "sorted ps \<Longrightarrow> q \<in> set ps \<Longrightarrow> free q \<Longrightarrow> first_port free ps \<le> q"
  by (induction ps) auto

lemma first_port_zero:
  "first_port free ps = 0 \<Longrightarrow> 0 \<notin> set ps \<Longrightarrow> q \<in> set ps \<Longrightarrow> \<not> free q"
  by (induction ps) (auto split: if_splits)

definition pasv_ports :: "nat list" where
  "pasv_ports = [PASV_PORT_MIN ..< Suc PASV_PORT_MAX]"

lemma pasv_ports: "q \<in> set pasv_ports \<longleftrightarrow> 20000 \<le> q \<and> q \<le> 30000" "sorted pasv_ports"
proof -
  have "q \<in> set pasv_ports \<longleftrightarrow> PASV_PORT_MIN \<le> q \<and> q \<le> PASV_PORT_MAX"
    unfolding pasv_ports_def set_upt by auto
  then show "q \<in> set pasv_ports \<longleftrightarrow> 20000 \<le> q \<and> q \<le> 30000"
    by (simp only: PASV_PORT_MIN_def PASV_PORT_MAX_def)
qed (unfold pasv_ports_def, rule sorted_upt)

text \<open>
  The port search returns the smallest free port between 20000 and 30000, and 0 only when
  every one of them is taken.
\<close>

theorem find_available_port_least:
  "find_available_port n = p \<Longrightarrow>
     (if p = 0 then \<forall>q. 20000 \<le> q \<and> q \<le> 30000 \<longrightarrow> \<not> port_free n q
      else 20000 \<le> p \<and> p \<le> 30000 \<and> port_free n p
        \<and> (\<forall>q. 20000 \<le> q \<and> q < p \<longrightarrow> \<not> port_free n q))"
proof -
  assume "find_available_port n = p"
  then have p: "first_port (port_free n) pasv_ports = p"
    by (simp add: find_available_port_def pasv_ports_def)
  show ?thesis
  proof (cases "p = 0")
    case True
    then show ?thesis using first_port_zero [of "port_free n" pasv_ports] p
      by (simp add: pasv_ports)
  next
    case False
    then have r: "20000 \<le> p" "p \<le> 30000" "port_free n p"
      using first_port_result [OF p] by (auto simp: pasv_ports)
    have "\<not> port_free n q" if "20000 \<le> q" "q < p" for q
      using first_port_least [OF pasv_ports(2), of q "port_free n"] that r(2) p
      by (auto simp: pasv_ports)
    then show ?thesis using False r by simp
  qed
qed

definition open_net :: net where
  "open_net =
     \<lparr>port_free = (\<lambda>p. p \<noteq> 20000), bind_error = (\<lambda>p. None), ephemeral = 50000,
      address_error = (\<lambda>h. None), incoming = [], outgoing = [], closed_socks = []\<rparr>"

lemma open_net_port: "find_available_port open_net = 20001"
proof -
  have lt: "PASV_PORT_MIN < Suc PASV_PORT_MAX" "Suc PASV_PORT_MIN < Suc PASV_PORT_MAX"
    by (simp_all add: PASV_PORT_MIN_def PASV_PORT_MAX_def)
  have "first_port (port_free open_net) (20000 # Suc 20000 # ps) = 20001" for ps
    by (simp add: open_net_def)
  then show ?thesis
    unfolding find_available_port_def upt_conv_Cons [OF lt(1)] upt_conv_Cons [OF lt(2)]
    by (simp only: PASV_PORT_MIN_def)
qed

lemma find_available_port_least_witness:
  "20000 \<le> (20001::nat) \<and> (20001::nat) \<le> 30000 \<and> port_free open_net 20001 \<and> \<not> port_free open_net 20000"
  using find_available_port_least [OF open_net_port] by simp

section \<open>The manager as a state machine\<close>

text \<open>One call on the manager, whatever its outcome.\<close>

inductive dm_step :: "DataChannelManager \<Rightarrow> DataChannelManager \<Rightarrow> bool" where
  step_passive: "dm_step m (snd (create_passive_channel m))"
| step_active: "dm_step m (snd (create_active_channel m))"
| step_accept: "dm_step m (snd (accept_passive_connection p m))"
| step_close: "dm_step m (close_all m)"

inductive dm_reachable :: "DataChannelManager \<Rightarrow> bool" where
  start: "dm_reachable (new_manager n)"
| step: "dm_reachable m \<Longrightarrow> dm_step m m' \<Longrightarrow> dm_reachable m'"

inductive_cases dm_stepE: "dm_step m m'"

definition announced :: "DataChannelManager \<Rightarrow> bool" where
  "announced m \<longleftrightarrow> (\<forall>p. dm_acceptor m = Some p \<longrightarrow> p = dm_passive_port m)"

lemma announced_step: "dm_step m m' \<Longrightarrow> announced m \<Longrightarrow> announced m'"
  by (erule dm_stepE)
     (auto simp: announced_def create_passive_channel_def create_active_channel_def
       accept_passive_connection_def close_all_def Let_def split: option.splits list.splits sum.splits)

lemma announced_reachable: "dm_reachable m \<Longrightarrow> announced m"
  by (induction rule: dm_reachable.induct)
     (auto simp: announced_def new_manager_def dest: announced_step [unfolded announced_def])

text \<open>
  C37: In every reachable state of the manager, an accept on the port announced last throws
  when no acceptor is open, and otherwise takes the next connection of the network, or waits
  for it; a successful accept leaves no acceptor open, so each PASV admits one connection.
\<close>

theorem accept_once:
  assumes "dm_reachable m" and "accept_passive_connection (dm_passive_port m) m = (r, m')"
  shows "r =
      (if dm_acceptor m = None
       then Exn (Runtime_error (''No passive connection pending on port '' @ dec (dm_passive_port m)))
       else case incoming (dm_net m) of
              [] \<Rightarrow> Hang | c # _ \<Rightarrow> (case c of Inl e \<Rightarrow> Exn e | Inr k \<Rightarrow> Ret k))
    \<and> (\<forall>k. r = Ret k \<longrightarrow> dm_acceptor m' = None)"
  using assms(2) announced_reachable [OF assms(1)]
  by (auto simp: accept_passive_connection_def announced_def split: if_splits list.splits sum.splits)

definition idle_sock :: sock where
  "idle_sock = \<lparr>to_read = [], write_faults = [], send_sizes = [], written = [], is_open = True\<rparr>"

definition calling_net :: net where
  "calling_net = open_net\<lparr>incoming := [Inr idle_sock]\<rparr>"

lemma accept_once_witness:
  "\<exists>m m'. snd (create_passive_channel (new_manager calling_net)) = m \<and> dm_acceptor m = Some 20001
     \<and> accept_passive_connection (dm_passive_port m) m = (Ret idle_sock, m') \<and> dm_acceptor m' = None"
proof -
  let ?m = "(new_manager calling_net)\<lparr>dm_acceptor := Some 20001, dm_passive_port := 20001\<rparr>"
  have "port_free calling_net = port_free open_net" by (simp add: calling_net_def)
  then have "find_available_port calling_net = 20001"
    using open_net_port by (simp only: find_available_port_def)
  then have c: "snd (create_passive_channel (new_manager calling_net)) = ?m"
    by (simp add: create_passive_channel_def new_manager_def Let_def) (simp add: calling_net_def open_net_def)
  have r: "dm_reachable ?m" unfolding c [symmetric] by (rule dm_reachable.step [OF dm_reachable.start dm_step.intros(1)])
  obtain x m' where a: "accept_passive_connection (dm_passive_port ?m) ?m = (x, m')"
    by (cases "accept_passive_connection (dm_passive_port ?m) ?m")
  have i: "incoming (dm_net ?m) = [Inr idle_sock]" by (simp add: new_manager_def calling_net_def)
  have "x = Ret idle_sock" using accept_once [OF r a] i by simp
  then have "accept_passive_connection (dm_passive_port ?m) ?m = (Ret idle_sock, m')" and "dm_acceptor m' = None"
    using accept_once [OF r a] a by simp_all
  then show ?thesis using c by (intro exI [of _ ?m] exI [of _ m']) simp
qed

section \<open>Downloads\<close>

definition no_send_errors :: "sock \<Rightarrow> bool" where
  "no_send_errors k \<longleftrightarrow> (\<forall>e. Inl e \<notin> set (send_sizes k))"

lemma send_some_ok:
  "no_send_errors k \<Longrightarrow> \<exists>m k'. send_some bs k = (Ret m, k') \<and> no_send_errors k'
     \<and> written k' = written k @ take m bs"
  by (auto simp: send_some_def no_send_errors_def min_def split: list.splits sum.splits)

lemma send_chunk_ok:
  "no_send_errors k \<Longrightarrow> \<exists>k'. send_chunk rest k = (Ret (), k') \<and> no_send_errors k'
     \<and> written k' = written k @ rest"
proof (induction rest k rule: send_chunk.induct)
  case (1 rest k)
  show ?case
  proof (cases "rest = []")
    case True
    then show ?thesis using 1(2) by (subst send_chunk.simps) simp
  next
    case False
    obtain m k1 where s: "send_some rest k = (Ret m, k1)" "no_send_errors k1"
      "written k1 = written k @ take m rest"
      using send_some_ok [OF 1(2)] by blast
    obtain k2 where "send_chunk (drop m rest) k1 = (Ret (), k2)" "no_send_errors k2"
      "written k2 = written k1 @ drop m rest"
      using 1(1) [OF False s(1) [symmetric] refl s(2)] by blast
    then show ?thesis using s False by (subst send_chunk.simps) simp
  qed
qed

lemma send_loop_ok:
  "no_send_errors k \<Longrightarrow> t + length (remaining (af_rawfile f) os) \<le> n \<Longrightarrow>
     \<exists>k'. send_loop f t n (os, k) = (Ret (t + length (remaining (af_rawfile f) os)), os, k')
       \<and> written k' = written k @ remaining (af_rawfile f) os"
proof (induction f t n "(os, k)" arbitrary: k rule: send_loop.induct)
  case (1 f t n k)
  let ?R = "remaining (af_rawfile f) os" and ?c = "min BUFFER_SIZE (n - t)"
  show ?case
  proof (cases "t < n")
    case True
    obtain bs f' where rd: "af_read ?c f os = (bs, f')" by (cases "af_read ?c f os")
    then have bs: "bs = take ?c ?R" and rest: "remaining (af_rawfile f') os = drop ?c ?R"
      using af_read_remaining by blast+
    have c: "0 < ?c" using True by (simp add: BUFFER_SIZE_def)
    show ?thesis
    proof (cases "bs = []")
      case e: True
      then have "?R = []" using bs c by auto
      then show ?thesis using True rd e by (subst send_loop.simps) simp
    next
      case ne: False
      obtain k1 where k1: "send_chunk bs k = (Ret (), k1)" "no_send_errors k1" "written k1 = written k @ bs"
        using send_chunk_ok [OF 1(2)] by blast
      have len: "length ?R = length bs + length (drop ?c ?R)"
        unfolding bs by (metis append_take_drop_id length_append)
      have "t + length bs + length (remaining (af_rawfile f') os) \<le> n"
        unfolding rest using 1(3) len by linarith
      then obtain k2 where k2: "send_loop f' (t + length bs) n (os, k1) =
            (Ret (t + length bs + length (drop ?c ?R)), os, k2)"
          "written k2 = written k1 @ drop ?c ?R"
        using 1(1) [OF True rd [symmetric] ne k1(1) [symmetric] refl k1(2)]
        unfolding rest by blast
      have e: "t + length ?R = t + length bs + length (drop ?c ?R)" using len by linarith
      have "send_loop f t n (os, k) = send_loop f' (t + length bs) n (os, k1)"
        using True rd ne k1(1) by (subst send_loop.simps) simp
      then have "send_loop f t n (os, k) = (Ret (t + length ?R), os, k2)"
        unfolding e using k2(1) by (rule trans)
      moreover have "written k2 = written k @ ?R"
        unfolding k2(2) k1(3) bs by simp
      ultimately show ?thesis by blast
    qed
  next
    case False
    then have "length ?R = 0" using 1(3) by linarith
    then show ?thesis using False by (subst send_loop.simps) simp
  qed
qed

definition regular_file :: "os \<Rightarrow> path \<Rightarrow> loc \<Rightarrow> string \<Rightarrow> bool" where
  "regular_file os p l b \<longleftrightarrow>
     follow os p = Inr l \<and> (\<exists>a. lookup os l = Some (RegFile a b) \<and> writable a)"

lemma open_buffered:
  assumes "regular_file os p l b"
  shows "on_disk (new_AsyncFileBuffered p) (os, k) =
    (Ret \<lparr>af_file_size = length b, af_current_offset = 0,
          af_rawfile = \<lparr>nt_fp = Some l, nt_text = True, nt_pos = 0, nt_size = length b\<rparr>\<rparr>, os, k)"
  using assms
  by (auto simp: regular_file_def on_disk_def new_AsyncFileBuffered_def new_CNtFile_def fs_file_size_def
      or_throw_def file_size_ec_def status_def eff_simps bindE_def)

lemma send_file_regular:
  assumes "regular_file os p l b" and "no_send_errors k" and "length (text_in b) \<le> SIZE_MAX"
  shows "\<exists>k'. send_file p 0 SIZE_MAX (os, k) = (Ret (length (text_in b)), os, k')
    \<and> written k' = written k @ text_in b"
proof -
  let ?f = "\<lparr>af_file_size = length b, af_current_offset = 0,
          af_rawfile = \<lparr>nt_fp = Some l, nt_text = True, nt_pos = 0, nt_size = length b\<rparr>\<rparr>"
  have r: "remaining (af_rawfile ?f) os = text_in b"
    using assms(1) by (auto simp: remaining_def contents_def regular_file_def)
  have "send_file p 0 SIZE_MAX (os, k) = send_loop ?f 0 SIZE_MAX (os, k)"
    by (simp add: send_file_def seek_if_def open_buffered [OF assms(1)] eff_simps)
  then show ?thesis
    using send_loop_ok [OF assms(2), of 0 ?f os SIZE_MAX] assms(3) r by simp
qed

text \<open>
  C20: RETR of an existing writable file, on a connection whose sends do not fail, sends
  exactly the text mode translation of the file, however little each send accepts, and counts
  those bytes: carriage returns before line feeds and everything from the first Ctrl-Z on are
  missing from what the client gets, although the transfer is announced as binary.
\<close>

theorem send_file_text:
  assumes "regular_file os p l b" and "no_send_errors k" and "length (text_in b) \<le> SIZE_MAX"
  shows "\<exists>k'. send_file p 0 SIZE_MAX (os, k) = (Ret (length (text_in b)), os, k')
    \<and> written k' = written k @ text_in b"
  using assms by (rule send_file_regular)

definition crlf_os :: os where
  "crlf_os = put_node (''D:'', [''ftp'', ''a.txt'']) (RegFile plain_attr (''x'' @ crlf @ ''y'')) sample_os"

lemma crlf_file: "regular_file crlf_os (path_append served ''a.txt'') (''D:'', [''ftp'', ''a.txt'']) (''x'' @ crlf @ ''y'')"
  using follow_file lookup_sample_file writable_plain
  by (simp add: regular_file_def crlf_os_def follow_put_file)

lemma send_file_text_witness:
  "\<exists>k'. send_file (path_append served ''a.txt'') 0 SIZE_MAX (crlf_os, idle_sock) = (Ret 3, crlf_os, k')
     \<and> written k' = ''x'' @ [LF] @ ''y''"
proof -
  have t: "text_in (''x'' @ crlf @ ''y'') = ''x'' @ [LF] @ ''y''" by (simp add: crlf_def)
  have n: "length (''x'' @ [LF] @ ''y'') = 3" by simp
  have "(3::nat) \<le> SIZE_MAX" by (simp add: SIZE_MAX_def)
  then show ?thesis
    using send_file_text [OF crlf_file, of idle_sock] unfolding t n
    by (simp add: no_send_errors_def idle_sock_def)
qed

section \<open>Uploads\<close>

lemma overwrite_append:
  "overwrite (length x) d (overwrite 0 x b) = overwrite 0 (x @ d) b"
  by (simp add: overwrite_def add.commute)

lemma text_out_append: "text_out (x @ y) = text_out x @ text_out y"
  by (simp add: text_out_def)

definition receiving :: "loc \<Rightarrow> string \<Rightarrow> string \<Rightarrow> AsyncFileBuffered \<Rightarrow> os \<Rightarrow> bool" where
  "receiving l b x f os \<longleftrightarrow>
     nt_fp (af_rawfile f) = Some l \<and> nt_text (af_rawfile f)
     \<and> nt_pos (af_rawfile f) = length (text_out x)
     \<and> (\<exists>a. lookup os l = Some (RegFile a (overwrite 0 (text_out x) b)))"

lemma receiving_write:
  assumes "receiving l b x f os" and "af_write d f os = (n, f', os')"
  shows "receiving l b (x @ d) f' os'" and "n = length d"
proof -
  obtain a where f: "nt_fp (af_rawfile f) = Some l" "nt_text (af_rawfile f)"
    "nt_pos (af_rawfile f) = length (text_out x)"
    "lookup os l = Some (RegFile a (overwrite 0 (text_out x) b))"
    using assms(1) by (auto simp: receiving_def)
  then show "receiving l b (x @ d) f' os'" and "n = length d"
    using assms(2)
    by (auto simp: receiving_def af_write_def nt_Write_def Let_def contents_def text_out_append
        set_contents_file overwrite_append)
qed

definition nonempty_reads :: "sock \<Rightarrow> bool" where
  \<comment> \<open>a read that completes without error brings at least one byte\<close>
  "nonempty_reads k \<longleftrightarrow> Inr [] \<notin> set (to_read k)"

lemma nonempty_read:
  assumes "nonempty_reads k" "read_some n k = (Ret bs, k')" "0 < n"
  shows "bs \<noteq> []" and "nonempty_reads k'"
  using assms by (auto simp: nonempty_reads_def read_some_def split: list.splits sum.splits if_splits)

lemma receive_loop_upload:
  "nonempty_reads k \<Longrightarrow> receiving l b x f os \<Longrightarrow> t + length (delivered (to_read k)) < n \<Longrightarrow>
     \<exists>f' os' k'. receive_loop f t n (os, k) =
         (case first_error (to_read k) of Some e \<Rightarrow> Exn e | None \<Rightarrow> Hang, os', k')
       \<and> receiving l b (x @ delivered (to_read k)) f' os'"
proof (induction f t n "(os, k)" arbitrary: os k x rule: receive_loop.induct)
  case (1 f t n os k)
  have t: "t < n" using 1(4) by simp
  have B: "0 < BUFFER_SIZE" by (simp add: BUFFER_SIZE_def)
  obtain r k1 where rd: "read_some BUFFER_SIZE k = (r, k1)" by (cases "read_some BUFFER_SIZE k")
  show ?case
  proof (cases r)
    case (Ret bs)
    have rd': "read_some BUFFER_SIZE k = (Ret bs, k1)" using rd Ret by simp
    have ne: "bs \<noteq> []" and k1: "nonempty_reads k1"
      using nonempty_read [OF 1(2) rd' B] by blast+
    obtain m f1 os1 where w: "af_write bs f os = (m, f1, os1)" by (cases "af_write bs f os")
    note rw = receiving_write [OF 1(3) w]
    note del = read_some_delivered [OF rd']
    have "t + m + length (delivered (to_read k1)) < n" using 1(4) del(1) rw(2) by simp
    then obtain f2 os2 k2 where "receive_loop f1 (t + m) n (os1, k1) =
        (case first_error (to_read k1) of Some e \<Rightarrow> Exn e | None \<Rightarrow> Hang, os2, k2)"
      "receiving l b ((x @ bs) @ delivered (to_read k1)) f2 os2"
      using 1(1) [OF t rd' [symmetric] refl ne w [symmetric] refl k1 rw(1)] by blast
    then show ?thesis
      using t rd' ne w del by (subst receive_loop.simps) auto
  next
    case (Exn e)
    then have "delivered (to_read k) = []" "first_error (to_read k) = Some e"
      using rd by (auto simp: read_some_def split: list.splits sum.splits if_splits)
    then show ?thesis using t rd Exn 1(3) by (subst receive_loop.simps) auto
  next
    case Hang
    then have "delivered (to_read k) = []" "first_error (to_read k) = None"
      using rd by (auto simp: read_some_def split: list.splits sum.splits if_splits)
    then show ?thesis using t rd Hang 1(3) by (subst receive_loop.simps) auto
  qed
qed

text \<open>
  STOR never completes normally: when the client has sent its data and closes, the read
  throws the end-of-file error (or whatever ended the stream), which leaves \<open>receive_file\<close>;
  by then the file holds the translated data over its old contents, whose tail beyond the new
  data remains.
\<close>

theorem receive_file_ends_in_error:
  assumes "regular_file os p l b" and "nonempty_reads k" and "first_error (to_read k) = Some e"
    and "length (delivered (to_read k)) < SIZE_MAX"
  shows "\<exists>os' k'. receive_file p False SIZE_MAX (os, k) = (Exn e, os', k')
    \<and> contents os' l = overwrite 0 (text_out (delivered (to_read k))) b"
proof -
  let ?f = "\<lparr>af_file_size = length b, af_current_offset = 0,
          af_rawfile = \<lparr>nt_fp = Some l, nt_text = True, nt_pos = 0, nt_size = length b\<rparr>\<rparr>"
  have "receiving l b [] ?f os"
    using assms(1) by (auto simp: receiving_def regular_file_def text_out_def overwrite_def)
  moreover have "receive_file p False SIZE_MAX (os, k) = receive_loop ?f 0 SIZE_MAX (os, k)"
    by (simp add: receive_file_def seek_if_def open_buffered [OF assms(1)] eff_simps)
  ultimately show ?thesis
    using receive_loop_upload [OF assms(2), of l b "[]" ?f os 0 SIZE_MAX] assms(3,4)
    by (auto simp: receiving_def contents_def)
qed

definition upload_sock :: sock where
  "upload_sock = idle_sock\<lparr>to_read := [Inr ''ab'', Inl (System_error ''End of file'')]\<rparr>"

lemma sample_file: "regular_file sample_os (path_append served ''a.txt'') (''D:'', [''ftp'', ''a.txt'']) ''hello''"
  using follow_file lookup_sample_file writable_plain by (simp add: regular_file_def)

lemma receive_file_ends_in_error_witness:
  "\<exists>os' k'. receive_file (path_append served ''a.txt'') False SIZE_MAX (sample_os, upload_sock)
       = (Exn (System_error ''End of file''), os', k')
     \<and> contents os' (''D:'', [''ftp'', ''a.txt'']) = ''abllo''"
  using receive_file_ends_in_error [OF sample_file, of upload_sock "System_error ''End of file''"]
  by (simp add: nonempty_reads_def upload_sock_def SIZE_MAX_def overwrite_def text_out_def)

section \<open>Listings\<close>

text \<open>
  A listing that the first send does not take whole is cut there, and the call still
  returns normally.
\<close>

theorem listing_cut_short:
  assumes "send_sizes k = Inr m # ms"
  shows "send_listing entries (os, k) =
    (Ret (), os, k\<lparr>send_sizes := ms, written := written k @ take m (list_text os entries)\<rparr>)"
  using assms by (simp add: send_listing_def send_once_def send_some_def)

lemma listing_cut_short_witness:
  "\<exists>k. send_listing [\<lparr>fi_name = ''a'', fi_size = 1, fi_is_directory = True, fi_permissions = 511,
      fi_modified_time = 0\<rparr>] (sample_os, idle_sock\<lparr>send_sizes := [Inr 10]\<rparr>) = (Ret (), sample_os, k)
    \<and> written k = ''drwxrwxrwx''"
proof -
  have "take 10 (list_text sample_os [\<lparr>fi_name = ''a'', fi_size = 1, fi_is_directory = True,
      fi_permissions = 511, fi_modified_time = 0\<rparr>]) = ''drwxrwxrwx''"
    by (simp add: list_text_def format_list_entry_def perm_char_def has_perm_def)
  then show ?thesis
    using listing_cut_short [of "idle_sock\<lparr>send_sizes := [Inr 10]\<rparr>" 10 "[]" _ sample_os]
    by (auto simp: idle_sock_def)
qed

end
