(* ===== verification/FtpSession.thy ===== *)
theory FtpSession
  imports DataChannel
begin

text \<open>
  \<open>ftp/ftp_session\<close>: one client connection. The session holds its state, the control socket
  with the bytes read from it, the manager of data connections, and the file system it works
  on. Logging is left out.
\<close>

record FTPSession =
  fs_state :: FTPSessionState
  fs_active :: bool
  fs_control :: sock
  fs_buffer :: string
  fs_manager :: DataChannelManager
  fs_os :: os

section \<open>Parts of the session\<close>

definition on_control :: "(sock, 'a) eff \<Rightarrow> (FTPSession, 'a) eff" where
  "on_control m w = (case m (fs_control w) of (r, k) \<Rightarrow> (r, w\<lparr>fs_control := k\<rparr>))"

definition on_os :: "(os, 'a) eff \<Rightarrow> (FTPSession, 'a) eff" where
  "on_os m w = (case m (fs_os w) of (r, os) \<Rightarrow> (r, w\<lparr>fs_os := os\<rparr>))"

definition on_manager :: "(DataChannelManager, 'a) eff \<Rightarrow> (FTPSession, 'a) eff" where
  "on_manager m w = (case m (fs_manager w) of (r, dm) \<Rightarrow> (r, w\<lparr>fs_manager := dm\<rparr>))"

definition on_state :: "(FTPSessionState \<Rightarrow> FTPSessionState) \<Rightarrow> (FTPSession, unit) eff" where
  "on_state f = modE (\<lambda>w. w\<lparr>fs_state := f (fs_state w)\<rparr>)"

text \<open>
  A data socket lives in the call that opened it and is closed when that call is left, in
  whatever way.
\<close>

definition close_data :: "sock \<Rightarrow> FTPSession \<Rightarrow> FTPSession" where
  "close_data k w =
     (let dm = fs_manager w; n = dm_net dm
      in w\<lparr>fs_manager := dm\<lparr>dm_net := n\<lparr>closed_socks := closed_socks n @ [close_sock k]\<rparr>\<rparr>\<rparr>)"

definition with_data :: "sock \<Rightarrow> (os \<times> sock, 'a) eff \<Rightarrow> (FTPSession, 'a) eff" where
  "with_data k m w =
     (case m (fs_os w, k) of (r, os, k') \<Rightarrow> (r, close_data k' (w\<lparr>fs_os := os\<rparr>)))"

text \<open>The constructor.\<close>

definition new_FTPSession :: "sock \<Rightarrow> net \<Rightarrow> path \<Rightarrow> (os, FTPSession) eff" where
  "new_FTPSession k n root_dir =
     bindE (fs_canonical root_dir) (\<lambda>root os.
     (Ret \<lparr>fs_state = initial_state root (now os), fs_active = True, fs_control = k, fs_buffer = [],
           fs_manager = new_manager n, fs_os = os\<rparr>, os))"

section \<open>Replies and commands on the control connection\<close>

definition response_text :: "ResponseCode \<Rightarrow> string \<Rightarrow> string" where
  "response_text code message = dec (response_code code) @ '' '' @ message @ crlf"

definition send_response :: "winapi \<Rightarrow> ResponseCode \<Rightarrow> string \<Rightarrow> (FTPSession, unit) eff" where
  "send_response api code message =
     bindE (liftE (encode_narrow api Char8_t Char_t (response_text code message))) (\<lambda>utf8_message.
     on_control (write_all (c_str utf8_message)))"

definition strip_eol :: "string \<Rightarrow> string" where
  "strip_eol line0 =
     (let line = (if line0 \<noteq> [] \<and> last line0 = LF then butlast line0 else line0)
      in if line \<noteq> [] \<and> last line = CR then butlast line else line)"

text \<open>
  \<open>read_command\<close>: it reads from the socket first, also when a whole line is in the buffer
  already.
\<close>

function read_command :: "FTPSession \<Rightarrow> string outcome \<times> FTPSession" where
  "read_command w =
     (case on_control (read_some 1024) w of
        (Ret bs, w1) \<Rightarrow>
          let sv = fs_buffer w1 @ bs
          in (case find_char LF sv of
                None \<Rightarrow> read_command (w1\<lparr>fs_buffer := sv\<rparr>)
              | Some pos \<Rightarrow>
                  (Ret (strip_eol (take (pos + 1) sv)), w1\<lparr>fs_buffer := drop (pos + 1) sv\<rparr>))
      | (Exn e, w1) \<Rightarrow> (Exn e, w1)
      | (Hang, w1) \<Rightarrow> (Hang, w1))"
  by pat_completeness auto
termination
  by (relation "measure (\<lambda>w. pending (fs_control w))")
     (auto simp: on_control_def dest: read_some_pending split: prod.splits)

declare read_command.simps [simp del]

section \<open>Data connections\<close>

definition establish_data_connection :: "(FTPSession, sock) eff" where
  "establish_data_connection =
     bindE (getE fs_state) (\<lambda>st.
     case st_data_conn_type st of
       PASSIVE \<Rightarrow>
         bindE (getE (\<lambda>w. dm_passive_port (fs_manager w))) (\<lambda>port.
         on_manager (accept_passive_connection port))
     | ACTIVE \<Rightarrow>
         bindE (getE (\<lambda>w. address_error (dm_net (fs_manager w)) (st_data_conn_host st))) (\<lambda>e.
         case e of
           Some ex \<Rightarrow> raise ex
         | None \<Rightarrow> on_manager create_active_channel))"

definition transfer_complete :: "nat \<Rightarrow> string" where
  "transfer_complete bytes = ''Transfer complete ('' @ dec bytes @ '' bytes)''"

definition list_body :: "winapi \<Rightarrow> FTPSessionState \<Rightarrow> string \<Rightarrow> bool \<Rightarrow> (os \<times> sock, reply) eff" where
  "list_body api st p detailed =
     bindE (getE (\<lambda>s. resolve (fst s) (st_current_directory st) (st_root_directory st) p)) (\<lambda>full_path.
     bindE (if full_path = [] then ret False else on_disk (fs_exists full_path)) (\<lambda>there.
     if \<not> there then ret (FileUnavailable, ''Directory not found'')
     else
       bindE (on_disk (fs_is_directory full_path)) (\<lambda>is_dir.
       bindE (if is_dir then send_directory_listing api full_path detailed
              else bindE (on_disk (file_size full_path)) (\<lambda>size. send_listing [])) (\<lambda>_.
       ret (FileActionCompleted, ''Transfer complete'')))))"

definition execute_list :: "winapi \<Rightarrow> string \<Rightarrow> bool \<Rightarrow> (FTPSession, reply) eff" where
  "execute_list api p detailed =
     bindE (send_response api DataConnectionOpen
              ''Opening ASCII mode data connection for file list'') (\<lambda>_.
     bindE establish_data_connection (\<lambda>data_socket.
     bindE (getE fs_state) (\<lambda>st.
     with_data data_socket (list_body api st p detailed))))"

definition retr_body :: "FTPSessionState \<Rightarrow> string \<Rightarrow> (os \<times> sock, nat option) eff" where
  "retr_body st name =
     bindE (getE (\<lambda>s. resolve (fst s) (st_current_directory st) (st_root_directory st) name)) (\<lambda>full_path.
     bindE (if full_path = [] then ret False else on_disk (fs_exists full_path)) (\<lambda>there.
     if \<not> there then ret None
     else bindE (send_file full_path 0 SIZE_MAX) (\<lambda>bytes. ret (Some bytes))))"

definition count_bytes :: "nat \<Rightarrow> FTPSessionState \<Rightarrow> FTPSessionState" where
  "count_bytes n st = st\<lparr>st_bytes_transferred := (st_bytes_transferred st + n) mod 2 ^ 64\<rparr>"

definition execute_retr :: "winapi \<Rightarrow> string \<Rightarrow> (FTPSession, reply) eff" where
  "execute_retr api name =
     bindE (send_response api DataConnectionOpen
              ''Opening BINARY mode data connection for file transfer'') (\<lambda>_.
     bindE establish_data_connection (\<lambda>data_socket.
     bindE (getE fs_state) (\<lambda>st.
     bindE (with_data data_socket (retr_body st name)) (\<lambda>r.
     case r of
       None \<Rightarrow> ret (FileUnavailable, ''File not found'')
     | Some bytes \<Rightarrow>
         bindE (on_state (count_bytes bytes)) (\<lambda>_.
         ret (FileActionCompleted, transfer_complete bytes))))))"

definition stor_body :: "FTPSessionState \<Rightarrow> string \<Rightarrow> (os \<times> sock, nat option) eff" where
  "stor_body st name =
     bindE (getE (\<lambda>s. resolve (fst s) (st_current_directory st) (st_root_directory st) name)) (\<lambda>full_path.
     if full_path = [] then ret None
     else bindE (receive_file full_path False SIZE_MAX) (\<lambda>bytes. ret (Some bytes)))"

definition execute_stor :: "winapi \<Rightarrow> string \<Rightarrow> (FTPSession, reply) eff" where
  "execute_stor api name =
     bindE (send_response api DataConnectionOpen
              ''Opening BINARY mode data connection for file upload'') (\<lambda>_.
     bindE establish_data_connection (\<lambda>data_socket.
     bindE (getE fs_state) (\<lambda>st.
     bindE (with_data data_socket (stor_body st name)) (\<lambda>r.
     case r of
       None \<Rightarrow> ret (FileUnavailable, ''Invalid path'')
     | Some bytes \<Rightarrow>
         bindE (on_state (count_bytes bytes)) (\<lambda>_.
         ret (FileActionCompleted, transfer_complete bytes))))))"

section \<open>Reading commands\<close>

lemma read_some_script:
  "read_some n k = (r, k') \<Longrightarrow> r \<noteq> Hang \<Longrightarrow> 0 < n \<Longrightarrow> pending k' < pending k"
  by (auto simp: read_some_def pending_def split: list.splits sum.splits if_splits)

lemma read_command_pending:
  "read_command w = (Ret line, w') \<Longrightarrow> pending (fs_control w') < pending (fs_control w)"
proof (induction w rule: read_command.induct)
  case (1 w)
  obtain r k where rd: "read_some 1024 (fs_control w) = (r, k)" by (cases "read_some 1024 (fs_control w)")
  show ?case
  proof (cases r)
    case (Ret bs)
    let ?w1 = "w\<lparr>fs_control := k\<rparr>"
    have oc: "on_control (read_some 1024) w = (Ret bs, ?w1)"
      using rd Ret by (simp add: on_control_def)
    have p: "pending k < pending (fs_control w)" using read_some_pending rd Ret by fastforce
    show ?thesis
    proof (cases "find_char LF (fs_buffer w @ bs)")
      case None
      have "read_command w = read_command (?w1\<lparr>fs_buffer := fs_buffer w @ bs\<rparr>)"
        using None oc by (subst read_command.simps) (simp add: Let_def)
      then have "read_command (?w1\<lparr>fs_buffer := fs_buffer w @ bs\<rparr>) = (Ret line, w')"
        using 1(2) by simp
      then have "pending (fs_control w') < pending (fs_control (?w1\<lparr>fs_buffer := fs_buffer w @ bs\<rparr>))"
        using 1(1) [OF oc [symmetric] refl refl] None by simp
      then show ?thesis using p by simp
    next
      case (Some pos)
      then have "w' = ?w1\<lparr>fs_buffer := drop (pos + 1) (fs_buffer w @ bs)\<rparr>"
        using 1(2) oc by (subst (asm) read_command.simps) (simp add: Let_def)
      then show ?thesis using p by simp
    qed
  next
    case (Exn e)
    then have "on_control (read_some 1024) w = (Exn e, w\<lparr>fs_control := k\<rparr>)"
      using rd by (simp add: on_control_def)
    then show ?thesis using 1(2) by (subst (asm) read_command.simps) simp
  next
    case Hang
    then have "on_control (read_some 1024) w = (Hang, w\<lparr>fs_control := k\<rparr>)"
      using rd by (simp add: on_control_def)
    then show ?thesis using 1(2) by (subst (asm) read_command.simps) simp
  qed
qed

lemma read_command_frame:
  "fs_state (snd (read_command w)) = fs_state w \<and> fs_os (snd (read_command w)) = fs_os w
   \<and> fs_manager (snd (read_command w)) = fs_manager w \<and> fs_active (snd (read_command w)) = fs_active w"
proof (induction w rule: read_command.induct)
  case (1 w)
  obtain r k where rd: "read_some 1024 (fs_control w) = (r, k)" by (cases "read_some 1024 (fs_control w)")
  then have oc: "on_control (read_some 1024) w = (r, w\<lparr>fs_control := k\<rparr>)" by (simp add: on_control_def)
  show ?case
  proof (cases r)
    case (Ret bs)
    show ?thesis
      using 1 [OF oc [unfolded Ret, symmetric] refl refl] oc Ret
      by (subst (1 2 3 4) read_command.simps) (auto simp: Let_def split: option.splits)
  qed (use oc in \<open>(subst (1 2 3 4) read_command.simps, simp)+\<close>)
qed

end
