(* ===== verification/FtpCommands.thy ===== *)
theory FtpCommands
  imports FtpSession
begin

text \<open>
  \<open>ftp/ftp_command_processor\<close>: the handlers, the table that registers them, the dispatch of a
  line, and the session's command loop on top (\<open>process_one_command\<close> and \<open>start\<close> of
  \<open>ftp_session.cpp\<close>).
\<close>

section \<open>Handlers\<close>

type_synonym handler = "winapi \<Rightarrow> string \<Rightarrow> (FTPSession, reply) eff"

definition need_login :: "(FTPSession, reply) eff \<Rightarrow> (FTPSession, reply) eff" where
  \<comment> \<open>the check most handlers start with\<close>
  "need_login m =
     bindE (getE (\<lambda>w. st_authenticated (fs_state w))) (\<lambda>auth.
     if \<not> auth then ret (NotLoggedIn, ''Not logged in'') else m)"

definition session_resolve :: "string \<Rightarrow> (FTPSession, path) eff" where
  "session_resolve arg =
     getE (\<lambda>w. resolve (fs_os w) (st_current_directory (fs_state w)) (st_root_directory (fs_state w)) arg)"

definition handle_user :: handler where
  "handle_user api arg =
     bindE (on_state (\<lambda>st. st\<lparr>st_username := arg\<rparr>)) (\<lambda>_.
     ret (NeedPassword, ''User name OK, more password required''))"

definition handle_pass :: handler where
  "handle_pass api arg =
     bindE (getE (\<lambda>w. st_username (fs_state w))) (\<lambda>name.
     if name = [] then ret (NotLoggedIn, ''Login with USER first'')
     else
       bindE (on_state (\<lambda>st. st\<lparr>st_authenticated := True, st_permission := PermWRITE\<rparr>)) (\<lambda>_.
       ret (LoggedIn, ''Login successful'')))"

definition handle_quit :: handler where
  "handle_quit api arg =
     bindE (modE (\<lambda>w. w\<lparr>fs_active := False\<rparr>)) (\<lambda>_. ret (ServiceClosingControl, ''Goodbye''))"

text \<open>
  The regular expression of PORT matches six runs of digits separated by commas; the two port
  bytes are combined in 16 bits.
\<close>

definition port_fields :: "string \<Rightarrow> string list option" where
  "port_fields arg =
     (let ps = split arg (CHR '','')
      in if length ps = 6 \<and> list_all (\<lambda>p. p \<noteq> [] \<and> all_digits p) ps then Some ps else None)"

definition port_number :: "int \<Rightarrow> int \<Rightarrow> nat" where
  "port_number p1 p2 = unat ((push_bit 8 (word_of_int p1) OR word_of_int p2) :: 16 word)"

definition handle_port :: handler where
  "handle_port api arg =
     (case port_fields arg of
        None \<Rightarrow> ret (ParameterSyntaxError, ''Invalid PORT command'')
      | Some m \<Rightarrow>
          let host = m ! 0 @ ''.'' @ m ! 1 @ ''.'' @ m ! 2 @ ''.'' @ m ! 3
          in bindE (liftE (stoi (m ! 4))) (\<lambda>p1.
             bindE (liftE (stoi (m ! 5))) (\<lambda>p2.
             bindE (on_state (\<lambda>st. st\<lparr>st_data_conn_host := host, st_data_conn_port := port_number p1 p2\<rparr>)) (\<lambda>_.
             bindE (on_state (\<lambda>st. st\<lparr>st_data_conn_type := ACTIVE\<rparr>)) (\<lambda>_.
             ret (CommandOkay, ''PORT command successful''))))))"

definition pasv_text :: "string \<Rightarrow> nat \<Rightarrow> string" where
  "pasv_text host port =
     (let parts = split host (CHR ''.'')
      in ''Entering Passive Mode ('' @ parts ! 0 @ '','' @ parts ! 1 @ '','' @ parts ! 2 @ '',''
         @ parts ! 3 @ '','' @ dec (drop_bit 8 port AND 0xFF) @ '','' @ dec (port AND 0xFF) @ '')'')"

definition handle_pasv :: handler where
  "handle_pasv api arg =
     bindE (on_manager create_passive_channel) (\<lambda>(addr, port).
     ret (EnterPasviveMode, pasv_text addr port))"

definition handle_list :: handler where
  "handle_list api arg = need_login (execute_list api arg True)"

definition handle_nlst :: handler where
  "handle_nlst api arg = need_login (execute_list api arg False)"

definition handle_retr :: handler where
  "handle_retr api arg =
     need_login
       (if arg = [] then ret (ParameterSyntaxError, ''Missing filename'') else execute_retr api arg)"

definition handle_stor :: handler where
  "handle_stor api arg =
     need_login
       (if arg = [] then ret (ParameterSyntaxError, ''Missing filename'') else execute_stor api arg)"

definition handle_dele :: handler where
  "handle_dele api arg =
     need_login
       (bindE (session_resolve arg) (\<lambda>p.
        if p = [] then ret (FileUnavailable, ''Invalid path'')
        else
          bindE (on_os (fs_is_directory p)) (\<lambda>is_dir.
          bindE (if is_dir then on_os (remove_directory p) else on_os (remove_file p)) (\<lambda>_.
          ret (FileActionCompleted, ''File deleted'')))))"

definition handle_rnfr :: handler where
  "handle_rnfr api arg =
     need_login
       (bindE (session_resolve arg) (\<lambda>p.
        if p = [] then ret (FileUnavailable, ''Invalid path'')
        else
          bindE (on_state (\<lambda>st. st\<lparr>st_rename_from_path := p\<rparr>)) (\<lambda>_.
          ret (FileActionPending, ''Ready for destination name''))))"

definition handle_rnto :: handler where
  "handle_rnto api arg =
     need_login
       (bindE (getE (\<lambda>w. st_rename_from_path (fs_state w))) (\<lambda>src.
        if src = [] then ret (BadSequence, ''RNFR required first'')
        else if arg = [] then ret (ParameterSyntaxError, ''Missing destination name'')
        else
          bindE (session_resolve arg) (\<lambda>dst.
          if dst = [] then ret (FileUnavailable, ''Invalid destination path'')
          else
            bindE (on_os (rename src dst)) (\<lambda>_.
            ret (FileActionCompleted, ''Rename successful'')))))"

definition handle_cwd :: handler where
  "handle_cwd api arg =
     need_login
       (bindE (session_resolve arg) (\<lambda>p.
        bindE (if p = [] then ret False else on_os (fs_exists p)) (\<lambda>there.
        if \<not> there then ret (FileUnavailable, ''Directory not found'')
        else
          bindE (on_os (fs_is_directory p)) (\<lambda>is_dir.
          if \<not> is_dir then ret (FileUnavailable, ''Not a directory'')
          else
            bindE (on_state (\<lambda>st. st\<lparr>st_current_directory := p\<rparr>)) (\<lambda>_.
            ret (CWD_pub, ''Directory changed''))))))"

definition quoted :: "string \<Rightarrow> string" where
  "quoted s = [CHR 0x22] @ s @ [CHR 0x22]"

definition handle_pwd :: handler where
  "handle_pwd api arg =
     need_login
       (bindE (getE fs_state) (\<lambda>st.
        bindE (on_os (get_relative_path (st_current_directory st) (st_root_directory st))) (\<lambda>p.
        let p = (if p = [] then ''/'' else p)
        in ret (DirectoryCreated, quoted p))))"

definition handle_mkd :: handler where
  "handle_mkd api arg =
     need_login
       (bindE (session_resolve arg) (\<lambda>p.
        if p = [] then ret (FileUnavailable, ''Invalid path'')
        else
          bindE (on_os (create_directory p)) (\<lambda>_.
          ret (DirectoryCreated, quoted p @ '' created''))))"

definition handle_rmd :: handler where
  "handle_rmd api arg =
     need_login
       (bindE (session_resolve arg) (\<lambda>p.
        if p = [] then ret (FileUnavailable, ''Invalid path'')
        else
          bindE (on_os (remove_directory p)) (\<lambda>_.
          ret (FileActionCompleted, ''Directory removed''))))"

definition handle_type :: handler where
  "handle_type api arg =
     (if arg = ''I'' \<or> arg = ''Binary''
      then bindE (on_state (\<lambda>st. st\<lparr>st_representation_type := ''I''\<rparr>)) (\<lambda>_.
           ret (CommandOkay, ''Type set to I''))
      else if arg = ''A'' \<or> arg = ''ASCII''
      then bindE (on_state (\<lambda>st. st\<lparr>st_representation_type := ''A''\<rparr>)) (\<lambda>_.
           ret (CommandOkay, ''Type set to A''))
      else ret (ParameterSyntaxError, ''Invalid type''))"

definition handle_size :: handler where
  "handle_size api arg =
     need_login
       (bindE (session_resolve arg) (\<lambda>p.
        if p = [] then ret (FileUnavailable, ''File not found'')
        else
          bindE (on_os (fs_is_directory p)) (\<lambda>is_dir.
          if is_dir then ret (FileUnavailable, ''Is a directory'')
          else
            bindE (on_os (file_size p)) (\<lambda>size. ret (FileStatusOkay, dec size)))))"

definition handle_mdtm :: handler where
  "handle_mdtm api arg = ret (FileStatusOkay, ''20230401120000'')"

definition handle_noop :: handler where
  "handle_noop api arg = ret (CommandOkay, ''OK'')"

definition features :: string where
  "features =
     ''Extensions supported:'' @ crlf @ '' SIZE'' @ crlf @ '' MDTM'' @ crlf
     @ '' MLST modify*;size;type;'' @ crlf @ '' MLSD'' @ crlf @ '' TVFS'' @ crlf @ '' UTF8'' @ crlf
     @ '' EPSV'' @ crlf @ '' EPRT'' @ crlf @ '' 211 End''"

definition handle_feat :: handler where
  "handle_feat api arg = ret (HelpMessage, features)"

definition handle_opts :: handler where
  "handle_opts api arg =
     (if arg = ''UTF8 ON'' then ret (CommandOkay, ''OK, UTF8 enabled'')
      else ret (CommandOkay, ''Options set''))"

section \<open>The table\<close>

definition handlers :: "(string \<times> handler) list" where
  "handlers =
     [(''USER'', handle_user), (''PASS'', handle_pass), (''QUIT'', handle_quit),
      (''PORT'', handle_port), (''PASV'', handle_pasv), (''LIST'', handle_list),
      (''NLST'', handle_nlst), (''RETR'', handle_retr), (''STOR'', handle_stor),
      (''DELE'', handle_dele), (''RNFR'', handle_rnfr), (''RNTO'', handle_rnto),
      (''CWD'', handle_cwd), (''PWD'', handle_pwd), (''MKD'', handle_mkd),
      (''RMD'', handle_rmd), (''TYPE'', handle_type), (''SIZE'', handle_size),
      (''MDTM'', handle_mdtm), (''NOOP'', handle_noop), (''FEAT'', handle_feat),
      (''OPTS'', handle_opts), (''CDUP'', \<lambda>api arg. handle_cwd api ''..'')]"

definition get_supported_commands :: "string list" where
  "get_supported_commands = map fst handlers"

section \<open>Dispatch\<close>

definition trailing :: "char \<Rightarrow> bool" where
  "trailing c \<longleftrightarrow> c = CR \<or> c = LF \<or> c = CHR '' '' \<or> c = TAB"

definition trim_command :: "string \<Rightarrow> string" where
  "trim_command s = rev (dropWhile trailing (rev s))"

definition caught :: "(FTPSession, reply) eff \<Rightarrow> (FTPSession, reply) eff" where
  "caught m = tryE m (\<lambda>e. ret (FileUnavailable, ''Error: '' @ what_of e))"

definition process_command :: "winapi \<Rightarrow> string \<Rightarrow> (FTPSession, reply) eff" where
  "process_command api raw_command =
     bindE (liftE (encode_narrow api Char_t Char8_t raw_command)) (\<lambda>localstr.
     let trimmed = trim_command localstr
     in if trimmed = [] then ret (SyntaxError, ''Empty command'')
        else
          let parts = parseCmd trimmed (CHR '' '');
              command = (if parts = [] then [] else to_Upper (parts ! 0));
              argument = (if 1 < length parts then parts ! 1 else [])
          in case map_of handlers command of
               None \<Rightarrow> ret (SyntaxError, ''Unknown command: '' @ command)
             | Some h \<Rightarrow> caught (h api argument))"

definition process_one_command :: "winapi \<Rightarrow> (FTPSession, unit) eff" where
  "process_one_command api =
     bindE read_command (\<lambda>line.
     if line = [] then ret ()
     else
       bindE (process_command api line) (\<lambda>(code, message).
       bindE (send_response api code message) (\<lambda>_.
       if response_code code = response_code ServiceClosingControl
       then modE (\<lambda>w. w\<lparr>fs_active := False\<rparr>)
       else ret ())))"

section \<open>Handlers leave the control connection's input alone\<close>

definition same_input :: "FTPSession \<Rightarrow> FTPSession \<Rightarrow> bool" where
  "same_input w w' \<longleftrightarrow> to_read (fs_control w') = to_read (fs_control w)"

named_theorems input_intros \<open>calls that read nothing from the control connection\<close>

lemma same_input_trans: "same_input a b \<Longrightarrow> same_input b c \<Longrightarrow> same_input a c"
  by (simp add: same_input_def)

lemmas same_input_bindE [input_intros] = preserves_bindE [OF _ _ same_input_trans]

lemma same_input_basic [input_intros]:
  "preserves same_input (ret x)" "preserves same_input (raise e)" "preserves same_input (getE f)"
  "preserves same_input (liftE r)" "preserves same_input (on_state g)"
  "preserves same_input (on_os m)" "preserves same_input (on_manager n)"
  "preserves same_input (with_data k d)" "preserves same_input (modE (\<lambda>w. w\<lparr>fs_active := b\<rparr>))"
  by (simp_all add: preserves_def same_input_def eff_simps on_state_def on_os_def on_manager_def
      with_data_def close_data_def Let_def split: prod.splits)

lemma same_input_send [input_intros]: "preserves same_input (send_response api code msg)"
proof -
  have "preserves same_input (on_control (write_all b))" for b
    by (auto simp: preserves_def same_input_def on_control_def split: prod.splits
        dest: write_all_reads_eq)
  then show ?thesis
    unfolding send_response_def by (intro same_input_bindE same_input_basic)
qed

lemma same_input_establish [input_intros]: "preserves same_input establish_data_connection"
  unfolding establish_data_connection_def
  by (intro same_input_bindE) (auto intro!: input_intros split: DataConnectionType.splits option.splits)

lemma same_input_login: "preserves same_input m \<Longrightarrow> preserves same_input (need_login m)"
  unfolding need_login_def by (intro same_input_bindE) (auto intro: input_intros)

lemma same_input_execute [input_intros]:
  "preserves same_input (execute_list api p d)" "preserves same_input (execute_retr api p)"
  "preserves same_input (execute_stor api p)"
  unfolding execute_list_def execute_retr_def execute_stor_def
  by (intro same_input_bindE; auto intro!: input_intros split: option.splits)+

lemmas handler_defs =
  handle_user_def handle_pass_def handle_quit_def handle_port_def handle_pasv_def handle_list_def
  handle_nlst_def handle_retr_def handle_stor_def handle_dele_def handle_rnfr_def handle_rnto_def
  handle_cwd_def handle_pwd_def handle_mkd_def handle_rmd_def handle_type_def handle_size_def
  handle_mdtm_def handle_noop_def handle_feat_def handle_opts_def

lemma handlers_cases:
  assumes "map_of handlers c = Some h"
    and "\<And>g. g \<in> {handle_user, handle_pass, handle_quit, handle_port, handle_pasv, handle_list,
      handle_nlst, handle_retr, handle_stor, handle_dele, handle_rnfr, handle_rnto, handle_cwd,
      handle_pwd, handle_mkd, handle_rmd, handle_type, handle_size, handle_mdtm, handle_noop,
      handle_feat, handle_opts} \<Longrightarrow> P (g api a) \<and> P (g api ''..'')"
  shows "P (h api a)"
  using map_of_SomeD [OF assms(1)] assms(2) by (auto simp: handlers_def)

lemma same_input_handler: "map_of handlers c = Some h \<Longrightarrow> preserves same_input (h api arg)"
proof (erule handlers_cases)
  fix g :: handler
  assume "g \<in> {handle_user, handle_pass, handle_quit, handle_port, handle_pasv, handle_list,
      handle_nlst, handle_retr, handle_stor, handle_dele, handle_rnfr, handle_rnto, handle_cwd,
      handle_pwd, handle_mkd, handle_rmd, handle_type, handle_size, handle_mdtm, handle_noop,
      handle_feat, handle_opts}"
  then have "preserves same_input (g api a)" for a
    by (auto simp: handler_defs session_resolve_def Let_def intro!: same_input_login input_intros
        split: option.splits prod.splits)
  then show "preserves same_input (g api arg) \<and> preserves same_input (g api ''..'')" by blast
qed

lemma same_input_process: "preserves same_input (process_command api raw)"
proof -
  have c: "preserves same_input (caught (h api a))" if "map_of handlers c = Some h" for c h a
    unfolding caught_def
    by (rule preserves_tryE [OF same_input_handler [OF that] _ same_input_trans]) (rule same_input_basic)
  have d: "preserves same_input
      (case map_of handlers c of None \<Rightarrow> ret r | Some h \<Rightarrow> caught (h api a))" for c r a
    by (cases "map_of handlers c") (simp_all add: same_input_basic(1) c)
  show ?thesis
    unfolding process_command_def Let_def
    by (rule same_input_bindE) (simp_all add: same_input_basic d)
qed

lemma process_one_pending:
  assumes "process_one_command api w = (Ret u, w')"
  shows "pending (fs_control w') < pending (fs_control w)"
proof -
  obtain line w1 where rd: "read_command w = (Ret line, w1)"
    and rest: "(if line = [] then ret ()
     else bindE (process_command api line) (\<lambda>(code, message).
       bindE (send_response api code message) (\<lambda>_.
       if response_code code = response_code ServiceClosingControl
       then modE (\<lambda>w. w\<lparr>fs_active := False\<rparr>)
       else ret ()))) w1 = (Ret u, w')" (is "?m w1 = _")
    using assms unfolding process_one_command_def by (rule bindE_RetE)
  have "preserves same_input ?m"
    by (cases "line = []") (auto intro!: input_intros same_input_process split: prod.splits)
  then have "to_read (fs_control w') = to_read (fs_control w1)"
    using preservesD [of same_input ?m w1] rest by (simp add: same_input_def)
  then show ?thesis
    using read_command_pending [OF rd] by (simp add: pending_def)
qed

section \<open>The session loop\<close>

text \<open>
  \<open>start\<close>: the greeting, then commands until the session is inactive. An exception that leaves
  \<open>process_one_command\<close> is logged and ends the loop.
\<close>

function session_loop :: "winapi \<Rightarrow> FTPSession \<Rightarrow> unit outcome \<times> FTPSession" where
  "session_loop api w =
     (if fs_active w
      then case process_one_command api w of
             (Ret _, w') \<Rightarrow> session_loop api w'
           | (Exn e, w') \<Rightarrow> (Ret (), w')
           | (Hang, w') \<Rightarrow> (Hang, w')
      else (Ret (), w))"
  by pat_completeness auto
termination
  by (relation "measure (\<lambda>(api, w). pending (fs_control w))") (auto dest: process_one_pending [OF sym])

declare session_loop.simps [simp del]

definition start :: "winapi \<Rightarrow> (FTPSession, unit) eff" where
  "start api =
     bindE (send_response api ServiceReady ''FTP Server ready'') (\<lambda>_. session_loop api)"

end
