(* ===== verification/Confine.thy ===== *)
theory Confine
  imports AsyncFs
begin

text \<open>
  What the two servers share when they change the file system: Hoare triples over
  state-passing calls, the region a path guard admits, and the changes it confines.
\<close>

section \<open>Triples\<close>

text \<open>
  From states with the invariant and the precondition, the invariant holds afterwards whatever
  the outcome, and the postcondition when the call returns.
\<close>

definition hoare ::
    "('s \<Rightarrow> bool) \<Rightarrow> ('s \<Rightarrow> bool) \<Rightarrow> ('s, 'a) eff \<Rightarrow> ('a \<Rightarrow> 's \<Rightarrow> bool) \<Rightarrow> bool" where
  "hoare I P m Q \<longleftrightarrow>
     (\<forall>s r t. I s \<and> P s \<and> m s = (r, t) \<longrightarrow> I t \<and> (\<forall>x. r = Ret x \<longrightarrow> Q x t))"

named_theorems hoare_intros \<open>triples for the parts of a handler\<close>

lemma hoareI:
  "(\<And>s r t. I s \<Longrightarrow> P s \<Longrightarrow> m s = (r, t) \<Longrightarrow> I t \<and> (\<forall>x. r = Ret x \<longrightarrow> Q x t)) \<Longrightarrow> hoare I P m Q"
  by (auto simp: hoare_def)

lemma hoareD: "hoare I P m Q \<Longrightarrow> I s \<Longrightarrow> P s \<Longrightarrow> I (snd (m s))"
  by (cases "m s") (auto simp: hoare_def)

lemma hoare_bindE:
  assumes m: "hoare I P m Q" and f: "\<And>x. hoare I (Q x) (f x) R"
  shows "hoare I P (bindE m f) R"
proof (rule hoareI)
  fix s r t
  assume s: "I s" "P s" and b: "bindE m f s = (r, t)"
  obtain r1 t1 where mt: "m s = (r1, t1)" by (cases "m s")
  then have t1: "I t1" "\<And>x. r1 = Ret x \<Longrightarrow> Q x t1" using m s by (auto simp: hoare_def)
  show "I t \<and> (\<forall>x. r = Ret x \<longrightarrow> R x t)"
  proof (cases r1)
    case (Ret x)
    then have "f x t1 = (r, t)" using b mt by (simp add: bindE_def)
    then show ?thesis using f [of x] t1(1) t1(2) [OF Ret] unfolding hoare_def by blast
  qed (use b mt t1 in \<open>auto simp: bindE_def\<close>)
qed

lemma hoare_weaken:
  "hoare I P m Q \<Longrightarrow> (\<And>s. I s \<Longrightarrow> P' s \<Longrightarrow> P s) \<Longrightarrow> (\<And>x s. Q x s \<Longrightarrow> Q' x s) \<Longrightarrow> hoare I P' m Q'"
  unfolding hoare_def by blast

lemma hoare_any: "hoare I P m Q \<Longrightarrow> hoare I P m (\<lambda>_ _. True)"
  by (erule hoare_weaken) auto

lemma hoare_ret: "(\<And>s. P s \<Longrightarrow> Q x s) \<Longrightarrow> hoare I P (ret x) Q"
  by (auto simp: hoare_def ret_def)

lemma hoare_raise: "hoare I P (raise e) Q"
  by (auto simp: hoare_def raise_def)

lemma hoare_liftE: "hoare I P (liftE r) (\<lambda>_. P)"
  by (auto simp: hoare_def liftE_def)

lemma hoare_getE: "hoare I P (getE f) (\<lambda>x s. P s \<and> x = f s)"
  by (auto simp: hoare_def getE_def)

lemma hoare_tryE:
  "hoare I P m (\<lambda>_ _. True) \<Longrightarrow> (\<And>e. hoare I (\<lambda>_. True) (h e) (\<lambda>_ _. True)) \<Longrightarrow>
     hoare I P (tryE m h) (\<lambda>_ _. True)"
proof (rule hoareI)
  fix s r t
  assume m: "hoare I P m (\<lambda>_ _. True)" and h: "\<And>e. hoare I (\<lambda>_. True) (h e) (\<lambda>_ _. True)"
    and s: "I s" "P s" and b: "tryE m h s = (r, t)"
  obtain r1 t1 where mt: "m s = (r1, t1)" by (cases "m s")
  then have t1: "I t1" using m s by (auto simp: hoare_def)
  show "I t \<and> (\<forall>x. r = Ret x \<longrightarrow> True)"
  proof (cases r1)
    case (Exn e)
    then have "h e t1 = (r, t)" using b mt by (simp add: tryE_def)
    then show ?thesis using h [of e] t1 unfolding hoare_def by blast
  qed (use b mt t1 in \<open>auto simp: tryE_def\<close>)
qed

lemma hoare_reads:
  "(\<And>s. snd (m s) = s) \<Longrightarrow> hoare I P m (\<lambda>_. P)"
  unfolding hoare_def by (metis snd_conv)

section \<open>The region and its changes\<close>

definition region :: "loc \<Rightarrow> loc \<Rightarrow> bool" where
  "region r l \<longleftrightarrow> below r l \<or> beside r l"

lemma region_below: "region r l \<Longrightarrow> below l k \<Longrightarrow> region r k"
proof -
  assume r: "region r l" and b: "below l k"
  show ?thesis
  proof (cases "below r l")
    case True
    then show ?thesis using b below_trans by (auto simp: region_def)
  next
    case False
    then obtain pre x y rest where e: "fst l = fst r" "snd r = pre @ [x]"
      "snd l = pre @ (x @ y) # rest" "y \<noteq> []"
      using r unfolding region_def beside_def name_extends_def by blast
    obtain ds where "snd k = snd l @ ds" "fst k = fst l" using b by (auto simp: below_def prefix_def)
    then have "fst k = fst r" "snd k = pre @ (x @ y) # (rest @ ds)" using e by simp_all
    then show ?thesis using e unfolding region_def beside_def name_extends_def by blast
  qed
qed

text \<open>No operation changes the current directories.\<close>

definition same_cwd :: "os \<Rightarrow> os \<Rightarrow> bool" where
  "same_cwd os os' \<longleftrightarrow> cur_dirs os' = cur_dirs os \<and> cur_root os' = cur_root os"

lemma same_cwd_refl [simp]: "same_cwd os os"
  by (simp add: same_cwd_def)

lemma same_cwd_basic [simp]:
  "same_cwd os (put_node l n os)" "same_cwd os (drop_below l os)" "same_cwd os (move_tree l l' os)"
  "same_cwd os (os\<lparr>nodes := ns\<rparr>)" "same_cwd os (set_contents l b os)"
  by (simp_all add: same_cwd_def drop_below_def move_tree_def set_contents_def split: option.splits
      node.splits)

lemma same_cwd_changes:
  "same_cwd os (snd (fs_remove os p))" "same_cwd os (snd (fs_remove_all os p))"
  "same_cwd os (snd (fs_rename os p q))" "same_cwd os (snd (fs_copy_file os p q))"
  "same_cwd os (snd (open_trunc os p))"
  by (simp_all add: fs_remove_def fs_remove_all_def fs_rename_def fs_copy_file_def open_trunc_def
      split: sum.splits option.splits node.splits)

text \<open>
  One step, or several: well-formedness and the current directories are kept, nothing outside the
  region changes, nothing new appears, and what was no link does not become one.
\<close>

definition confined :: "loc \<Rightarrow> os \<Rightarrow> os \<Rightarrow> bool" where
  "confined r os os' \<longleftrightarrow> wf_os os' \<and> no_new_links os os' \<and> same_cwd os os'
     \<and> (\<forall>k. \<not> region r k \<longrightarrow> lookup os' k = lookup os k)
     \<and> (\<forall>k. lookup os' k \<noteq> None \<longrightarrow> lookup os k \<noteq> None)"

lemma confined_refl: "wf_os os \<Longrightarrow> confined r os os"
  by (simp add: confined_def no_new_links_def)

lemma confined_trans: "confined r a b \<Longrightarrow> confined r b c \<Longrightarrow> confined r a c"
  unfolding confined_def no_new_links_def same_cwd_def by (elim conjE, intro conjI; metis)

lemma confined_drop:
  assumes "wf_os os" "region r l" "snd l \<noteq> []" shows "confined r os (drop_below l os)"
proof -
  have "\<not> below l k" if "\<not> region r k" for k using region_below [OF assms(2)] that by blast
  then show ?thesis using assms by (simp add: confined_def no_new_links_def wf_drop_below)
qed

lemma fs_remove_cases:
  assumes wf: "wf_os os" and lo: "locate os p = Inr l"
  shows "snd (fs_remove os p) = os \<or> snd l \<noteq> [] \<and> snd (fs_remove os p) = drop_below l os"
proof (cases "lookup os l")
  case None
  then show ?thesis using lo by (simp add: fs_remove_def)
next
  case (Some n)
  have root: "snd l = [] \<Longrightarrow> is_dir_node (Some n)" using locate_result(3) [OF wf lo] Some by simp
  show ?thesis
  proof (cases n)
    case (Directory a)
    then show ?thesis using lo Some by (simp add: fs_remove_def)
  qed (use lo Some root in \<open>auto simp: fs_remove_def is_dir_node_def\<close>)
qed

lemma confined_remove:
  assumes wf: "wf_os os" and s: "solid os l" and r: "region r l"
  shows "confined r os (snd (fs_remove os (loc_str l)))"
  using fs_remove_cases [OF wf locate_solid [OF wf s]] confined_drop [OF wf r] confined_refl [OF wf]
  by (elim disjE conjE) simp_all

lemma confined_remove_all:
  assumes wf: "wf_os os" and s: "solid os l" and r: "region r l"
  shows "confined r os (snd (fs_remove_all os (loc_str l)))"
proof (cases "snd l = []")
  case False
  then show ?thesis
    using confined_drop [OF wf r] confined_refl [OF wf]
    by (auto simp: fs_remove_all_def locate_solid [OF wf s])
next
  case True
  let ?e = "os\<lparr>nodes := filter (\<lambda>(k, n). below l k \<longrightarrow> k = l) (nodes os)\<rparr>"
  have "snd (fs_remove_all os (loc_str l)) = ?e"
    using True s by (auto simp: fs_remove_all_def locate_solid [OF wf s] solid_def)
  moreover have "wf_os (snd (fs_remove_all os (loc_str l)))" by (rule wf_fs_remove_all [OF wf])
  moreover have "\<not> below l k" if "\<not> region r k" for k using region_below [OF r] that by blast
  ultimately show ?thesis
    by (simp add: confined_def no_new_links_def lookup_empty_drive)
qed

lemma make_dirs_existing:
  "wf_os os \<Longrightarrow> solid os (r, pre @ cs) \<Longrightarrow> snd (make_dirs os r pre cs) = os"
proof (induction cs arbitrary: pre)
  case (Cons c cs)
  have s: "solid os (r, pre @ [c])"
  proof (cases "cs = []")
    case False
    then have "is_dir_node (lookup os (r, pre @ [c]))"
      using wf_ancestor [OF Cons(2), of r "pre @ [c]" cs] Cons(3) by (auto simp: solid_def)
    then show ?thesis by (auto simp: solid_def dir_node_cases)
  qed (use Cons(3) in simp)
  show ?case
    using follow_loc_solid [OF Cons(2) s] Cons(1) [OF Cons(2), of "pre @ [c]"] Cons(3) by simp
qed simp

lemma create_existing:
  assumes wf: "wf_os os" and s: "solid os l"
  shows "snd (fs_create_directories os (loc_str l)) = os"
  using make_dirs_existing [OF wf, of "fst l" "[]" "snd l"] s solid_root [OF wf s]
  by (simp add: fs_create_directories_def full_loc_str [OF solid_valid [OF wf s]])

lemma confined_set_contents:
  assumes "wf_os os" "region r l" shows "confined r os (set_contents l b os)"
  using assms wf_set_contents [OF assms(1), of l b]
  by (auto simp: confined_def no_new_links_def set_contents_def split: option.splits node.splits if_splits)

section \<open>Paths remembered from earlier\<close>

text \<open>
  A path text that was canonical once still denotes the same location or nothing, as long as no
  link has come up on it.
\<close>

definition linkless :: "os \<Rightarrow> loc \<Rightarrow> bool" where
  "linkless os l \<longleftrightarrow> (\<forall>k t. below k l \<longrightarrow> lookup os k \<noteq> Some (Symlink t))"

lemma linkless_solid:
  assumes wf: "wf_os os" and s: "solid os l" shows "linkless os l"
proof -
  have "\<exists>n. lookup os k = Some n \<and> (\<forall>t. n \<noteq> Symlink t)" if b: "below k l" for k
  proof (cases "k = l")
    case False
    have "lookup os l \<noteq> None" using s by (auto simp: solid_def)
    then have "is_dir_node (lookup os k)" using existing_below [OF wf _ b] False by auto
    then show ?thesis by (auto simp: dir_node_cases)
  qed (use s in \<open>auto simp: solid_def\<close>)
  then show ?thesis unfolding linkless_def by force
qed

lemma linkless_mono: "linkless os l \<Longrightarrow> no_new_links os os' \<Longrightarrow> linkless os' l"
  unfolding linkless_def no_new_links_def by blast

lemma below_prefix: "below (r, pre) (r, pre @ cs)"
  by (simp add: below_def)

lemma walk_linkless:
  "linkless os (r, pre @ cs) \<Longrightarrow> walk n os r pre cs = Inr k \<Longrightarrow> k = (r, pre @ cs)"
proof (induction cs arbitrary: pre)
  case (Cons c cs)
  have nl: "lookup os (r, pre @ [c]) \<noteq> Some (Symlink t)" for t
    using Cons(2) below_prefix [of r "pre @ [c]" cs] by (simp add: linkless_def)
  show ?case
    using Cons(3) nl Cons(1) [of "pre @ [c]"] Cons(2)
    by (auto split: option.splits node.splits if_splits)
qed simp

lemma follow_loc_linkless: "linkless os l \<Longrightarrow> follow_loc os l = Inr k \<Longrightarrow> k = l"
  using walk_linkless [of os "fst l" "[]" "snd l" 63 k] by (simp add: follow_loc_def split: if_splits)

lemma follow_linkless:
  "valid_loc l \<Longrightarrow> linkless os l \<Longrightarrow> follow os (loc_str l) = Inr k \<Longrightarrow> k = l"
  by (simp add: follow_def full_loc_str follow_loc_linkless)

lemma linkless_parent: "linkless os l \<Longrightarrow> linkless os (parent l)"
  unfolding linkless_def using parent_below by blast

lemma locate_linkless:
  assumes v: "valid_loc l" and nl: "linkless os l" and k: "locate os (loc_str l) = Inr k"
  shows "k = l"
proof (cases "snd l = []")
  case True
  then show ?thesis using k follow_loc_linkless [OF nl] by (simp add: locate_def full_loc_str [OF v])
next
  case False
  then obtain d where d: "follow_loc os (parent l) = Inr d" and kd: "k = (fst d, snd d @ [last (snd l)])"
    using k by (auto simp: locate_def full_loc_str [OF v] split: sum.splits if_splits)
  have "d = parent l" using follow_loc_linkless [OF linkless_parent [OF nl] d] .
  then show ?thesis using kd False by (simp add: parent_def prod_eq_iff)
qed

lemma confined_rename:
  assumes wf: "wf_os os" and va: "valid_loc a" and nl: "linkless os a" and ra: "region r a"
    and s: "solid os b" and rb: "region r b"
  shows "confined r os (snd (fs_rename os (loc_str a) (loc_str b)))"
proof -
  have lb: "locate os (loc_str b) = Inr b" by (rule locate_solid [OF wf s])
  show ?thesis
  proof (cases "snd (fs_rename os (loc_str a) (loc_str b)) = os")
    case True
    then show ?thesis using confined_refl [OF wf] by simp
  next
    case False
    then obtain a' n where la: "locate os (loc_str a) = Inr a'" and n: "lookup os a' = Some n"
      and cond: "snd a' \<noteq> []" "snd b \<noteq> []" "a' \<noteq> b" "\<not> below a' b"
        "\<not> is_dir_node (Some n)" "\<not> is_dir_node (lookup os b)"
      and mv: "snd (fs_rename os (loc_str a) (loc_str b)) = move_tree a' b os"
      using s by (auto simp: fs_rename_def lb solid_def split: sum.splits option.splits if_splits)
    have aa: "a' = a" using locate_linkless [OF va nl la] .
    have "\<not> below b a"
      using existing_below [OF wf, of a b] n cond(3,6) aa by auto
    then have ap: "apart a b" using cond(4) aa by (simp add: apart_def)
    have only: "l = a" if "below a l" "lookup os l \<noteq> None" for l
      using existing_below [OF wf that(2,1)] n cond(5) aa by auto
    have w: "wf_os (move_tree a b os)"
      using wf_fs_rename [OF wf, of "loc_str a" "loc_str b"] mv aa by simp
    have moved: "rebase b a k = a" if "below b k" "lookup os (rebase b a k) \<noteq> None" for k
      using only [OF below_rebase that(2)] .
    have kb: "k = b" if "below b k" "rebase b a k = a" for k
      using that rebase_back [of b k a] by (metis rebase_root)
    have na: "lookup os a \<noteq> Some (Symlink t)" for t
      using nl below_refl unfolding linkless_def by blast
    have sb: "lookup os b \<noteq> None" using s by (auto simp: solid_def)
    have lk: "lookup (move_tree a b os) k = (if below b k then lookup os (rebase b a k)
        else if below a k then None else lookup os k)" for k
      by (rule lookup_move_tree [OF ap])
    have "no_new_links os (move_tree a b os)"
      unfolding no_new_links_def lk using moved na by (metis option.distinct(1))
    moreover have "lookup (move_tree a b os) k \<noteq> None \<Longrightarrow> lookup os k \<noteq> None" for k
      unfolding lk using moved kb sb by metis
    moreover have "\<not> region r k \<Longrightarrow> lookup (move_tree a b os) k = lookup os k" for k
      unfolding lk using region_below [OF ra, of k] region_below [OF rb, of k] by auto
    ultimately show ?thesis using w mv aa by (simp add: confined_def)
  qed
qed

definition remembered :: "loc \<Rightarrow> os \<Rightarrow> path \<Rightarrow> bool" where
  "remembered r os p \<longleftrightarrow>
     p = [] \<or> (\<exists>l. p = loc_str l \<and> valid_loc l \<and> region r l \<and> linkless os l)"

definition good :: "loc \<Rightarrow> os \<Rightarrow> path \<Rightarrow> bool" where
  "good r os p \<longleftrightarrow> (\<exists>l. p = loc_str l \<and> solid os l \<and> region r l)"

lemma remembered_mono: "remembered r os p \<Longrightarrow> no_new_links os os' \<Longrightarrow> remembered r os' p"
  unfolding remembered_def using linkless_mono by blast

section \<open>Operations on admitted paths\<close>

lemma error_of_os [simp]: "snd (error_of what x) = snd x"
  by (auto simp: error_of_def split: option.splits)

lemma confined_delete:
  assumes "wf_os os" "good r os p"
  shows "confined r os (snd (remove_file p os))" and "confined r os (snd (remove_directory p os))"
proof -
  obtain l where l: "p = loc_str l" "solid os l" "region r l" using assms(2) unfolding good_def by blast
  show "confined r os (snd (remove_file p os))" and "confined r os (snd (remove_directory p os))"
    using confined_remove [OF assms(1) l(2,3)] confined_remove_all [OF assms(1) l(2,3)]
    by (simp_all add: remove_file_def remove_directory_def l(1))
qed

lemma create_nothing: "wf_os os \<Longrightarrow> good r os p \<Longrightarrow> snd (create_directory p os) = os"
  by (auto simp: good_def create_directory_def create_existing)

lemma confined_move:
  assumes "wf_os os" "remembered r os p" "p \<noteq> []" "good r os q"
  shows "confined r os (snd (rename p q os))"
proof -
  obtain a where a: "p = loc_str a" "valid_loc a" "region r a" "linkless os a"
    using assms(2,3) unfolding remembered_def by blast
  obtain b where b: "q = loc_str b" "solid os b" "region r b" using assms(4) unfolding good_def by blast
  show ?thesis
    using confined_rename [OF assms(1) a(2,4,3) b(2,3)] by (simp add: rename_def a(1) b(1))
qed

lemma reads_or_throw: "reads (or_throw op f p)"
  by (simp add: reads_def or_throw_def split: sum.splits)

lemma reads_queries:
  "reads (fs_exists p)" "reads (fs_is_directory p)" "reads (file_size p)" "reads (fs_canonical p)"
  "reads (fs_file_size p)" "reads (get_relative_path p base)" "reads (read_directory p)"
  by (auto simp: fs_exists_def fs_is_directory_def fs_canonical_def fs_file_size_def reads_or_throw
      get_relative_path_def intro!: reads_bindE posix_fs.queries)

lemma hoare_done: "hoare I P (ret x) (\<lambda>_ _. True)"
  by (rule hoare_ret) simp

end
