(* ===== verification/FtpConfine.thy ===== *)
theory FtpConfine
  imports FtpCommands Confine
begin

text \<open>
  What an FTP session can do to the file system: every command, and every run of commands,
  changes only locations in the region the path guard admits, and brings none into existence.
\<close>

section \<open>The invariant of a session\<close>

definition session_inv :: "loc \<Rightarrow> os \<Rightarrow> FTPSession \<Rightarrow> bool" where
  "session_inv r os0 w \<longleftrightarrow> confined r os0 (fs_os w) \<and> valid_loc r
     \<and> st_root_directory (fs_state w) = loc_str r \<and> linkless (fs_os w) r
     \<and> remembered r (fs_os w) (st_rename_from_path (fs_state w))"

lemma inv_wf: "session_inv r os0 w \<Longrightarrow> wf_os (fs_os w)"
  by (simp add: session_inv_def confined_def)

lemma resolve_good:
  assumes inv: "session_inv r os0 w" and p: "resolve (fs_os w) cur (st_root_directory (fs_state w)) arg = p"
    and ne: "p \<noteq> []"
  shows "good r (fs_os w) p"
proof -
  obtain l r' where l: "p = loc_str l" "solid (fs_os w) l" "below r' l \<or> beside r' l"
    and r': "follow (fs_os w) (st_root_directory (fs_state w)) = Inr r'"
    using resolve_locs [OF inv_wf [OF inv] p ne] by blast
  have "r' = r"
    using follow_linkless [of r "fs_os w" r'] r' inv by (simp add: session_inv_def)
  then show ?thesis using l unfolding good_def region_def by blast
qed

lemma inv_os_step:
  assumes "session_inv r os0 w" and "confined r (fs_os w) os'"
  shows "session_inv r os0 (w\<lparr>fs_os := os'\<rparr>)"
proof -
  have "no_new_links (fs_os w) os'" using assms(2) by (simp add: confined_def)
  then show ?thesis
    using assms confined_trans linkless_mono remembered_mono
    by (simp add: session_inv_def) blast
qed

lemma session_inv_other [simp]:
  "session_inv r os0 (w\<lparr>fs_control := k\<rparr>) = session_inv r os0 w"
  "session_inv r os0 (w\<lparr>fs_buffer := b\<rparr>) = session_inv r os0 w"
  "session_inv r os0 (w\<lparr>fs_manager := m\<rparr>) = session_inv r os0 w"
  "session_inv r os0 (w\<lparr>fs_active := a\<rparr>) = session_inv r os0 w"
  by (simp_all add: session_inv_def)

lemma hoare_on_os:
  assumes "\<And>w. session_inv r os0 w \<Longrightarrow> P w \<Longrightarrow> confined r (fs_os w) (snd (m (fs_os w)))"
  shows "hoare (session_inv r os0) P (on_os m) (\<lambda>_ _. True)"
proof (rule hoareI)
  fix w rr w'
  assume w: "session_inv r os0 w" "P w" and e: "on_os m w = (rr, w')"
  obtain a os where m: "m (fs_os w) = (a, os)" by (cases "m (fs_os w)")
  then have "session_inv r os0 (w\<lparr>fs_os := os\<rparr>)" using inv_os_step [OF w(1)] assms [OF w] by simp
  then show "session_inv r os0 w' \<and> (\<forall>x. rr = Ret x \<longrightarrow> True)"
    using e m by (simp add: on_os_def)
qed

lemma hoare_with_data:
  assumes "\<And>w. session_inv r os0 w \<Longrightarrow> P w \<Longrightarrow> confined r (fs_os w) (fst (snd (m (fs_os w, k))))"
  shows "hoare (session_inv r os0) P (with_data k m) (\<lambda>_ _. True)"
proof (rule hoareI)
  fix w rr w'
  assume w: "session_inv r os0 w" "P w" and e: "with_data k m w = (rr, w')"
  obtain a os k' where m: "m (fs_os w, k) = (a, os, k')" by (cases "m (fs_os w, k)")
  then have "session_inv r os0 (w\<lparr>fs_os := os\<rparr>)" using inv_os_step [OF w(1)] assms [OF w] by simp
  then show "session_inv r os0 w' \<and> (\<forall>x. rr = Ret x \<longrightarrow> True)"
    using e m by (auto simp: with_data_def close_data_def Let_def)
qed

lemma hoare_state:
  assumes "\<And>st. st_root_directory (f st) = st_root_directory st"
    and "\<And>st. st_rename_from_path (f st) = st_rename_from_path st"
  shows "hoare (session_inv r os0) P (on_state f) (\<lambda>_ _. True)"
  using assms by (auto simp: hoare_def on_state_def modE_def session_inv_def)

lemma hoare_rename_from:
  "hoare (session_inv r os0) (\<lambda>w. good r (fs_os w) p)
     (on_state (\<lambda>st. st\<lparr>st_rename_from_path := p\<rparr>)) (\<lambda>_ _. True)"
proof (rule hoareI)
  fix w rr w'
  assume i: "session_inv r os0 w" and g: "good r (fs_os w) p"
    and e: "on_state (\<lambda>st. st\<lparr>st_rename_from_path := p\<rparr>) w = (rr, w')"
  have "remembered r (fs_os w) p"
    using g linkless_solid [OF inv_wf [OF i]] solid_valid [OF inv_wf [OF i]]
    unfolding good_def remembered_def by blast
  then show "session_inv r os0 w' \<and> (\<forall>x. rr = Ret x \<longrightarrow> True)"
    using i e by (auto simp: on_state_def modE_def session_inv_def)
qed

lemma hoare_resolve:
  "hoare (session_inv r os0) P (session_resolve arg)
     (\<lambda>p w. P w \<and> (p \<noteq> [] \<longrightarrow> good r (fs_os w) p))"
proof (rule hoareI)
  fix w rr w'
  assume w: "session_inv r os0 w" "P w" and e: "session_resolve arg w = (rr, w')"
  then show "session_inv r os0 w' \<and> (\<forall>p. rr = Ret p \<longrightarrow> P w' \<and> (p \<noteq> [] \<longrightarrow> good r (fs_os w') p))"
    using resolve_good [OF w(1) refl] by (auto simp: session_resolve_def getE_def)
qed

lemma hoare_manager: "hoare (session_inv r os0) P (on_manager m) (\<lambda>_ _. True)"
  by (auto simp: hoare_def on_manager_def split: prod.splits)

lemma hoare_send: "hoare (session_inv r os0) P (send_response api c m) (\<lambda>_ _. True)"
  by (auto simp: hoare_def send_response_def bindE_def liftE_def on_control_def
      split: prod.splits outcome.splits)

lemma hoare_establish: "hoare (session_inv r os0) P establish_data_connection (\<lambda>_ _. True)"
  unfolding establish_data_connection_def
  by (auto intro!: hoare_bindE [OF hoare_getE] hoare_manager hoare_raise
      split: DataConnectionType.splits option.splits)

section \<open>Receiving a file\<close>

lemma af_write_os:
  assumes "nt_fp (af_rawfile f) = Some l" and "af_write d f os = (n, f', os')"
  shows "(\<exists>c. os' = set_contents l c os) \<and> nt_fp (af_rawfile f') = Some l"
  using assms by (auto simp: af_write_def nt_Write_def Let_def)

lemma receive_loop_confined:
  "wf_os os \<Longrightarrow> region r l \<Longrightarrow> nt_fp (af_rawfile f) = Some l \<Longrightarrow>
     confined r os (fst (snd (receive_loop f t n (os, k))))"
proof (induction f t n "(os, k)" arbitrary: os k rule: receive_loop.induct)
  case (1 f t n os k)
  obtain a k1 where rd: "read_some BUFFER_SIZE k = (a, k1)" by (cases "read_some BUFFER_SIZE k")
  show ?case
  proof (cases "t < n \<and> (\<exists>bs. a = Ret bs \<and> bs \<noteq> [])")
    case True
    then obtain bs where bs: "a = Ret bs" "bs \<noteq> []" and t: "t < n" by blast
    obtain m f1 os1 where w: "af_write bs f os = (m, f1, os1)" by (cases "af_write bs f os")
    have w1: "confined r os os1" "nt_fp (af_rawfile f1) = Some l"
      using af_write_os [OF 1(4) w] confined_set_contents [OF 1(2,3)] by auto
    have "wf_os os1" using w1(1) by (simp add: confined_def)
    then have "confined r os1 (fst (snd (receive_loop f1 (t + m) n (os1, k1))))"
      using 1(1) [OF t rd [symmetric] bs(1) bs(2) w [symmetric] refl _ 1(3) w1(2)] by simp
    moreover have "receive_loop f t n (os, k) = receive_loop f1 (t + m) n (os1, k1)"
      using rd bs t w by (subst receive_loop.simps) simp
    ultimately show ?thesis using confined_trans [OF w1(1)] by simp
  next
    case False
    then have "fst (snd (receive_loop f t n (os, k))) = os"
      using rd by (subst receive_loop.simps) (auto split: outcome.splits)
    then show ?thesis using confined_refl [OF 1(2)] by simp
  qed
qed

lemma new_buffered_fp:
  assumes "new_AsyncFileBuffered p os = (x, os')"
  shows "os' = os \<and> (\<forall>f. x = Ret f \<longrightarrow> (\<exists>l. nt_fp (af_rawfile f) = Some l \<and> follow os p = Inr l))"
  using assms
  by (auto simp: new_AsyncFileBuffered_def new_CNtFile_def fs_file_size_def or_throw_def bindE_def
      getE_def ret_def raise_def split: sum.splits node.splits if_splits)

lemma seek_if_False [simp]: "seek_if False n f = Ret f"
  by (simp add: seek_if_def)

lemma receive_file_confined:
  assumes wf: "wf_os os" and g: "good r os p"
  shows "confined r os (fst (snd (receive_file p False n (os, k))))"
proof -
  obtain x os' where nf: "new_AsyncFileBuffered p os = (x, os')" by (cases "new_AsyncFileBuffered p os")
  then have o: "os' = os" using new_buffered_fp [OF nf] by blast
  show ?thesis
  proof (cases x)
    case (Ret f)
    then obtain l where fp: "nt_fp (af_rawfile f) = Some l" and fl: "follow os p = Inr l"
      using new_buffered_fp [OF nf] by blast
    have "region r l" using g fl follow_solid [OF wf] by (auto simp: good_def)
    then show ?thesis
      using receive_loop_confined [OF wf _ fp] nf Ret o
      by (simp add: receive_file_def on_disk_def bindE_def liftE_def)
  qed (use nf o confined_refl [OF wf] in \<open>simp_all add: receive_file_def on_disk_def bindE_def\<close>)
qed

section \<open>Handlers\<close>

lemma hoare_os_reads:
  assumes "reads m" shows "hoare (session_inv r os0) P (on_os m) (\<lambda>_. P)"
proof (rule hoareI)
  fix w rr w'
  assume w: "session_inv r os0 w" "P w" and e: "on_os m w = (rr, w')"
  obtain a os where m: "m (fs_os w) = (a, os)" by (cases "m (fs_os w)")
  then have "os = fs_os w" using readsD [OF assms] by blast
  then have "w' = w" using e m by (simp add: on_os_def)
  then show "session_inv r os0 w' \<and> (\<forall>x. rr = Ret x \<longrightarrow> P w')" using w by simp
qed

lemmas hoare_query = reads_queries [THEN hoare_os_reads]

lemma hoare_login:
  "hoare (session_inv r os0) P m (\<lambda>_ _. True) \<Longrightarrow>
     hoare (session_inv r os0) P (need_login m) (\<lambda>_ _. True)"
  unfolding need_login_def
  by (rule hoare_bindE [OF hoare_getE]) (auto intro!: hoare_ret elim: hoare_weaken)

text \<open>Downloads and listings only read.\<close>

definition same_os :: "os \<times> sock \<Rightarrow> os \<times> sock \<Rightarrow> bool" where
  "same_os s t \<longleftrightarrow> fst t = fst s"

lemma same_os_trans: "same_os a b \<Longrightarrow> same_os b c \<Longrightarrow> same_os a c"
  by (simp add: same_os_def)

lemmas same_os_bindE = preserves_bindE [OF _ _ same_os_trans]

lemma same_os_disk: "reads m \<Longrightarrow> preserves same_os (on_disk m)"
  by (auto simp: preserves_def same_os_def on_disk_def dest: readsD split: prod.splits)

lemma same_os_basic:
  "preserves same_os (ret x)" "preserves same_os (getE f)" "preserves same_os (liftE q)"
  by (simp_all add: preserves_def same_os_def eff_simps)

lemma same_os_send: "preserves same_os (send_once t)"
  by (auto simp: preserves_def same_os_def send_once_def split: prod.splits outcome.splits)

lemma same_os_listing: "preserves same_os (send_listing es)"
  using same_os_send by (simp add: preserves_def send_listing_def)

lemma reads_buffered: "reads (new_AsyncFileBuffered p)"
  unfolding reads_def using new_buffered_fp by (metis prod.collapse)

lemma same_os_loop: "fst (snd (send_loop f t n (os, k))) = os"
proof (induction f t n "(os, k)" arbitrary: k rule: send_loop.induct)
  case (1 f t n k)
  obtain bs f' where rd: "af_read (min BUFFER_SIZE (n - t)) f os = (bs, f')"
    by (cases "af_read (min BUFFER_SIZE (n - t)) f os")
  obtain a k1 where c: "send_chunk bs k = (a, k1)" by (cases "send_chunk bs k")
  show ?case
  proof (cases "t < n \<and> bs \<noteq> [] \<and> a = Ret ()")
    case True
    then have "send_loop f t n (os, k) = send_loop f' (t + length bs) n (os, k1)"
      using rd c by (subst send_loop.simps) simp
    then show ?thesis using 1 [OF _ rd [symmetric] _ c [symmetric]] True by simp
  next
    case False
    then show ?thesis using rd c by (subst send_loop.simps) (auto split: outcome.splits)
  qed
qed

lemma same_os_send_file: "preserves same_os (send_file p off n)"
  unfolding send_file_def
proof (intro same_os_bindE same_os_disk reads_buffered same_os_basic)
  show "preserves same_os (send_loop f 0 n)" for f
    using same_os_loop [of f 0 n] by (auto simp: preserves_def same_os_def)
qed

lemma list_body_same: "preserves same_os (list_body api st p d)"
  unfolding list_body_def send_directory_listing_def Let_def
  by (intro same_os_bindE same_os_basic)
     (simp_all add: same_os_basic same_os_disk same_os_bindE same_os_send same_os_listing reads_queries)

lemma retr_body_same: "preserves same_os (retr_body st p)"
  unfolding retr_body_def
  by (intro same_os_bindE same_os_basic)
     (simp_all add: same_os_basic same_os_disk same_os_bindE same_os_send_file reads_queries)

lemma hoare_same_os:
  assumes "preserves same_os m"
  shows "hoare (session_inv r os0) P (with_data k m) (\<lambda>_ _. True)"
proof (rule hoare_with_data)
  fix w assume "session_inv r os0 w"
  then show "confined r (fs_os w) (fst (snd (m (fs_os w, k))))"
    using preservesD [OF assms, of "(fs_os w, k)"] confined_refl [OF inv_wf]
    by (auto simp: same_os_def)
qed

lemma hoare_stor:
  "hoare (session_inv r os0) (\<lambda>w. P w \<and> st = fs_state w) (with_data k (stor_body st name)) (\<lambda>_ _. True)"
proof (rule hoare_with_data)
  fix w assume i: "session_inv r os0 w" and "P w \<and> st = fs_state w"
  then have st: "st = fs_state w" by simp
  let ?p = "resolve (fs_os w) (st_current_directory st) (st_root_directory st) name"
  show "confined r (fs_os w) (fst (snd (stor_body st name (fs_os w, k))))"
  proof (cases "?p = []")
    case True
    then show ?thesis
      using confined_refl [OF inv_wf [OF i]] by (simp add: stor_body_def bindE_def getE_def ret_def)
  next
    case False
    then have "good r (fs_os w) ?p" using resolve_good [OF i refl] st by simp
    then have "confined r (fs_os w) (fst (snd (receive_file ?p False SIZE_MAX (fs_os w, k))))"
      using receive_file_confined [OF inv_wf [OF i]] by blast
    then show ?thesis
      using False by (auto simp: stor_body_def bindE_def getE_def ret_def split: prod.splits outcome.splits)
  qed
qed

lemma hoare_execute:
  "hoare (session_inv r os0) P (execute_list api p d) (\<lambda>_ _. True)"
  "hoare (session_inv r os0) P (execute_retr api p) (\<lambda>_ _. True)"
  "hoare (session_inv r os0) P (execute_stor api p) (\<lambda>_ _. True)"
proof -
  have fin: "hoare (session_inv r os0) (\<lambda>_. True)
      (case x of None \<Rightarrow> ret (FileUnavailable, msg)
       | Some bytes \<Rightarrow> bindE (on_state (count_bytes bytes)) (\<lambda>_. ret (FileActionCompleted, transfer_complete bytes)))
      (\<lambda>_ _. True)" for x msg
    by (cases x) (auto simp: count_bytes_def intro!: hoare_done hoare_bindE [OF hoare_state])
  show "hoare (session_inv r os0) P (execute_list api p d) (\<lambda>_ _. True)"
    unfolding execute_list_def
    by (intro hoare_bindE [OF hoare_send] hoare_bindE [OF hoare_establish] hoare_bindE [OF hoare_getE]
        hoare_same_os list_body_same)
  show "hoare (session_inv r os0) P (execute_retr api p) (\<lambda>_ _. True)"
    unfolding execute_retr_def
    by (intro hoare_bindE [OF hoare_send] hoare_bindE [OF hoare_establish] hoare_bindE [OF hoare_getE]
        hoare_bindE [OF hoare_same_os [OF retr_body_same]] fin)
  show "hoare (session_inv r os0) P (execute_stor api p) (\<lambda>_ _. True)"
    unfolding execute_stor_def
    by (intro hoare_bindE [OF hoare_send] hoare_bindE [OF hoare_establish] hoare_bindE [OF hoare_getE]
        hoare_bindE [OF hoare_stor] fin)
qed

text \<open>A handler that resolves its argument and works on the path if there is one.\<close>

lemma hoare_on_path:
  assumes "\<And>p. p \<noteq> [] \<Longrightarrow> hoare (session_inv r os0) (\<lambda>w. P w \<and> good r (fs_os w) p) (f p) (\<lambda>_ _. True)"
  shows "hoare (session_inv r os0) P (bindE (session_resolve arg) (\<lambda>p. if p = [] then ret x else f p))
    (\<lambda>_ _. True)"
proof (rule hoare_bindE [OF hoare_resolve])
  fix p
  show "hoare (session_inv r os0) (\<lambda>w. P w \<and> (p \<noteq> [] \<longrightarrow> good r (fs_os w) p))
      (if p = [] then ret x else f p) (\<lambda>_ _. True)"
    using assms [of p] by (cases "p = []") (auto intro: hoare_done)
qed

lemma hoare_dele: "hoare (session_inv r os0) P (handle_dele api arg) (\<lambda>_ _. True)"
  unfolding handle_dele_def
proof (intro hoare_login hoare_on_path hoare_bindE [OF hoare_query(2)] hoare_bindE hoare_done)
  fix p b
  show "hoare (session_inv r os0) (\<lambda>w. P w \<and> good r (fs_os w) p)
      (if b then on_os (remove_directory p) else on_os (remove_file p)) (\<lambda>_ _. True)"
    by (auto intro!: hoare_on_os confined_delete intro: inv_wf)
qed

lemma hoare_rmd: "hoare (session_inv r os0) P (handle_rmd api arg) (\<lambda>_ _. True)"
  unfolding handle_rmd_def
proof (intro hoare_login hoare_on_path hoare_bindE hoare_done)
  show "hoare (session_inv r os0) (\<lambda>w. P w \<and> good r (fs_os w) p) (on_os (remove_directory p)) (\<lambda>_ _. True)" for p
    by (auto intro!: hoare_on_os confined_delete(2) intro: inv_wf)
qed

lemma hoare_mkd: "hoare (session_inv r os0) P (handle_mkd api arg) (\<lambda>_ _. True)"
  unfolding handle_mkd_def
proof (intro hoare_login hoare_on_path hoare_bindE hoare_done)
  show "hoare (session_inv r os0) (\<lambda>w. P w \<and> good r (fs_os w) p) (on_os (create_directory p)) (\<lambda>_ _. True)" for p
  proof (rule hoare_on_os)
    fix w assume i: "session_inv r os0 w" and "P w \<and> good r (fs_os w) p"
    then have "snd (create_directory p (fs_os w)) = fs_os w"
      using create_nothing [OF inv_wf [OF i]] by blast
    then show "confined r (fs_os w) (snd (create_directory p (fs_os w)))"
      using confined_refl [OF inv_wf [OF i]] by simp
  qed
qed

lemma hoare_rnfr: "hoare (session_inv r os0) P (handle_rnfr api arg) (\<lambda>_ _. True)"
  unfolding handle_rnfr_def
  by (intro hoare_login hoare_on_path hoare_bindE hoare_done hoare_weaken [OF hoare_rename_from]) simp_all

lemma hoare_rnto: "hoare (session_inv r os0) P (handle_rnto api arg) (\<lambda>_ _. True)"
  unfolding handle_rnto_def
proof (intro hoare_login hoare_bindE [OF hoare_getE])
  fix src
  have mv: "hoare (session_inv r os0)
      (\<lambda>w. (P w \<and> src = st_rename_from_path (fs_state w)) \<and> good r (fs_os w) q)
      (on_os (rename src q)) (\<lambda>_ _. True)" if "src \<noteq> []" for q
    by (rule hoare_on_os) (use that in \<open>auto intro!: confined_move intro: inv_wf simp: session_inv_def\<close>)
  show "hoare (session_inv r os0) (\<lambda>w. P w \<and> src = st_rename_from_path (fs_state w))
      (if src = [] then ret (BadSequence, ''RNFR required first'')
       else if arg = [] then ret (ParameterSyntaxError, ''Missing destination name'')
       else bindE (session_resolve arg) (\<lambda>dst.
          if dst = [] then ret (FileUnavailable, ''Invalid destination path'')
          else bindE (on_os (rename src dst)) (\<lambda>_. ret (FileActionCompleted, ''Rename successful''))))
      (\<lambda>_ _. True)"
    by (auto intro!: hoare_done hoare_on_path hoare_bindE [OF mv])
qed

lemma hoare_cwd: "hoare (session_inv r os0) P (handle_cwd api arg) (\<lambda>_ _. True)"
  unfolding handle_cwd_def
proof (intro hoare_login hoare_bindE [OF hoare_resolve])
  fix p
  have q: "hoare (session_inv r os0) Q (if p = [] then ret False else on_os (fs_exists p)) (\<lambda>_. Q)" for Q
    by (auto intro: hoare_ret hoare_query)
  show "hoare (session_inv r os0) (\<lambda>w. P w \<and> (p \<noteq> [] \<longrightarrow> good r (fs_os w) p))
     (bindE (if p = [] then ret False else on_os (fs_exists p)) (\<lambda>there.
        if \<not> there then ret (FileUnavailable, ''Directory not found'')
        else
          bindE (on_os (fs_is_directory p)) (\<lambda>is_dir.
          if \<not> is_dir then ret (FileUnavailable, ''Not a directory'')
          else
            bindE (on_state (\<lambda>st. st\<lparr>st_current_directory := p\<rparr>)) (\<lambda>_.
            ret (CWD_pub, ''Directory changed''))))) (\<lambda>_ _. True)"
    by (rule hoare_bindE [OF q])
       (auto intro!: hoare_done hoare_bindE [OF hoare_query(2)] hoare_bindE [OF hoare_state])
qed

lemma hoare_size: "hoare (session_inv r os0) P (handle_size api arg) (\<lambda>_ _. True)"
  unfolding handle_size_def
  by (intro hoare_login hoare_on_path hoare_bindE [OF hoare_query(2)])
     (auto intro!: hoare_done hoare_bindE [OF hoare_query(3)])

lemma hoare_port: "hoare (session_inv r os0) P (handle_port api arg) (\<lambda>_ _. True)"
  unfolding handle_port_def Let_def
  by (cases "port_fields arg")
     (auto intro!: hoare_done hoare_bindE [OF hoare_liftE] hoare_bindE [OF hoare_state])

lemma hoare_quit: "hoare (session_inv r os0) P (modE (\<lambda>w. w\<lparr>fs_active := False\<rparr>)) (\<lambda>_ _. True)"
  by (auto simp: hoare_def modE_def)

lemma hoare_pwd: "hoare (session_inv r os0) P (handle_pwd api arg) (\<lambda>_ _. True)"
  unfolding handle_pwd_def Let_def
  by (intro hoare_login hoare_bindE [OF hoare_getE] hoare_bindE [OF hoare_query(6)] hoare_done)

lemma hoare_simple:
  "hoare (session_inv r os0) P (handle_user api arg) (\<lambda>_ _. True)"
  "hoare (session_inv r os0) P (handle_pass api arg) (\<lambda>_ _. True)"
  "hoare (session_inv r os0) P (handle_quit api arg) (\<lambda>_ _. True)"
  "hoare (session_inv r os0) P (handle_pasv api arg) (\<lambda>_ _. True)"
  "hoare (session_inv r os0) P (handle_type api arg) (\<lambda>_ _. True)"
  "hoare (session_inv r os0) P (handle_mdtm api arg) (\<lambda>_ _. True)"
  "hoare (session_inv r os0) P (handle_noop api arg) (\<lambda>_ _. True)"
  "hoare (session_inv r os0) P (handle_feat api arg) (\<lambda>_ _. True)"
  "hoare (session_inv r os0) P (handle_opts api arg) (\<lambda>_ _. True)"
  "hoare (session_inv r os0) P (handle_list api arg) (\<lambda>_ _. True)"
  "hoare (session_inv r os0) P (handle_nlst api arg) (\<lambda>_ _. True)"
  "hoare (session_inv r os0) P (handle_retr api arg) (\<lambda>_ _. True)"
  "hoare (session_inv r os0) P (handle_stor api arg) (\<lambda>_ _. True)"
  by (auto simp: handler_defs intro!: hoare_done hoare_login hoare_execute hoare_bindE [OF hoare_state]
      hoare_bindE [OF hoare_quit] hoare_bindE [OF hoare_manager] hoare_bindE [OF hoare_getE])

lemma hoare_handler:
  "map_of handlers c = Some h \<Longrightarrow> hoare (session_inv r os0) P (h api arg) (\<lambda>_ _. True)"
proof (erule handlers_cases)
  fix g :: handler
  assume "g \<in> {handle_user, handle_pass, handle_quit, handle_port, handle_pasv, handle_list,
      handle_nlst, handle_retr, handle_stor, handle_dele, handle_rnfr, handle_rnto, handle_cwd,
      handle_pwd, handle_mkd, handle_rmd, handle_type, handle_size, handle_mdtm, handle_noop,
      handle_feat, handle_opts}"
  then have "hoare (session_inv r os0) P (g api a) (\<lambda>_ _. True)" for a
    by (auto intro: hoare_simple hoare_dele hoare_rmd hoare_mkd hoare_rnfr hoare_rnto hoare_cwd
        hoare_size hoare_port hoare_pwd)
  then show "hoare (session_inv r os0) P (g api arg) (\<lambda>_ _. True)
      \<and> hoare (session_inv r os0) P (g api ''..'') (\<lambda>_ _. True)" by blast
qed

section \<open>Commands and sessions\<close>

lemma hoare_process: "hoare (session_inv r os0) P (process_command api raw) (\<lambda>_ _. True)"
proof -
  have c: "hoare (session_inv r os0) Q (caught (h api a)) (\<lambda>_ _. True)"
    if "map_of handlers c = Some h" for c h a Q
    unfolding caught_def by (intro hoare_tryE hoare_handler [OF that] hoare_done)
  have d: "hoare (session_inv r os0) Q
      (case map_of handlers c of None \<Rightarrow> ret x | Some h \<Rightarrow> caught (h api a)) (\<lambda>_ _. True)" for c x a Q
    by (cases "map_of handlers c") (simp_all add: hoare_done c)
  show ?thesis
    unfolding process_command_def Let_def
    by (rule hoare_bindE [OF hoare_liftE]) (simp_all add: hoare_done d)
qed

lemma hoare_read_command: "hoare (session_inv r os0) P read_command (\<lambda>_ _. True)"
proof (rule hoareI)
  fix w rr w'
  assume "session_inv r os0 w" and "read_command w = (rr, w')"
  then show "session_inv r os0 w' \<and> (\<forall>x. rr = Ret x \<longrightarrow> True)"
    using read_command_frame [of w] by (simp add: session_inv_def)
qed

lemma hoare_one: "hoare (session_inv r os0) P (process_one_command api) (\<lambda>_ _. True)"
proof -
  have e: "hoare (session_inv r os0) (\<lambda>_. True)
      (if b then modE (\<lambda>w. w\<lparr>fs_active := False\<rparr>) else ret ()) (\<lambda>_ _. True)" for b
    by (simp add: hoare_quit hoare_done)
  have d: "hoare (session_inv r os0) (\<lambda>_. True)
      (case cm of (code, message) \<Rightarrow> bindE (send_response api code message) (\<lambda>_.
        if response_code code = response_code ServiceClosingControl
        then modE (\<lambda>w. w\<lparr>fs_active := False\<rparr>) else ret ())) (\<lambda>_ _. True)" for cm
    by (cases cm) (simp add: hoare_bindE [OF hoare_send e])
  show ?thesis
    unfolding process_one_command_def
  proof (rule hoare_bindE [OF hoare_read_command])
    fix line
    show "hoare (session_inv r os0) (\<lambda>_. True)
      (if line = [] then ret () else bindE (process_command api line) (\<lambda>(code, message).
       bindE (send_response api code message) (\<lambda>_.
       if response_code code = response_code ServiceClosingControl
       then modE (\<lambda>w. w\<lparr>fs_active := False\<rparr>) else ret ()))) (\<lambda>_ _. True)"
      by (cases "line = []") (simp_all only: simp_thms if_True if_False hoare_done hoare_bindE [OF hoare_process d])
  qed
qed

lemma session_loop_inv: "session_inv r os0 w \<Longrightarrow> session_inv r os0 (snd (session_loop api w))"
proof (induction api w rule: session_loop.induct)
  case (1 api w)
  obtain a w1 where s: "process_one_command api w = (a, w1)" by (cases "process_one_command api w")
  then have w1: "session_inv r os0 w1" using hoareD [OF hoare_one 1(2), of "\<lambda>_. True" api] by simp
  show ?case
  proof (cases "fs_active w")
    case True
    then show ?thesis
      using 1(1) [OF True s [symmetric] _ w1] s w1
      by (subst session_loop.simps) (auto split: outcome.splits)
  next
    case False
    then show ?thesis using 1(2) by (subst session_loop.simps) simp
  qed
qed

lemma start_inv: "session_inv r os0 w \<Longrightarrow> session_inv r os0 (snd (start api w))"
proof -
  assume i: "session_inv r os0 w"
  obtain a w1 where s: "send_response api ServiceReady ''FTP Server ready'' w = (a, w1)"
    by (cases "send_response api ServiceReady ''FTP Server ready'' w")
  then have "session_inv r os0 w1" using hoareD [OF hoare_send i, of "\<lambda>_. True"] by (metis snd_conv)
  then show ?thesis using s session_loop_inv by (cases a) (simp_all add: start_def bindE_def)
qed

lemma new_session_inv:
  assumes wf: "wf_os os" and n: "new_FTPSession k n root_dir os = (Ret w, os')"
  shows "\<exists>r. follow os root_dir = Inr r \<and> session_inv r os w"
proof -
  obtain c where c: "canonical os root_dir = Inr c"
    using n by (auto simp: new_FTPSession_def fs_canonical_def or_throw_def bindE_def split: sum.splits)
  then obtain r where r: "follow os root_dir = Inr r" "c = loc_str r" "solid os r"
    using canonical_cases by blast
  have "fs_os w = os" "st_root_directory (fs_state w) = loc_str r" "st_rename_from_path (fs_state w) = []"
    using n c r by (auto simp: new_FTPSession_def fs_canonical_def or_throw_def bindE_def initial_state_def)
  then have "session_inv r os w"
    using confined_refl [OF wf] solid_valid [OF wf r(3)] linkless_solid [OF wf r(3)]
    by (simp add: session_inv_def remembered_def)
  then show ?thesis using r(1) by blast
qed

text \<open>
  C1: Whatever a client sends over a whole FTP session, for any behaviour of the network: the
  file system stays well formed, every location that is neither in the root directory nor
  beside it under a name extending the root's is unchanged, and no location exists afterwards
  that did not exist before (a session can delete and overwrite, but not create).
\<close>

theorem session_confined:
  assumes "wf_os os" and "new_FTPSession k n root_dir os = (Ret w, os')"
    and "follow os root_dir = Inr r" and "start api w = (res, w')"
  shows "wf_os (fs_os w')
    \<and> (\<forall>l. \<not> below r l \<and> \<not> beside r l \<longrightarrow> lookup (fs_os w') l = lookup os l)
    \<and> (\<forall>l. lookup (fs_os w') l \<noteq> None \<longrightarrow> lookup os l \<noteq> None)"
proof -
  have "session_inv r os w" using new_session_inv [OF assms(1,2)] assms(3) by auto
  then have "session_inv r os w'" using start_inv [of r os w api] assms(4) by simp
  then show ?thesis by (simp add: session_inv_def confined_def region_def)
qed

definition sample_session :: "(exn + string) list \<Rightarrow> FTPSession" where
  "sample_session script =
     \<lparr>fs_state = initial_state (loc_str (''D:'', [''ftp''])) 0, fs_active = True,
      fs_control = idle_sock\<lparr>to_read := script\<rparr>, fs_buffer = [], fs_manager = new_manager open_net,
      fs_os = sample_os\<rparr>"

lemma new_sample_session:
  "new_FTPSession (idle_sock\<lparr>to_read := script\<rparr>) open_net served sample_os =
     (Ret (sample_session script), sample_os)"
proof -
  have "now sample_os = 0" by (simp add: sample_os_def)
  then show ?thesis
    by (simp add: new_FTPSession_def fs_canonical_def or_throw_def canonical_def follow_served bindE_def
        sample_session_def)
qed

lemma session_confined_witness:
  "lookup (fs_os (snd (start latin_api (sample_session
       [Inr (''USER a'' @ crlf), Inr (''PASS b'' @ crlf), Inr (''DELE .'' @ crlf)])))) (''D:'', []) =
     Some (Directory plain_attr)"
proof -
  let ?w = "sample_session [Inr (''USER a'' @ crlf), Inr (''PASS b'' @ crlf), Inr (''DELE .'' @ crlf)]"
  obtain res w' where s: "start latin_api ?w = (res, w')" by (cases "start latin_api ?w")
  have "lookup sample_os (''D:'', []) = Some (Directory plain_attr)"
    by (simp add: lookup_def sample_os_def)
  then show ?thesis
    using session_confined [OF wf_sample_os new_sample_session follow_served s] s
    by (simp add: below_def beside_def name_extends_def)
qed

end
