(* ===== verification/FtpTyped.thy ===== *)
theory FtpTyped
  imports FtpConfine
begin

text \<open>
  The states a client can bring an FTP session into: a type invariant of \<open>FTPSessionState\<close> that every
  handler, the transfers and the whole loop keep; and that nothing changes a file before a login.
\<close>

section \<open>The type\<close>

text \<open>
  A host that the regular expression of PORT has matched: four runs of digits with dots between
  them. They need not be an address: no run has a bound.
\<close>

definition dotted :: "string \<Rightarrow> bool" where
  "dotted host \<longleftrightarrow> (\<exists>a b c d. list_all (\<lambda>p. p \<noteq> [] \<and> all_digits p) [a, b, c, d]
     \<and> host = a @ ''.'' @ b @ ''.'' @ c @ ''.'' @ d)"

definition state_typed :: "path \<Rightarrow> FTPSessionState \<Rightarrow> bool" where
  "state_typed root st \<longleftrightarrow>
     st_root_directory st = root
     \<and> st_permission st = (if st_authenticated st then PermWRITE else PermNONE)
     \<and> st_representation_type st \<in> {''I'', ''A''}
     \<and> st_transfer_mode st = IMAGE
     \<and> st_data_conn_port st < 2 ^ 16
     \<and> (if st_data_conn_type st = ACTIVE then dotted (st_data_conn_host st)
        else st_data_conn_host st = [] \<and> st_data_conn_port st = 0)
     \<and> (\<not> st_authenticated st \<longrightarrow> st_current_directory st = root \<and> st_rename_from_path st = []
          \<and> st_bytes_transferred st = 0)"

definition keeps_typed :: "FTPSession \<Rightarrow> FTPSession \<Rightarrow> bool" where
  "keeps_typed w w' \<longleftrightarrow>
     (\<forall>root. state_typed root (fs_state w) \<longrightarrow> state_typed root (fs_state w'))
     \<and> (st_authenticated (fs_state w) \<longrightarrow> st_authenticated (fs_state w'))"

named_theorems typed_intros \<open>calls that keep the type of the session state\<close>

lemma keeps_typed_trans: "keeps_typed a b \<Longrightarrow> keeps_typed b c \<Longrightarrow> keeps_typed a c"
  by (simp add: keeps_typed_def)

lemmas keeps_typed_bindE [typed_intros] = preserves_bindE [OF _ _ keeps_typed_trans]

lemma keeps_typed_basic [typed_intros]:
  "preserves keeps_typed (ret x)" "preserves keeps_typed (raise e)" "preserves keeps_typed (getE f)"
  "preserves keeps_typed (liftE r)" "preserves keeps_typed (on_os m)" "preserves keeps_typed (on_manager n)"
  "preserves keeps_typed (on_control c)"
  "preserves keeps_typed (with_data k d)" "preserves keeps_typed (modE (\<lambda>w. w\<lparr>fs_active := b\<rparr>))"
  by (simp_all add: preserves_def keeps_typed_def eff_simps on_os_def on_manager_def on_control_def
      with_data_def close_data_def Let_def split: prod.splits)

lemma keeps_typed_state:
  "(\<And>root st. state_typed root st \<Longrightarrow> state_typed root (f st)) \<Longrightarrow>
     (\<And>st. st_authenticated st \<Longrightarrow> st_authenticated (f st)) \<Longrightarrow> preserves keeps_typed (on_state f)"
  by (simp add: preserves_def keeps_typed_def on_state_def eff_simps)

lemma keeps_typed_send [typed_intros]: "preserves keeps_typed (send_response api code msg)"
  unfolding send_response_def by (intro typed_intros)

lemma keeps_typed_establish [typed_intros]: "preserves keeps_typed establish_data_connection"
  unfolding establish_data_connection_def
  by (intro keeps_typed_bindE) (auto intro!: typed_intros split: DataConnectionType.splits option.splits)

section \<open>Handlers\<close>

text \<open>
  After the check of the login a state may also take a directory, a name to rename or a count of
  bytes; \<open>on_login\<close> is the relation for what runs there.
\<close>

definition on_login :: "FTPSession \<Rightarrow> FTPSession \<Rightarrow> bool" where
  "on_login w w' \<longleftrightarrow> (st_authenticated (fs_state w) \<longrightarrow> keeps_typed w w')"

lemma on_login_trans: "on_login a b \<Longrightarrow> on_login b c \<Longrightarrow> on_login a c"
  by (simp add: on_login_def keeps_typed_def)

lemmas on_login_bindE = preserves_bindE [OF _ _ on_login_trans]

lemma on_login_typed: "preserves keeps_typed m \<Longrightarrow> preserves on_login m"
  by (simp add: preserves_def on_login_def)

lemma on_login_state:
  assumes "\<And>root st. state_typed root st \<Longrightarrow> st_authenticated st \<Longrightarrow> state_typed root (f st)"
    and "\<And>st. st_authenticated (f st) = st_authenticated st"
  shows "preserves on_login (on_state f)"
  using assms by (simp add: preserves_def on_login_def keeps_typed_def on_state_def eff_simps)

lemma on_login_fields:
  "preserves on_login (on_state (\<lambda>st. st\<lparr>st_current_directory := p\<rparr>))"
  "preserves on_login (on_state (\<lambda>st. st\<lparr>st_rename_from_path := p\<rparr>))"
  "preserves on_login (on_state (count_bytes n))"
  by (rule on_login_state; simp add: state_typed_def count_bytes_def)+

lemma on_login_basic:
  "preserves on_login (ret x)" "preserves on_login (raise e)" "preserves on_login (getE f)"
  "preserves on_login (liftE r)" "preserves on_login (on_os m)" "preserves on_login (with_data k d)"
  "preserves on_login (send_response api code msg)" "preserves on_login establish_data_connection"
  by (rule on_login_typed, intro typed_intros)+

lemma need_login_typed:
  assumes "preserves on_login m" shows "preserves keeps_typed (need_login m)"
proof (rule preservesI)
  fix w
  show "keeps_typed w (snd (need_login m w))"
    using preservesD [OF assms, of w]
    by (simp add: need_login_def bindE_def getE_def ret_def on_login_def keeps_typed_def)
qed

lemma on_login_execute:
  "preserves on_login (execute_list api p d)" "preserves on_login (execute_retr api p)"
  "preserves on_login (execute_stor api p)"
  unfolding execute_list_def execute_retr_def execute_stor_def
  by (intro on_login_bindE; auto intro!: on_login_basic on_login_fields on_login_bindE split: option.splits)+

lemma typed_port: "preserves keeps_typed (handle_port api arg)"
proof (cases "port_fields arg")
  case (Some m)
  then have m: "length m = 6" "list_all (\<lambda>p. p \<noteq> [] \<and> all_digits p) m"
    by (auto simp: port_fields_def Let_def split: if_splits)
  then obtain a b c d e f where l: "m = [a, b, c, d, e, f]"
    by (auto simp: numeral_eq_Suc length_Suc_conv)
  let ?host = "a @ CHR ''.'' # b @ CHR ''.'' # c @ CHR ''.'' # d"
  have h: "dotted ?host" unfolding dotted_def using m(2) l by (intro exI conjI) auto
  have p: "port_number p1 p2 < 2 ^ 16" for p1 p2
    using unsigned_less [of "push_bit 8 (word_of_int p1) OR word_of_int p2 :: 16 word"] by (simp add: port_number_def)
  have tail: "preserves keeps_typed
      (bindE (on_state (\<lambda>st. st\<lparr>st_data_conn_host := ?host, st_data_conn_port := port_number p1 p2\<rparr>)) (\<lambda>_.
       bindE (on_state (\<lambda>st. st\<lparr>st_data_conn_type := ACTIVE\<rparr>)) (\<lambda>_. ret x)))" for p1 p2 and x :: reply
    using h p
    by (auto simp: preserves_def bindE_def on_state_def modE_def ret_def keeps_typed_def state_typed_def)
  show ?thesis
    unfolding handle_port_def
    by (simp add: Some Let_def l) (rule keeps_typed_bindE [OF keeps_typed_basic(4)], rule keeps_typed_bindE [OF keeps_typed_basic(4)], rule tail)
qed (simp add: handle_port_def keeps_typed_basic)

lemma typed_session_fields:
  "preserves keeps_typed (on_state (\<lambda>st. st\<lparr>st_username := a\<rparr>))"
  "preserves keeps_typed (on_state (\<lambda>st. st\<lparr>st_representation_type := ''I''\<rparr>))"
  "preserves keeps_typed (on_state (\<lambda>st. st\<lparr>st_representation_type := ''A''\<rparr>))"
  "preserves keeps_typed (on_state (\<lambda>st. st\<lparr>st_authenticated := True, st_permission := PermWRITE\<rparr>))"
  by (rule keeps_typed_state; simp add: state_typed_def)+

lemma typed_member:
  assumes "g \<in> {handle_user, handle_pass, handle_quit, handle_port, handle_pasv, handle_list,
      handle_nlst, handle_retr, handle_stor, handle_dele, handle_rnfr, handle_rnto, handle_cwd,
      handle_pwd, handle_mkd, handle_rmd, handle_type, handle_size, handle_mdtm, handle_noop,
      handle_feat, handle_opts}"
  shows "preserves keeps_typed (g api a)"
  using assms
  by (elim insertE emptyE; hypsubst?)
     (auto simp: handler_defs [unfolded handle_port_def] session_resolve_def Let_def typed_port
       intro!: need_login_typed on_login_bindE on_login_basic on_login_fields on_login_execute
         typed_session_fields typed_intros
       split: prod.splits)

lemma typed_handler: "map_of handlers c = Some h \<Longrightarrow> preserves keeps_typed (h api arg)"
  by (erule handlers_cases) (intro conjI typed_member, assumption+)

section \<open>Sessions\<close>

lemma typed_process: "preserves keeps_typed (process_command api raw)"
proof -
  have c: "preserves keeps_typed (caught (h api a))" if "map_of handlers c = Some h" for c h a
    unfolding caught_def
    by (rule preserves_tryE [OF typed_handler [OF that] _ keeps_typed_trans]) (rule keeps_typed_basic)
  have d: "preserves keeps_typed
      (case map_of handlers c of None \<Rightarrow> ret r | Some h \<Rightarrow> caught (h api a))" for c r a
    by (cases "map_of handlers c") (simp_all add: keeps_typed_basic(1) c)
  show ?thesis
    unfolding process_command_def Let_def
    by (rule keeps_typed_bindE) (simp_all add: keeps_typed_basic d)
qed

lemma typed_one: "preserves keeps_typed (process_one_command api)"
proof -
  have "preserves keeps_typed read_command"
    using read_command_frame by (simp add: preserves_def keeps_typed_def)
  then show ?thesis
    unfolding process_one_command_def
    by (intro keeps_typed_bindE) (auto intro!: typed_intros typed_process split: prod.splits)
qed

text \<open>What every command keeps, the loop and the session keep.\<close>

lemma loop_keeps:
  assumes one: "preserves R (process_one_command api)" and refl: "\<And>w. R w w"
    and trans: "\<And>a b c. R a b \<Longrightarrow> R b c \<Longrightarrow> R a c"
  shows "R w (snd (session_loop api w))"
  using one
proof (induction api w rule: session_loop.induct)
  case (1 api w)
  obtain r w1 where s: "process_one_command api w = (r, w1)" by (cases "process_one_command api w")
  then have w1: "R w w1" using preservesD [OF 1(2), of w] by simp
  show ?case
  proof (cases "fs_active w")
    case True
    moreover have "R w1 (snd (session_loop api w1))" if "r = Ret ()"
      using 1(1) [OF True s [symmetric] that 1(2)] .
    ultimately show ?thesis
      using s w1 trans by (subst session_loop.simps) (auto split: outcome.splits)
  next
    case False
    then show ?thesis by (subst session_loop.simps) (simp add: refl)
  qed
qed

lemma start_keeps:
  assumes "preserves R (process_one_command api)" "\<And>w. R w w" "\<And>a b c. R a b \<Longrightarrow> R b c \<Longrightarrow> R a c"
    and "preserves R (send_response api ServiceReady ''FTP Server ready'')"
  shows "preserves R (start api)"
  unfolding start_def
  using assms(4) by (rule preserves_bindE) (auto intro: preservesI loop_keeps assms(1-3))

text \<open>
  C7: The state of a session keeps its type whatever a client sends: the root never changes, the
  permission is WRITE exactly when logged in and never another, the representation type is I or A,
  the transfer mode stays IMAGE, an active data connection goes to a host that PORT has matched at a
  port of 16 bits, and before a login no directory, rename source or transfer is recorded.
\<close>

theorem session_state_typed:
  assumes "new_FTPSession k n root_dir os = (Ret w, os')"
  shows "state_typed (st_root_directory (fs_state w)) (fs_state (snd (start api w)))"
proof -
  have "state_typed (st_root_directory (fs_state w)) (fs_state w)"
    using assms
    by (auto simp: new_FTPSession_def fs_canonical_def or_throw_def bindE_def initial_state_def state_typed_def
        split: sum.splits)
  moreover have "preserves keeps_typed (start api)"
    by (rule start_keeps [OF typed_one _ _ keeps_typed_send], simp add: keeps_typed_def, erule (1) keeps_typed_trans)
  ultimately show ?thesis using preservesD [of keeps_typed "start api" w] by (simp add: keeps_typed_def)
qed

lemma session_state_typed_witness:
  "state_typed (loc_str (''D:'', [''ftp''])) (fs_state (snd (start latin_api (sample_session
      [Inr (''USER a'' @ crlf), Inr (''PASS b'' @ crlf), Inr (''TYPE A'' @ crlf)]))))"
  using session_state_typed [OF new_sample_session] by (simp add: sample_session_def initial_state_def)

section \<open>Files change after a login only\<close>

definition login_first :: "FTPSession \<Rightarrow> FTPSession \<Rightarrow> bool" where
  "login_first w w' \<longleftrightarrow> (st_authenticated (fs_state w) \<longrightarrow> st_authenticated (fs_state w'))
     \<and> (\<not> st_authenticated (fs_state w') \<longrightarrow> fs_os w' = fs_os w)"

named_theorems login_intros \<open>calls that leave the files alone, or ask for a login first\<close>

lemma login_first_trans: "login_first a b \<Longrightarrow> login_first b c \<Longrightarrow> login_first a c"
  by (auto simp: login_first_def)

lemmas login_first_bindE [login_intros] = preserves_bindE [OF _ _ login_first_trans]

lemma login_first_basic [login_intros]:
  "preserves login_first (ret x)" "preserves login_first (raise e)" "preserves login_first (getE f)"
  "preserves login_first (liftE r)" "preserves login_first (on_manager n)" "preserves login_first (on_control c)"
  "preserves login_first (modE (\<lambda>w. w\<lparr>fs_active := b\<rparr>))"
  by (simp_all add: preserves_def login_first_def eff_simps on_manager_def on_control_def split: prod.splits)

lemma login_first_state [login_intros]:
  "(\<And>st. st_authenticated st \<Longrightarrow> st_authenticated (f st)) \<Longrightarrow> preserves login_first (on_state f)"
  by (simp add: preserves_def login_first_def on_state_def eff_simps)

lemma login_first_send [login_intros]: "preserves login_first (send_response api code msg)"
  unfolding send_response_def by (intro login_intros)

text \<open>What asks for a login first leaves the files alone without one, and a login is never taken back.\<close>

lemma login_first_need:
  assumes "preserves keeps_typed (need_login m)" shows "preserves login_first (need_login m)"
proof (rule preservesI)
  fix w
  have "st_authenticated (fs_state w) \<longrightarrow> st_authenticated (fs_state (snd (need_login m w)))"
    using preservesD [OF assms, of w] by (simp add: keeps_typed_def)
  then show "login_first w (snd (need_login m w))"
    by (auto simp: login_first_def need_login_def bindE_def getE_def ret_def)
qed

lemma login_first_handler: "map_of handlers c = Some h \<Longrightarrow> preserves login_first (h api arg)"
proof (erule handlers_cases)
  fix g :: handler
  assume g: "g \<in> {handle_user, handle_pass, handle_quit, handle_port, handle_pasv, handle_list,
      handle_nlst, handle_retr, handle_stor, handle_dele, handle_rnfr, handle_rnto, handle_cwd,
      handle_pwd, handle_mkd, handle_rmd, handle_type, handle_size, handle_mdtm, handle_noop,
      handle_feat, handle_opts}"
  have "preserves login_first (g api a)" for a
  proof (cases "\<exists>m. g api a = need_login m")
    case True
    then show ?thesis using login_first_need typed_member [OF g, of api a] by fastforce
  next
    case False
    then have "g \<in> {handle_user, handle_pass, handle_quit, handle_port, handle_pasv, handle_type, handle_mdtm,
        handle_noop, handle_feat, handle_opts}"
      using g unfolding handle_list_def handle_nlst_def handle_retr_def handle_stor_def handle_dele_def
        handle_rnfr_def handle_rnto_def handle_cwd_def handle_pwd_def handle_mkd_def handle_rmd_def handle_size_def
      by auto
    then show ?thesis
      by (elim insertE emptyE; hypsubst?)
         (auto simp: handler_defs Let_def intro!: login_intros split: option.splits prod.splits)
  qed
  then show "preserves login_first (g api arg) \<and> preserves login_first (g api ''..'')" by blast
qed

lemma login_first_process: "preserves login_first (process_command api raw)"
proof -
  have c: "preserves login_first (caught (h api a))" if "map_of handlers c = Some h" for c h a
    unfolding caught_def
    by (rule preserves_tryE [OF login_first_handler [OF that] _ login_first_trans]) (rule login_first_basic)
  have d: "preserves login_first
      (case map_of handlers c of None \<Rightarrow> ret r | Some h \<Rightarrow> caught (h api a))" for c r a
    by (cases "map_of handlers c") (simp_all add: login_first_basic(1) c)
  show ?thesis
    unfolding process_command_def Let_def
    by (rule login_first_bindE) (simp_all add: login_first_basic d)
qed

lemma login_first_one: "preserves login_first (process_one_command api)"
proof -
  have "preserves login_first read_command"
    using read_command_frame by (simp add: preserves_def login_first_def)
  then show ?thesis
    unfolding process_one_command_def
    by (intro login_first_bindE) (auto intro!: login_intros login_first_process split: prod.splits)
qed

text \<open>
  C8: Only a session that logs in changes files: whatever a client sends, when its session ends without
  a login the file system is the one it began with.
\<close>

theorem login_before_changes:
  assumes "new_FTPSession k n root_dir os = (Ret w, os')"
  shows "st_authenticated (fs_state (snd (start api w))) \<or> fs_os (snd (start api w)) = os"
proof -
  have "preserves login_first (start api)"
    by (rule start_keeps [OF login_first_one _ _ login_first_send], simp add: login_first_def, erule (1) login_first_trans)
  moreover have "fs_os w = os"
    using assms by (auto simp: new_FTPSession_def fs_canonical_def or_throw_def bindE_def split: sum.splits)
  ultimately show ?thesis using preservesD [of login_first "start api" w] by (auto simp: login_first_def)
qed

lemma login_before_changes_witness:
  "let w = snd (start latin_api (sample_session [Inr (''DELE a.txt'' @ crlf)]))
   in st_authenticated (fs_state w) \<or> fs_os w = sample_os"
  using login_before_changes [OF new_sample_session] by (simp add: Let_def)

end
