(* ===== verification/FtpProps.thy ===== *)
theory FtpProps
  imports FtpConfine
begin

text \<open>
  What the FTP commands do, command by command: reading a command line, login, the port numbers
  of PORT and PASV, the rename sequence, the end of a session, and how errors are reported.
\<close>

section \<open>Reading a line\<close>

lemma strip_eol_crlf: "LF \<notin> set line \<Longrightarrow> strip_eol (line @ [CR, LF]) = line"
  by (simp add: strip_eol_def butlast_append)

lemma line_split:
  assumes e: "s @ t = line @ crlf @ rest" and line: "LF \<notin> set line" and f: "find_char LF s = Some pos"
  shows "take (pos + 1) s = line @ [CR, LF] \<and> drop (pos + 1) s @ t = rest"
proof -
  have pos: "pos < length s" "LF \<notin> set (take pos s)" "s = take pos s @ LF # drop (Suc pos) s"
    using find_char_Some [OF f] by simp_all
  have "find_char LF (line @ crlf @ rest) = Some (length line + 1)"
    using find_char_append [of LF "line @ [CR]" rest] line by (simp add: crlf_def)
  moreover have "find_char LF (s @ t) = Some pos"
  proof -
    have "s @ t = take pos s @ LF # drop (Suc pos) s @ t" using pos(3) by (metis append_Cons append_assoc)
    moreover have "length (take pos s) = pos" using pos(1) by simp
    ultimately show ?thesis using find_char_append [OF pos(2)] by metis
  qed
  ultimately have p: "pos = length line + 1" using e by simp
  have "take (pos + 1) (s @ t) = line @ [CR, LF]" "drop (pos + 1) (s @ t) = rest"
    unfolding e by (simp_all add: p crlf_def)
  then show ?thesis using pos(1) by simp
qed

text \<open>
  C18: However the network splits the control stream, a command line sent with CR LF is
  delivered whole and without its line end, as long as no other line is waiting in the buffer;
  what follows the line stays, partly in the buffer and partly on the wire.
\<close>

theorem read_command_line:
  "LF \<notin> set (fs_buffer w) \<Longrightarrow> LF \<notin> set line \<Longrightarrow>
     fs_buffer w @ delivered (to_read (fs_control w)) = line @ crlf @ rest \<Longrightarrow>
     \<exists>w'. read_command w = (Ret line, w')
       \<and> fs_buffer w' @ delivered (to_read (fs_control w')) = rest"
proof (induction w rule: read_command.induct)
  case (1 w)
  let ?k = "fs_control w"
  have "delivered (to_read ?k) \<noteq> []"
  proof
    assume "delivered (to_read ?k) = []"
    then have "LF \<in> set (fs_buffer w)" using 1(4) by (simp add: crlf_def)
    then show False using 1(2) by simp
  qed
  then obtain bs k1 where rd: "read_some 1024 ?k = (Ret bs, k1)" by (rule read_some_ready)
  have oc: "on_control (read_some 1024) w = (Ret bs, w\<lparr>fs_control := k1\<rparr>)"
    using rd by (simp add: on_control_def)
  let ?sv = "fs_buffer w @ bs"
  have e: "?sv @ delivered (to_read k1) = line @ crlf @ rest"
    using 1(4) read_some_delivered(1) [OF rd] by simp
  show ?case
  proof (cases "find_char LF ?sv")
    case None
    let ?w1 = "w\<lparr>fs_control := k1, fs_buffer := ?sv\<rparr>"
    have "read_command w = read_command ?w1"
      using None oc by (subst read_command.simps) (simp add: Let_def)
    moreover have "LF \<notin> set ?sv" using None by (simp add: find_char_None)
    ultimately show ?thesis
      using 1(1) [OF oc [symmetric] refl refl] None 1(3) e by simp
  next
    case (Some pos)
    note sp = line_split [OF e 1(3) Some]
    have "strip_eol (take (pos + 1) ?sv) = line" using sp strip_eol_crlf [OF 1(3)] by simp
    then have "read_command w = (Ret line, w\<lparr>fs_control := k1, fs_buffer := drop (pos + 1) ?sv\<rparr>)"
      using Some oc by (subst read_command.simps) (simp add: Let_def)
    then show ?thesis using sp by simp
  qed
qed

lemma read_command_line_witness:
  "\<exists>w'. read_command (sample_session [Inr ''NO'', Inr ''OP'', Inr (crlf @ ''QU'')]) = (Ret ''NOOP'', w')
     \<and> fs_buffer w' @ delivered (to_read (fs_control w')) = ''QU''"
  using read_command_line [of "sample_session [Inr ''NO'', Inr ''OP'', Inr (crlf @ ''QU'')]" "''NOOP''" "''QU''"]
  by (simp add: sample_session_def)

text \<open>
  C36: A complete command already in the buffer is not executed until more bytes arrive: with
  nothing coming in, \<open>read_command\<close> waits forever, so the second of two commands sent in one
  packet is answered only when the client sends something else.
\<close>

theorem buffered_command_waits:
  assumes "to_read (fs_control w) = []"
  shows "fst (read_command w) = Hang"
  using assms by (subst read_command.simps) (simp add: on_control_def read_some_def)

lemma buffered_command_waits_witness:
  "fst (read_command (sample_session []\<lparr>fs_buffer := ''NOOP'' @ crlf\<rparr>)) = Hang"
  by (rule buffered_command_waits) (simp add: sample_session_def idle_sock_def)

section \<open>Login\<close>

definition guarded_commands :: "string list" where
  "guarded_commands =
     [''LIST'', ''NLST'', ''RETR'', ''STOR'', ''DELE'', ''RNFR'', ''RNTO'', ''CWD'', ''PWD'', ''MKD'', ''RMD'',
      ''SIZE'', ''CDUP'']"

text \<open>
  C24: Before login, each of the thirteen commands that touch files is answered with 530, and
  nothing of the session, the network or the file system changes.
\<close>

theorem refused_without_login:
  assumes "c \<in> set guarded_commands" and "map_of handlers c = Some h"
    and "\<not> st_authenticated (fs_state w)"
  shows "h api arg w = (Ret (NotLoggedIn, ''Not logged in''), w)"
proof -
  have n: "need_login m w = (Ret (NotLoggedIn, ''Not logged in''), w)" for m
    using assms(3) by (simp add: need_login_def bindE_def getE_def ret_def)
  show ?thesis
    using assms(1,2) by (auto simp: guarded_commands_def handlers_def handler_defs n)
qed

lemma refused_without_login_witness:
  "handle_dele latin_api ''a.txt'' (sample_session []) =
     (Ret (NotLoggedIn, ''Not logged in''), sample_session [])"
  by (rule refused_without_login [of "''DELE''"])
     (simp_all add: guarded_commands_def handlers_def sample_session_def initial_state_def)

text \<open>
  Any password logs in: after a USER with a non-empty name, PASS succeeds whatever its
  argument, and grants write permission; the users file is not consulted.
\<close>

theorem any_password:
  assumes "name \<noteq> []"
  shows "\<exists>w'. bindE (handle_user api name) (\<lambda>_. handle_pass api pw) w = (Ret (LoggedIn, ''Login successful''), w')
    \<and> st_authenticated (fs_state w') \<and> st_permission (fs_state w') = PermWRITE"
  using assms
  by (simp add: handle_user_def handle_pass_def on_state_def bindE_def modE_def ret_def getE_def)

lemma any_password_witness:
  "\<exists>w'. bindE (handle_user latin_api ''x'') (\<lambda>_. handle_pass latin_api ''wrong'') (sample_session [])
      = (Ret (LoggedIn, ''Login successful''), w')
    \<and> st_authenticated (fs_state w') \<and> st_permission (fs_state w') = PermWRITE"
  by (rule any_password) simp

section \<open>Data connection parameters\<close>

lemma bytes_or:
  assumes "b < (256::nat)" shows "push_bit 8 a OR b = a * 256 + b"
proof -
  have b: "take_bit 8 b = b" using assms by (simp add: take_bit_nat_eq_self)
  have "push_bit 8 a AND take_bit 8 b = 0" by (rule bit_eqI) (auto simp: bit_simps)
  then have "push_bit 8 a + take_bit 8 b = push_bit 8 a OR take_bit 8 b"
    by (rule disjunctive_add_eq_or)
  then show ?thesis unfolding b by (simp add: push_bit_eq_mult)
qed

lemma port_number_bytes:
  assumes "a < 256" "b < 256" shows "port_number (int a) (int b) = a * 256 + b"
proof -
  have n: "unat (word_of_nat a :: 16 word) = a" "unat (word_of_nat b :: 16 word) = b"
    using assms by (simp_all add: unat_of_nat)
  have "port_number (int a) (int b) =
      unat (push_bit 8 (word_of_nat a :: 16 word)) OR unat (word_of_nat b :: 16 word)"
    by (simp add: port_number_def unsigned_or_eq)
  also have "push_bit 8 (word_of_nat a :: 16 word) = word_of_nat (a * 256)"
    by (simp add: push_bit_eq_mult)
  also have "unat (word_of_nat (a * 256) :: 16 word) = push_bit 8 a"
    unfolding unat_of_nat using assms(1) by (simp add: push_bit_eq_mult)
  finally show ?thesis using bytes_or [OF assms(2)] n(2) by simp
qed

lemma port_bytes:
  fixes p :: nat
  assumes "p < 65536"
  shows "drop_bit 8 p AND 0xFF = p div 256" and "p AND 0xFF = p mod 256"
proof -
  have m: "(x :: nat) AND 0xFF = x mod 256" for x
    using take_bit_eq_mask [of 8 x] by (simp add: take_bit_eq_mod mask_eq_exp_minus_1)
  show "p AND 0xFF = p mod 256" by (rule m)
  have "p div 256 < 256" using assms by simp
  then show "drop_bit 8 p AND 0xFF = p div 256" by (simp add: m drop_bit_eq_div)
qed

definition port_argument :: "nat list \<Rightarrow> nat \<Rightarrow> string" where
  \<comment> \<open>the six numbers as PASV prints them\<close>
  "port_argument hs p = join '','' (map dec (hs @ [drop_bit 8 p AND 0xFF, p AND 0xFF]))"

lemma dec_no_comma: "CHR '','' \<notin> set (dec n)"
  by (rule dec_not_mem) (simp add: char_class)

lemma port_fields_numbers:
  assumes "length hs = 4"
  shows "port_fields (port_argument hs p) = Some (map dec (hs @ [drop_bit 8 p AND 0xFF, p AND 0xFF]))"
proof -
  let ?ds = "map dec (hs @ [drop_bit 8 p AND 0xFF, p AND 0xFF])"
  have "split (join [CHR '',''] ?ds) (CHR '','') = ?ds"
    unfolding split_eq_ref by (rule split_ref_join) (auto simp: dec_no_comma)
  moreover have "length ?ds = 6" using assms by simp
  moreover have "list_all (\<lambda>p. p \<noteq> [] \<and> all_digits p) ?ds" by (simp add: list_all_iff)
  ultimately show ?thesis by (simp add: port_fields_def port_argument_def del: map_append)
qed

lemma handle_port_runs:
  assumes "length hs = 4" and "p < 65536"
  shows "handle_port api (port_argument hs p) w = (Ret (CommandOkay, ''PORT command successful''),
    w\<lparr>fs_state := (fs_state w)\<lparr>st_data_conn_host := join ''.'' (map dec hs), st_data_conn_port := p,
      st_data_conn_type := ACTIVE\<rparr>\<rparr>)"
proof -
  obtain a b c d where hs: "hs = [a, b, c, d]"
    using assms(1) by (auto simp: length_Suc_conv eval_nat_numeral)
  have q: "p div 256 < 256" "p mod 256 < 256" using assms(2) by auto
  have "port_number (int (p div 256)) (int (p mod 256)) = p"
    by (subst port_number_bytes [OF q]) simp
  moreover have "stoi (dec (p div 256)) = Ret (int (p div 256))" "stoi (dec (p mod 256)) = Ret (int (p mod 256))"
    using q by (simp_all add: stoi_dec)
  ultimately show ?thesis
    using port_fields_numbers [OF assms(1), of p]
    by (simp add: handle_port_def hs port_bytes [OF assms(2)] bindE_def liftE_def on_state_def modE_def ret_def)
qed

text \<open>
  PORT understands the numbers PASV prints: given the four numbers of an address and a
  port below 65536 split into two bytes the way the PASV reply splits it, PORT stores the
  dotted address and exactly that port, and switches to active mode.
\<close>

theorem port_roundtrip:
  assumes "length hs = 4" and "p < 65536"
  shows "\<exists>w'. handle_port api (port_argument hs p) w = (Ret (CommandOkay, ''PORT command successful''), w')
    \<and> st_data_conn_host (fs_state w') = join ''.'' (map dec hs)
    \<and> st_data_conn_port (fs_state w') = p \<and> st_data_conn_type (fs_state w') = ACTIVE"
  using handle_port_runs [OF assms] by simp

lemma port_roundtrip_witness:
  "\<exists>w'. handle_port latin_api (port_argument [127, 0, 0, 1] 20001) (sample_session [])
      = (Ret (CommandOkay, ''PORT command successful''), w')
    \<and> st_data_conn_host (fs_state w') = join ''.'' (map dec [127, 0, 0, 1])
    \<and> st_data_conn_port (fs_state w') = 20001 \<and> st_data_conn_type (fs_state w') = ACTIVE"
  by (rule port_roundtrip) simp_all

text \<open>
  PASV does not switch back to passive mode: after a PORT, a successful PASV leaves the
  session in active mode, so the next transfer connects out instead of accepting the client on
  the port just announced.
\<close>

theorem pasv_stays_active:
  assumes "st_data_conn_type (fs_state w) = ACTIVE"
    and "handle_pasv api arg w = (Ret rep, w')"
  shows "establish_data_connection w' =
    (case address_error (dm_net (fs_manager w')) (st_data_conn_host (fs_state w')) of
       Some ex \<Rightarrow> (Exn ex, w') | None \<Rightarrow> on_manager create_active_channel w')"
proof -
  have "fs_state w' = fs_state w"
    using assms(2) by (auto simp: handle_pasv_def bindE_def on_manager_def ret_def split: prod.splits outcome.splits)
  then show ?thesis
    using assms(1)
    by (simp add: establish_data_connection_def bindE_def getE_def raise_def split: option.splits)
qed

definition active_session :: FTPSession where
  "active_session =
     (sample_session [])\<lparr>fs_state := (initial_state served 0)\<lparr>st_data_conn_type := ACTIVE\<rparr>\<rparr>"

lemma pasv_stays_active_witness:
  "\<exists>rep w'. handle_pasv latin_api [] active_session = (Ret rep, w')
     \<and> establish_data_connection w' = on_manager create_active_channel w'"
proof -
  obtain rep w' where p: "handle_pasv latin_api [] active_session = (Ret rep, w')"
    and n: "address_error (dm_net (fs_manager w')) = (\<lambda>h. None)"
    by (simp add: handle_pasv_def bindE_def on_manager_def ret_def active_session_def sample_session_def
        new_manager_def create_passive_channel_def open_net_port open_net_def Let_def)
  have "st_data_conn_type (fs_state active_session) = ACTIVE" by (simp add: active_session_def)
  from pasv_stays_active [OF this p] show ?thesis using p n by auto
qed

section \<open>Creating and renaming\<close>

text \<open>
  MKD creates nothing: the resolver only lets existing paths through, so the file system is
  the same afterwards, whatever the argument.
\<close>

theorem mkd_creates_nothing:
  assumes "wf_os (fs_os w)"
  shows "fs_os (snd (handle_mkd api arg w)) = fs_os w"
proof -
  let ?p = "resolve (fs_os w) (st_current_directory (fs_state w)) (st_root_directory (fs_state w)) arg"
  have "snd (create_directory ?p (fs_os w)) = fs_os w" if p: "?p \<noteq> []"
    using resolve_locs [OF assms refl p] create_existing [OF assms]
    by (auto simp: create_directory_def)
  then have "os' = fs_os w" if "?p \<noteq> []" "create_directory ?p (fs_os w) = (a, os')" for a os'
    using that by (metis snd_conv)
  then show ?thesis
    by (auto simp: handle_mkd_def need_login_def session_resolve_def on_os_def bindE_def getE_def ret_def
        split: prod.splits outcome.splits)
qed

lemma mkd_creates_nothing_witness:
  "fs_os (snd (handle_mkd latin_api ''new'' (sample_session []))) = sample_os"
  using mkd_creates_nothing [of "sample_session []"] wf_sample_os by (simp add: sample_session_def)

lemma rnto_needs_rnfr:
  "st_authenticated (fs_state w) \<Longrightarrow> st_rename_from_path (fs_state w) = [] \<Longrightarrow>
     handle_rnto api arg w = (Ret (BadSequence, ''RNFR required first''), w)"
  by (simp add: handle_rnto_def need_login_def bindE_def getE_def ret_def)

lemma files_apart:
  assumes "wf_os os" "lookup os a = Some (RegFile x y)" "lookup os b = Some (RegFile u v)" "a \<noteq> b"
  shows "apart a b"
  using existing_below [OF assms(1), of a b] existing_below [OF assms(1), of b a] assms
  by (auto simp: apart_def is_dir_node_def)

lemma rename_files:
  assumes wf: "wf_os os" and a: "lookup os a = Some (RegFile x y)" and b: "lookup os b = Some (RegFile u v)"
    and ne: "a \<noteq> b"
  shows "rename (loc_str a) (loc_str b) os = (Ret (), move_tree a b os)"
    and "lookup (move_tree a b os) b = Some (RegFile x y)" and "lookup (move_tree a b os) a = None"
proof -
  have s: "solid os a" "solid os b" using a b by (auto simp: solid_def)
  have root: "snd l \<noteq> []" if "lookup os l = Some (RegFile x' y')" for l x' y'
    using wf_osD [OF wf that] by (auto simp: wf_node_def is_dir_node_def split: if_splits)
  note ap = files_apart [OF wf a b ne]
  show "rename (loc_str a) (loc_str b) os = (Ret (), move_tree a b os)"
    using locate_solid [OF wf s(1)] locate_solid [OF wf s(2)] a b ne ap root [OF a] root [OF b]
    by (simp add: rename_def fs_rename_def error_of_def is_dir_node_def apart_def)
  show "lookup (move_tree a b os) b = Some (RegFile x y)"
    using a by (simp add: lookup_move_tree [OF ap])
  show "lookup (move_tree a b os) a = None"
    using ap by (simp add: lookup_move_tree [OF ap] apart_def)
qed

text \<open>
  RNFR of one file followed by RNTO of another existing file moves the first over the
  second: the target then holds the source's node, the source is gone. The source path stays
  remembered, so a second RNTO is accepted without a new RNFR.
\<close>

theorem rename_over_file:
  assumes wf: "wf_os (fs_os w)" and auth: "st_authenticated (fs_state w)"
    and ra: "resolve (fs_os w) (st_current_directory (fs_state w)) (st_root_directory (fs_state w)) src = loc_str a"
    and rb: "resolve (fs_os w) (st_current_directory (fs_state w)) (st_root_directory (fs_state w)) dst = loc_str b"
    and fa: "lookup (fs_os w) a = Some (RegFile x y)" and fb: "lookup (fs_os w) b = Some (RegFile u v)"
    and ne: "a \<noteq> b" "dst \<noteq> []"
  shows "\<exists>w'. bindE (handle_rnfr api src) (\<lambda>_. handle_rnto api dst) w
      = (Ret (FileActionCompleted, ''Rename successful''), w')
    \<and> lookup (fs_os w') b = Some (RegFile x y) \<and> lookup (fs_os w') a = None
    \<and> st_rename_from_path (fs_state w') = loc_str a"
proof -
  let ?w1 = "w\<lparr>fs_state := (fs_state w)\<lparr>st_rename_from_path := loc_str a\<rparr>\<rparr>"
  note rf = rename_files [OF wf fa fb ne(1)]
  have "handle_rnfr api src w = (Ret (FileActionPending, ''Ready for destination name''), ?w1)"
    using auth ra by (simp add: handle_rnfr_def need_login_def session_resolve_def on_state_def eff_simps)
  moreover have "handle_rnto api dst ?w1 =
      (Ret (FileActionCompleted, ''Rename successful''), ?w1\<lparr>fs_os := move_tree a b (fs_os w)\<rparr>)"
    using auth rb ne(2) rf(1)
    by (simp add: handle_rnto_def need_login_def session_resolve_def on_os_def eff_simps)
  ultimately show ?thesis using rf(2,3) by (simp add: eff_simps)
qed

definition two_files_os :: os where
  "two_files_os = put_node (''D:'', [''ftp'', ''b.txt'']) (RegFile plain_attr ''old'') sample_os"

definition two_files :: FTPSession where
  "two_files =
     (sample_session [])\<lparr>fs_os := two_files_os,
       fs_state := (initial_state served 0)\<lparr>st_authenticated := True\<rparr>\<rparr>"

lemma wf_two_files: "wf_os two_files_os"
  unfolding two_files_os_def
  by (rule wf_put_node [OF wf_sample_os])
     (simp_all add: wf_node_def valid_loc_def valid_root_def valid_drive_def char_class valid_name_def
       is_slash_def parent_def lookup_def sample_os_def is_dir_node_def)

lemma resolve_two_files:
  "resolve two_files_os served served ''a.txt'' = loc_str (''D:'', [''ftp'', ''a.txt''])"
  "resolve two_files_os served served ''b.txt'' = loc_str (''D:'', [''ftp'', ''b.txt''])"
  by code_simp+

lemma rename_over_file_witness:
  "\<exists>w'. bindE (handle_rnfr latin_api ''a.txt'') (\<lambda>_. handle_rnto latin_api ''b.txt'') two_files
      = (Ret (FileActionCompleted, ''Rename successful''), w')
    \<and> lookup (fs_os w') (''D:'', [''ftp'', ''b.txt'']) = Some (RegFile plain_attr ''hello'')
    \<and> lookup (fs_os w') (''D:'', [''ftp'', ''a.txt'']) = None
    \<and> st_rename_from_path (fs_state w') = loc_str (''D:'', [''ftp'', ''a.txt''])"
  by (rule rename_over_file [where u = plain_attr and v = "''old''"])
     (simp_all add: two_files_def wf_two_files resolve_two_files initial_state_def,
      simp_all add: two_files_os_def lookup_sample_file)

section \<open>The end of a session\<close>

lemma encode_utf8_ascii:
  assumes "ascii_api api" "is_ascii_text s" "s \<noteq> []"
  shows "encode_narrow api Char8_t Char_t s = Ret s" and "c_str s = s"
  using assms by (simp_all add: encode_narrow_ascii)

lemma send_response_ascii:
  assumes "ascii_api api" "is_ascii_text (response_text c m)" "quiet (fs_control w)"
  shows "send_response api c m w =
    (Ret (), w\<lparr>fs_control := (fs_control w)\<lparr>written := written (fs_control w) @ response_text c m\<rparr>\<rparr>)"
proof -
  have "response_text c m \<noteq> []" by (simp add: response_text_def)
  then show ?thesis
    using assms by (simp add: send_response_def encode_utf8_ascii eff_simps on_control_def write_all_quiet)
qed

lemma trim_command_none: "(\<And>c. c \<in> set s \<Longrightarrow> \<not> trailing c) \<Longrightarrow> trim_command s = s"
proof -
  assume "\<And>c. c \<in> set s \<Longrightarrow> \<not> trailing c"
  then have "dropWhile trailing (rev s) = rev s" by (cases "rev s") auto
  then show ?thesis by (simp add: trim_command_def)
qed

text \<open>
  QUIT, in any mix of upper and lower case, is answered with 421 on a quiet connection and
  ends the session: the command loop returns without reading further commands.
\<close>

theorem quit_ends_session:
  assumes api: "ascii_api api" and cmd: "to_Upper cmd = ''QUIT''" and act: "fs_active w"
    and rd: "read_command w = (Ret cmd, w1)" and q: "quiet (fs_control w1)"
  shows "session_loop api w =
    (Ret (), w1\<lparr>fs_active := False,
       fs_control := (fs_control w1)\<lparr>written := written (fs_control w1) @ ''421 Goodbye'' @ crlf\<rparr>\<rparr>)"
proof -
  have len: "length cmd = 4" using arg_cong [OF cmd, of length] by simp
  have up: "to_upper_char c \<in> set ''QUIT''" if "c \<in> set cmd" for c
    using arg_cong [OF cmd, of set] that by (auto simp: to_Upper_def)
  have code: "code_of c \<in> {81, 85, 73, 84, 113, 117, 105, 116}" if c: "c \<in> set cmd" for c
    using up [OF c] by (auto simp: to_upper_char_def is_lower_def split: if_splits
        dest!: arg_cong [where f = code_of])
  have "0 < code_of c \<and> code_of c < 128" if "c \<in> set cmd" for c using code [OF that] by auto
  then have as: "is_ascii_text cmd" by (simp add: is_ascii_text_def list_all_iff)
  have tr: "\<not> trailing c" if "c \<in> set cmd" for c
    using code [OF that] by (auto simp: trailing_def)
  have sp: "CHR '' '' \<notin> set cmd" using code [of "CHR '' ''"] by auto
  have ne: "cmd \<noteq> []" using len by auto
  have tc: "trim_command cmd = cmd" using tr by (rule trim_command_none)
  have h: "map_of handlers ''QUIT'' = Some handle_quit" by (simp add: handlers_def)
  let ?w2 = "w1\<lparr>fs_active := False\<rparr>"
  let ?w3 = "w1\<lparr>fs_active := False,
     fs_control := (fs_control w1)\<lparr>written := written (fs_control w1) @ ''421 Goodbye'' @ crlf\<rparr>\<rparr>"
  have "handle_quit api [] w1 = (Ret (ServiceClosingControl, ''Goodbye''), ?w2)"
    by (simp add: handle_quit_def eff_simps)
  then have hq: "caught (handle_quit api []) w1 = (Ret (ServiceClosingControl, ''Goodbye''), ?w2)"
    by (simp add: caught_def tryE_Ret)
  have pc: "process_command api cmd w1 = (Ret (ServiceClosingControl, ''Goodbye''), ?w2)"
    by (simp add: process_command_def bindE_def liftE_def encode_narrow_ascii(1) [OF api as ne] tc ne
        parseCmd_none [OF sp] cmd h hq Let_def)
  have t: "response_text ServiceClosingControl ''Goodbye'' = ''421 Goodbye'' @ crlf"
    and ta: "is_ascii_text (''421 Goodbye'' @ crlf)"
    by code_simp+
  have sr: "send_response api ServiceClosingControl ''Goodbye'' ?w2 = (Ret (), ?w3)"
    using send_response_ascii [OF api, of ServiceClosingControl "''Goodbye''" ?w2] q t ta
    by simp
  have one: "process_one_command api w = (Ret (), ?w3)"
    by (simp add: process_one_command_def bindE_def rd ne pc sr modE_def)
  have "session_loop api ?w3 = (Ret (), ?w3)" by (subst session_loop.simps) simp
  then show ?thesis using act one by (subst session_loop.simps) simp
qed

lemma quit_ends_session_witness:
  "\<exists>w'. session_loop latin_api (sample_session [Inr (''quit'' @ crlf)]) = (Ret (), w')
     \<and> written (fs_control w') = ''421 Goodbye'' @ crlf"
proof -
  let ?w = "sample_session [Inr (''quit'' @ crlf)]"
  have rd: "read_command ?w = (Ret ''quit'', ?w\<lparr>fs_control := idle_sock, fs_buffer := []\<rparr>)"
    by (subst read_command.simps)
       (simp add: on_control_def read_some_def sample_session_def idle_sock_def crlf_def strip_eol_def)
  have up: "to_Upper ''quit'' = ''QUIT''" by code_simp
  show ?thesis
    using quit_ends_session [OF ascii_latin_api up _ rd]
    by (simp add: sample_session_def idle_sock_def quiet_def)
qed

end
