(* ===== verification/FtpDialogue.thy ===== *)
theory FtpDialogue
  imports FtpProps
begin

text \<open>
  A whole session as a client has it: greeting, login, PORT, a transfer and QUIT, with every reply on
  the control connection and what the transfer leaves behind: the bytes on the data connection, or in the file.
\<close>

section \<open>One line of the client\<close>

text \<open>A line without control characters at its end, short enough for one read.\<close>

definition plain_line :: "string \<Rightarrow> bool" where
  "plain_line s \<longleftrightarrow> s \<noteq> [] \<and> is_ascii_text s \<and> LF \<notin> set s \<and> \<not> trailing (last s) \<and> length s \<le> 1000"

definition client_lines :: "string list \<Rightarrow> (exn + string) list" where
  "client_lines ls = map (\<lambda>l. Inr (l @ crlf)) ls"

lemma client_lines_simps [simp]:
  "client_lines [] = []" "client_lines (l # ls) = Inr (l @ crlf) # client_lines ls"
  by (simp_all add: client_lines_def)

text \<open>The session \<open>w\<close> with what is still to come from the client, and what it has been sent.\<close>

definition talk :: "FTPSession \<Rightarrow> (exn + string) list \<Rightarrow> string \<Rightarrow> FTPSession" where
  "talk w rs out = w\<lparr>fs_control := (fs_control w)\<lparr>to_read := rs, written := out\<rparr>, fs_buffer := []\<rparr>"

lemma talk_simps [simp]:
  "fs_state (talk w rs out) = fs_state w" "fs_active (talk w rs out) = fs_active w"
  "fs_manager (talk w rs out) = fs_manager w" "fs_os (talk w rs out) = fs_os w"
  "quiet (fs_control (talk w rs out)) = quiet (fs_control w)"
  "written (fs_control (talk w rs out)) = out"
  by (simp_all add: talk_def quiet_def)

lemma talk_write:
  "(talk w rs out)\<lparr>fs_control := (fs_control (talk w rs out))\<lparr>written := x\<rparr>\<rparr> = talk w rs x"
  by (cases w) (simp add: talk_def)

lemma reply_sent:
  assumes "ascii_api api" and "response_text c m = t" and "is_ascii_text t" and "quiet (fs_control w)"
  shows "send_response api c m (talk w rs out) = (Ret (), talk w rs (out @ t))"
  using send_response_ascii [OF assms(1), of c m "talk w rs out"] assms(2-4) by (simp add: talk_def)

lemma plain_find: "LF \<notin> set line \<Longrightarrow> find_char LF (line @ crlf) = Some (Suc (length line))"
  using find_char_append [of LF "line @ [CR]" "[]"] by (simp add: crlf_def)

lemma read_line:
  assumes "LF \<notin> set line" and "length line \<le> 1022"
  shows "read_command (talk w (Inr (line @ crlf) # rs) out) = (Ret line, talk w rs out)"
proof -
  have "read_some 1024 ((fs_control w)\<lparr>to_read := Inr (line @ crlf) # rs, written := out\<rparr>)
      = (Ret (line @ crlf), (fs_control w)\<lparr>to_read := rs, written := out\<rparr>)"
    using assms(2) by (simp add: read_some_def crlf_def)
  moreover have "strip_eol (line @ crlf) = line" using strip_eol_crlf [OF assms(1)] by (simp add: crlf_def)
  ultimately show ?thesis
    using plain_find [OF assms(1)]
    by (subst read_command.simps) (simp add: on_control_def talk_def Let_def crlf_def)
qed

lemma trim_plain: "s \<noteq> [] \<Longrightarrow> \<not> trailing (last s) \<Longrightarrow> trim_command s = s"
  by (cases s rule: rev_cases) (simp_all add: trim_command_def)

lemma process_line:
  assumes api: "ascii_api api" and l: "plain_line line"
    and p: "parseCmd line (CHR '' '') = verb # args" and h: "map_of handlers (to_Upper verb) = Some h"
    and a: "arg = (if args = [] then [] else hd args)" and r: "caught (h api arg) w = (Ret x, w')"
  shows "process_command api line w = (Ret x, w')"
proof -
  have "encode_narrow api Char_t Char8_t line = Ret line" and "trim_command line = line" and "line \<noteq> []"
    using l encode_narrow_ascii(1) [OF api] trim_plain by (auto simp: plain_line_def)
  then show ?thesis
    using p h a r
    by (cases args) (simp_all add: process_command_def bindE_def liftE_def Let_def)
qed

lemma caught_Ret: "m w = (Ret x, w') \<Longrightarrow> caught m w = (Ret x, w')"
  by (simp add: caught_def tryE_def)

lemma caught_Exn: "m w = (Exn e, w') \<Longrightarrow> caught m w = (Ret (FileUnavailable, ''Error: '' @ what_of e), w')"
  by (simp add: caught_def tryE_def ret_def)

text \<open>One turn of the loop that ends normally.\<close>

lemma loop_step:
  "process_one_command api a = (Ret (), b) \<Longrightarrow> fs_active a \<Longrightarrow> session_loop api a = session_loop api b"
  by (subst session_loop.simps) simp

lemma one_line:
  assumes api: "ascii_api api" and l: "plain_line line"
    and p: "process_command api line (talk w rs out) = (Ret (c, m), talk w2 rs out2)"
    and q: "quiet (fs_control w2)" and t: "is_ascii_text (response_text c m)"
    and c: "response_code c \<noteq> response_code ServiceClosingControl"
  shows "process_one_command api (talk w (Inr (line @ crlf) # rs) out) = (Ret (), talk w2 rs (out2 @ response_text c m))"
proof -
  have rd: "read_command (talk w (Inr (line @ crlf) # rs) out) = (Ret line, talk w rs out)"
    using l by (intro read_line) (simp_all add: plain_line_def)
  have "send_response api c m (talk w2 rs out2) = (Ret (), talk w2 rs (out2 @ response_text c m))"
    by (rule reply_sent [OF api refl t q])
  moreover have "line \<noteq> []" using l by (simp add: plain_line_def)
  ultimately show ?thesis
    using rd p c by (simp add: process_one_command_def bindE_def ret_def)
qed

lemma dialogue_quit:
  assumes api: "ascii_api api" and w: "fs_active w" and q: "quiet (fs_control w)"
  shows "session_loop api (talk w (client_lines [''QUIT'']) out)
    = (Ret (), talk (w\<lparr>fs_active := False\<rparr>) [] (out @ ''421 Goodbye'' @ crlf))"
proof -
  have up: "to_Upper ''QUIT'' = ''QUIT''" by code_simp
  have rd: "read_command (talk w [Inr (''QUIT'' @ crlf)] out) = (Ret ''QUIT'', talk w [] out)"
    by (rule read_line) simp_all
  show ?thesis
    using quit_ends_session [OF api up _ rd] w q by (simp add: talk_def)
qed

lemma ascii_append: "is_ascii_text (s @ t) \<longleftrightarrow> is_ascii_text s \<and> is_ascii_text t"
  by (simp add: is_ascii_text_def)

lemma response_550: "response_text FileUnavailable (''Error: '' @ m) = ''550 Error: '' @ m @ crlf"
proof -
  have "dec 550 = ''550''" by code_simp
  then show ?thesis by (simp add: response_text_def)
qed

section \<open>Login, PORT, RETR and STOR\<close>

lemma plain_line_verb:
  assumes "plain_line s" "is_ascii_text v" "LF \<notin> set v" "length v + length s < 1000"
  shows "plain_line (v @ CHR '' '' # s)"
  using assms by (auto simp: plain_line_def is_ascii_text_def)

lemma verbs:
  "map_of handlers ''USER'' = Some handle_user" "map_of handlers ''PASS'' = Some handle_pass"
  "map_of handlers ''PORT'' = Some handle_port" "map_of handlers ''RETR'' = Some handle_retr"
  "map_of handlers ''STOR'' = Some handle_stor"
  by (simp_all add: handlers_def)

lemma one_verb:
  assumes api: "ascii_api api" and h: "map_of handlers v = Some h"
    and r: "caught (h api s) (talk w rs out) = (Ret (c, m), talk w2 rs out2)"
    and t: "response_text c m = txt" "is_ascii_text txt" and q: "quiet (fs_control w2)"
    and s: "plain_line s" "length s < 900" and v: "v \<in> {''USER'', ''PASS'', ''PORT'', ''RETR'', ''STOR''}"
    and c: "response_code c \<noteq> 421"
  shows "process_one_command api (talk w (Inr ((v @ CHR '' '' # s) @ crlf) # rs) out) = (Ret (), talk w2 rs (out2 @ txt))"
proof -
  have v1: "is_ascii_text v" "LF \<notin> set v" "length v = 4" "CHR '' '' \<notin> set v" "to_Upper v = v"
    using v by (auto simp: is_ascii_text_def to_Upper_def to_upper_char_def is_lower_def)
  have l: "plain_line (v @ CHR '' '' # s)" using v1 s by (intro plain_line_verb) simp_all
  have u: "map_of handlers (to_Upper v) = Some h" using h v1(5) by simp
  have "process_command api (v @ CHR '' '' # s) (talk w rs out) = (Ret (c, m), talk w2 rs out2)"
    by (rule process_line [where args = "[s]" and arg = s, OF api l _ u _ r]) (simp_all add: parseCmd_word [OF v1(4)])
  then show ?thesis using one_line [OF api l _ q] t c by simp
qed

section \<open>A handler that throws\<close>

text \<open>
  C25: An exception in a handler does not end the session and is not lost: for every command line that
  names one of the handlers, on an active session, if the handler throws, the dispatcher answers with
  code 550 and the message \<open>Error: \<close> followed by that of the exception, exactly this line is sent to the
  client after what the handler has sent itself, and the loop goes on in the state the handler left.
  The command line converts without an exception, which is always so for ASCII; the exception's text is
  ASCII, and the control connection takes what is written to it.
\<close>

theorem handler_error_answered:
  assumes "ascii_api api" and "fs_active w" and "read_command w = (Ret line, w1)" and "line \<noteq> []"
    and "encode_narrow api Char_t Char8_t line = Ret s"
    and "parseCmd (trim_command s) (CHR '' '') = verb # args" and "map_of handlers (to_Upper verb) = Some h"
    and "h api (if args = [] then [] else hd args) w1 = (Exn e, w2)"
    and "quiet (fs_control w2)" and "is_ascii_text (what_of e)"
  shows "process_command api line w1 = (Ret (FileUnavailable, ''Error: '' @ what_of e), w2)
    \<and> session_loop api w = session_loop api (w2\<lparr>fs_control := (fs_control w2)
        \<lparr>written := written (fs_control w2) @ ''550 Error: '' @ what_of e @ crlf\<rparr>\<rparr>)"
proof -
  have "to_Upper verb \<noteq> []" using assms(7) by (auto simp: handlers_def)
  then have "trim_command s \<noteq> []" using assms(6) by (auto simp: parseCmd_none to_Upper_def)
  then have p: "process_command api line w1 = (Ret (FileUnavailable, ''Error: '' @ what_of e), w2)"
    using assms(5-7) caught_Exn [of "h api (if args = [] then [] else hd args)", OF assms(8)]
    by (cases args) (simp_all add: process_command_def bindE_def liftE_def Let_def)
  have t: "response_text FileUnavailable (''Error: '' @ what_of e) = ''550 Error: '' @ what_of e @ crlf"
    by (rule response_550)
  have "is_ascii_text ''550 Error: ''" "is_ascii_text crlf" by code_simp+
  then have "is_ascii_text (response_text FileUnavailable (''Error: '' @ what_of e))"
    unfolding t using assms(10) by (simp only: ascii_append simp_thms)
  note send = send_response_ascii [OF assms(1) this assms(9), unfolded t]
  have "process_one_command api w = (Ret (), w2\<lparr>fs_control := (fs_control w2)
      \<lparr>written := written (fs_control w2) @ ''550 Error: '' @ what_of e @ crlf\<rparr>\<rparr>)"
    using assms(3,4) p send by (simp add: process_one_command_def bindE_def ret_def)
  then show ?thesis using p loop_step assms(2) by blast
qed

lemma handler_error_answered_witness:
  "\<exists>w. session_loop latin_api (sample_session (client_lines [''PORT 1,2,3,4,99999999999,6'', ''QUIT''])) = (Ret (), w)
     \<and> written (fs_control w) = ''550 Error: stoi argument out of range'' @ crlf @ ''421 Goodbye'' @ crlf"
proof -
  let ?l = "''PORT 1,2,3,4,99999999999,6''" and ?w = "sample_session []"
  let ?e = "Out_of_range ''stoi argument out of range''"
  have talk: "sample_session rs = talk ?w rs []" for rs
    by (simp add: talk_def sample_session_def idle_sock_def)
  have l: "is_ascii_text ?l" "trim_command ?l = ?l" "to_Upper ''PORT'' = ''PORT''" by code_simp+
  have m: "is_ascii_text ''stoi argument out of range''" by code_simp
  have p: "parseCmd ?l (CHR '' '') = [''PORT'', ''1,2,3,4,99999999999,6'']"
    by code_simp
  have f: "port_fields ''1,2,3,4,99999999999,6'' = Some [''1'', ''2'', ''3'', ''4'', ''99999999999'', ''6'']" by code_simp
  have "is_digit (CHR ''9'')" by code_simp
  then have "read_base 10 ''99999999999'' = 99999999999" by (simp add: read_base_def digit_val_def)
  moreover have "all_digits ''99999999999''" by code_simp
  ultimately have n: "stoi ''99999999999'' = Exn ?e" by (simp add: stoi_digits)
  have q: "fs_active ?w" "quiet (fs_control ?w)" by (simp_all add: sample_session_def idle_sock_def quiet_def)
  let ?a = "talk ?w (client_lines [?l, ''QUIT'']) []" and ?b = "talk ?w (client_lines [''QUIT'']) []"
  have rd: "read_command ?a = (Ret ?l, ?b)"
    unfolding client_lines_simps by (rule read_line) simp_all
  have "handle_port latin_api ''1,2,3,4,99999999999,6'' ?b = (Exn ?e, ?b)"
    by (simp add: handle_port_def f n bindE_def liftE_def Let_def)
  then have h: "handle_port latin_api (if [''1,2,3,4,99999999999,6''] = [] then [] else hd [''1,2,3,4,99999999999,6'']) ?b
      = (Exn ?e, ?b)" by simp
  have c: "parseCmd (trim_command ?l) (CHR '' '') = [''PORT'', ''1,2,3,4,99999999999,6'']"
    "map_of handlers (to_Upper ''PORT'') = Some handle_port"
    unfolding l p by (simp_all only: verbs)
  have b: "fs_active ?a" "quiet (fs_control ?b)" "is_ascii_text (what_of ?e)" using q m by simp_all
  have ne: "?l \<noteq> []" by (rule list.distinct)
  have "session_loop latin_api ?a = session_loop latin_api (?b\<lparr>fs_control := (fs_control ?b)
      \<lparr>written := written (fs_control ?b) @ ''550 Error: '' @ what_of ?e @ crlf\<rparr>\<rparr>)"
    by (rule conjunct2 [OF handler_error_answered [OF ascii_latin_api b(1) rd ne
          encode_narrow_ascii(1) [OF ascii_latin_api l(1) ne] c h b(2,3)]])
  also have "\<dots> = (Ret (), talk (?w\<lparr>fs_active := False\<rparr>) []
      ((''550 Error: '' @ what_of ?e @ crlf) @ ''421 Goodbye'' @ crlf))"
    unfolding talk_write talk_simps append_Nil by (rule dialogue_quit [OF ascii_latin_api q])
  finally show ?thesis unfolding talk [of "client_lines [?l, ''QUIT'']"] by simp
qed

definition logged_in :: "string \<Rightarrow> FTPSession \<Rightarrow> FTPSession" where
  "logged_in u w = w\<lparr>fs_state := (fs_state w)\<lparr>st_username := u, st_authenticated := True, st_permission := PermWRITE\<rparr>\<rparr>"

lemma logged_in_simps [simp]:
  "fs_control (logged_in u w) = fs_control w" "fs_manager (logged_in u w) = fs_manager w"
  "fs_os (logged_in u w) = fs_os w" "fs_active (logged_in u w) = fs_active w"
  by (simp_all add: logged_in_def)

definition login_replies :: string where
  "login_replies = ''331 User name OK, more password required'' @ crlf @ ''230 Login successful'' @ crlf"

definition named :: "string \<Rightarrow> FTPSession \<Rightarrow> FTPSession" where
  "named u w = w\<lparr>fs_state := (fs_state w)\<lparr>st_username := u\<rparr>\<rparr>"

lemma one_user:
  assumes api: "ascii_api api" and q: "quiet (fs_control w)" and u: "plain_line u" "length u < 900"
  shows "process_one_command api (talk w (client_lines ((''USER '' @ u) # ls)) out)
    = (Ret (), talk (named u w) (client_lines ls) (out @ ''331 User name OK, more password required'' @ crlf))"
proof -
  let ?t = "''331 User name OK, more password required'' @ crlf"
  have t: "response_text NeedPassword ''User name OK, more password required'' = ?t" "is_ascii_text ?t" by code_simp+
  have r: "caught (handle_user api u) (talk w (client_lines ls) out)
      = (Ret (NeedPassword, ''User name OK, more password required''), talk (named u w) (client_lines ls) out)"
    by (intro caught_Ret) (simp add: handle_user_def on_state_def eff_simps bindE_def talk_def named_def)
  have "quiet (fs_control (named u w))" using q by (simp add: named_def)
  from one_verb [OF api verbs(1) r t this u] show ?thesis by simp
qed

lemma one_pass:
  assumes api: "ascii_api api" and q: "quiet (fs_control w)" and u: "u \<noteq> []" and p: "plain_line pw" "length pw < 900"
  shows "process_one_command api (talk (named u w) (client_lines ((''PASS '' @ pw) # ls)) out)
    = (Ret (), talk (logged_in u w) (client_lines ls) (out @ ''230 Login successful'' @ crlf))"
proof -
  let ?t = "''230 Login successful'' @ crlf"
  have t: "response_text LoggedIn ''Login successful'' = ?t" "is_ascii_text ?t" by code_simp+
  have r: "caught (handle_pass api pw) (talk (named u w) (client_lines ls) out)
      = (Ret (LoggedIn, ''Login successful''), talk (logged_in u w) (client_lines ls) out)"
    using u by (intro caught_Ret) (simp add: handle_pass_def on_state_def eff_simps bindE_def talk_def named_def logged_in_def)
  have "quiet (fs_control (logged_in u w))" using q by simp
  from one_verb [OF api verbs(2) r t this p] show ?thesis by simp
qed

lemma dialogue_login:
  assumes api: "ascii_api api" and w: "fs_active w" "quiet (fs_control w)"
    and u: "plain_line u" "length u < 900" and p: "plain_line pw" "length pw < 900"
  shows "session_loop api (talk w (client_lines ((''USER '' @ u) # (''PASS '' @ pw) # ls)) out)
    = session_loop api (talk (logged_in u w) (client_lines ls) (out @ login_replies))"
proof -
  have "u \<noteq> []" using u(1) by (simp add: plain_line_def)
  then show ?thesis
    using loop_step [OF one_user [OF api w(2) u]] loop_step [OF one_pass [OF api w(2) _ p]] w(1)
    by (simp add: named_def login_replies_def del: client_lines_simps)
qed

text \<open>The argument of PORT: the four numbers of an address and the two bytes of a port.\<close>

lemma plain_port:
  assumes "length hs = 4" and "length (port_argument hs p) < 900"
  shows "plain_line (port_argument hs p)"
proof -
  obtain a b c d where hs: "hs = [a, b, c, d]"
    using assms(1) by (auto simp: length_Suc_conv eval_nat_numeral)
  have d: "c \<in> set (dec n) \<Longrightarrow> is_digit c" for c n by (rule dec_digits)
  have "last (dec n) \<in> set (dec n)" for n by simp
  then have "is_digit (last (dec n))" for n using d by blast
  moreover have "is_digit x \<Longrightarrow> \<not> trailing x" for x by (auto simp: trailing_def char_class)
  ultimately have "\<not> trailing (last (dec n))" for n by blast
  moreover have "LF \<notin> set (dec n)" "is_ascii_text (dec n)" for n
    using d by (fastforce simp: is_ascii_text_def list_all_iff char_class)+
  ultimately show ?thesis
    using assms(2) by (simp add: plain_line_def port_argument_def hs is_ascii_text_def)
qed

definition active_at :: "string \<Rightarrow> nat \<Rightarrow> FTPSession \<Rightarrow> FTPSession" where
  "active_at host port w = w\<lparr>fs_state := (fs_state w)\<lparr>st_data_conn_host := host, st_data_conn_port := port, st_data_conn_type := ACTIVE\<rparr>\<rparr>"

lemma active_at_simps [simp]:
  "fs_control (active_at a p w) = fs_control w" "fs_manager (active_at a p w) = fs_manager w"
  "fs_os (active_at a p w) = fs_os w" "fs_active (active_at a p w) = fs_active w"
  by (simp_all add: active_at_def)

lemma one_port:
  assumes api: "ascii_api api" and q: "quiet (fs_control w)"
    and p: "length hs = 4" "p < 65536" "length (port_argument hs p) < 900"
  shows "process_one_command api (talk w (client_lines ((''PORT '' @ port_argument hs p) # ls)) out)
    = (Ret (), talk (active_at (join ''.'' (map dec hs)) p w) (client_lines ls) (out @ ''200 PORT command successful'' @ crlf))"
proof -
  let ?t = "''200 PORT command successful'' @ crlf" and ?w = "active_at (join ''.'' (map dec hs)) p w"
  have r: "caught (handle_port api (port_argument hs p)) (talk w (client_lines ls) out)
      = (Ret (CommandOkay, ''PORT command successful''), talk ?w (client_lines ls) out)"
    by (intro caught_Ret) (simp add: handle_port_runs [OF p(1,2)] talk_def active_at_def)
  have t: "response_text CommandOkay ''PORT command successful'' = ?t" "is_ascii_text ?t" by code_simp+
  have "quiet (fs_control ?w)" using q by simp
  from one_verb [OF api verbs(3) r t this plain_port [OF p(1,3)] p(3)] show ?thesis by simp
qed

definition downloaded :: "sock \<Rightarrow> nat \<Rightarrow> (exn + sock) list \<Rightarrow> FTPSession \<Rightarrow> FTPSession" where
  "downloaded k n ks w =
     w\<lparr>fs_state := count_bytes n (fs_state w),
       fs_manager := (fs_manager w)\<lparr>dm_net := (dm_net (fs_manager w))
         \<lparr>outgoing := ks, closed_socks := closed_socks (dm_net (fs_manager w)) @ [close_sock k]\<rparr>\<rparr>\<rparr>"

definition download_replies :: "nat \<Rightarrow> string" where
  "download_replies n = ''150 Opening BINARY mode data connection for file transfer'' @ crlf
     @ ''226 Transfer complete ('' @ dec n @ '' bytes)'' @ crlf"

lemma ascii_dec: "is_ascii_text (dec n)"
  using dec_digits [of _ n] by (fastforce simp: is_ascii_text_def list_all_iff char_class)

text \<open>The data connection in active mode.\<close>

definition connected_to :: "(exn + sock) list \<Rightarrow> FTPSession \<Rightarrow> FTPSession" where
  "connected_to ks w = w\<lparr>fs_manager := (fs_manager w)\<lparr>dm_net := (dm_net (fs_manager w))\<lparr>outgoing := ks\<rparr>\<rparr>\<rparr>"

lemma connected_to_simps [simp]:
  "fs_control (connected_to ks w) = fs_control w" "fs_os (connected_to ks w) = fs_os w"
  "fs_state (connected_to ks w) = fs_state w" "fs_active (connected_to ks w) = fs_active w"
  by (simp_all add: connected_to_def)

lemma establish_active:
  assumes "st_data_conn_type (fs_state w) = ACTIVE"
    and "address_error (dm_net (fs_manager w)) (st_data_conn_host (fs_state w)) = None"
    and "outgoing (dm_net (fs_manager w)) = Inr k # ks"
  shows "establish_data_connection (talk w rs out) = (Ret k, talk (connected_to ks w) rs out)"
  using assms
  by (simp add: establish_data_connection_def bindE_def getE_def on_manager_def create_active_channel_def talk_def
      connected_to_def)

lemma retr_body_file:
  assumes "resolve os (st_current_directory st) (st_root_directory st) name = p" and "p \<noteq> []"
    and "regular_file os p l b" and "no_send_errors k" and "length (text_in b) \<le> SIZE_MAX"
  shows "\<exists>k'. retr_body st name (os, k) = (Ret (Some (length (text_in b))), os, k') \<and> written k' = written k @ text_in b"
proof -
  have "on_disk (fs_exists p) (os, k) = (Ret True, os, k)"
    using assms(3) by (auto simp: regular_file_def on_disk_def fs_exists_def or_throw_def exists_ec_def status_def)
  then show ?thesis
    using send_file_regular [OF assms(3-5)] assms(1,2) by (auto simp: retr_body_def bindE_def getE_def ret_def)
qed

lemma one_retr:
  assumes api: "ascii_api api" and w: "quiet (fs_control w)"
    and n: "plain_line name" "length name < 900"
    and s: "st_authenticated (fs_state w)" "st_data_conn_type (fs_state w) = ACTIVE"
    and a: "address_error (dm_net (fs_manager w)) (st_data_conn_host (fs_state w)) = None"
    and o: "outgoing (dm_net (fs_manager w)) = Inr k # ks" and k: "no_send_errors k"
    and p: "resolve (fs_os w) (st_current_directory (fs_state w)) (st_root_directory (fs_state w)) name = p" "p \<noteq> []"
    and f: "regular_file (fs_os w) p l b" "length (text_in b) \<le> SIZE_MAX"
  shows "\<exists>k'. written k' = written k @ text_in b
    \<and> process_one_command api (talk w (client_lines ((''RETR '' @ name) # ls)) out)
      = (Ret (), talk (downloaded k' (length (text_in b)) ks w) (client_lines ls) (out @ download_replies (length (text_in b))))"
proof -
  let ?n = "length (text_in b)" and ?rs = "client_lines ls"
  let ?t1 = "''150 Opening BINARY mode data connection for file transfer'' @ crlf"
  obtain k' where k': "retr_body (fs_state w) name (fs_os w, k) = (Ret (Some ?n), fs_os w, k')" "written k' = written k @ text_in b"
    using retr_body_file [OF p f(1) k f(2)] by blast
  have t1: "response_text DataConnectionOpen ''Opening BINARY mode data connection for file transfer'' = ?t1"
    "is_ascii_text ?t1" by code_simp+
  note s1 = reply_sent [OF api t1 w, of ?rs out]
  let ?w1 = "connected_to ks w"
  have e: "establish_data_connection (talk w ?rs (out @ ?t1)) = (Ret k, talk ?w1 ?rs (out @ ?t1))"
    by (rule establish_active [OF s(2) a o])
  let ?w2 = "close_data k' ?w1"
  have d: "with_data k (retr_body (fs_state w) name) (talk ?w1 ?rs (out @ ?t1)) = (Ret (Some ?n), talk ?w2 ?rs (out @ ?t1))"
    using k'(1) by (simp add: with_data_def close_data_def talk_def connected_to_def Let_def)
  have r: "caught (handle_retr api name) (talk w ?rs out)
      = (Ret (FileActionCompleted, transfer_complete ?n), talk (downloaded k' ?n ks w) ?rs (out @ ?t1))"
    using n(1) s(1) s1 e d
    by (intro caught_Ret) (simp add: handle_retr_def need_login_def execute_retr_def bindE_def getE_def on_state_def modE_def
        ret_def plain_line_def, simp add: talk_def downloaded_def close_data_def connected_to_def Let_def)
  have t2: "response_text FileActionCompleted (transfer_complete ?n) = ''226 Transfer complete ('' @ dec ?n @ '' bytes)'' @ crlf"
  proof -
    have "dec 226 = ''226''" by code_simp
    then show ?thesis by (simp add: response_text_def transfer_complete_def)
  qed
  have "is_ascii_text ''226 Transfer complete (''" "is_ascii_text ('' bytes)'' @ crlf)" by code_simp+
  then have t3: "is_ascii_text (''226 Transfer complete ('' @ dec ?n @ '' bytes)'' @ crlf)"
    by (simp only: ascii_append ascii_dec simp_thms)
  have q: "quiet (fs_control (downloaded k' ?n ks w))" using w by (simp add: downloaded_def)
  have "process_one_command api (talk w (Inr ((''RETR'' @ CHR '' '' # name) @ crlf) # ?rs) out)
      = (Ret (), talk (downloaded k' ?n ks w) ?rs ((out @ ?t1) @ ''226 Transfer complete ('' @ dec ?n @ '' bytes)'' @ crlf))"
    by (rule one_verb [OF api verbs(4) r t2 t3 q n]) simp_all
  then show ?thesis using k'(2) by (auto simp: download_replies_def)
qed

definition uploaded :: "sock \<Rightarrow> os \<Rightarrow> (exn + sock) list \<Rightarrow> FTPSession \<Rightarrow> FTPSession" where
  "uploaded k os' ks w =
     w\<lparr>fs_os := os',
       fs_manager := (fs_manager w)\<lparr>dm_net := (dm_net (fs_manager w))
         \<lparr>outgoing := ks, closed_socks := closed_socks (dm_net (fs_manager w)) @ [close_sock k]\<rparr>\<rparr>\<rparr>"

definition upload_replies :: "exn \<Rightarrow> string" where
  "upload_replies e = ''150 Opening BINARY mode data connection for file upload'' @ crlf
     @ ''550 Error: '' @ what_of e @ crlf"

lemma one_stor:
  assumes api: "ascii_api api" and w: "quiet (fs_control w)"
    and n: "plain_line name" "length name < 900"
    and s: "st_authenticated (fs_state w)" "st_data_conn_type (fs_state w) = ACTIVE"
    and a: "address_error (dm_net (fs_manager w)) (st_data_conn_host (fs_state w)) = None"
    and o: "outgoing (dm_net (fs_manager w)) = Inr k # ks"
    and k: "nonempty_reads k" "first_error (to_read k) = Some e" "length (delivered (to_read k)) < SIZE_MAX"
    and e: "is_ascii_text (what_of e)"
    and p: "resolve (fs_os w) (st_current_directory (fs_state w)) (st_root_directory (fs_state w)) name = p" "p \<noteq> []"
    and f: "regular_file (fs_os w) p l b"
  shows "\<exists>os' k'. contents os' l = overwrite 0 (text_out (delivered (to_read k))) b
    \<and> process_one_command api (talk w (client_lines ((''STOR '' @ name) # ls)) out)
      = (Ret (), talk (uploaded k' os' ks w) (client_lines ls) (out @ upload_replies e))"
proof -
  let ?rs = "client_lines ls" and ?t1 = "''150 Opening BINARY mode data connection for file upload'' @ crlf"
  obtain os' k' where rc: "receive_file p False SIZE_MAX (fs_os w, k) = (Exn e, os', k')"
    and c: "contents os' l = overwrite 0 (text_out (delivered (to_read k))) b"
    using receive_file_ends_in_error [OF f k] by blast
  have b: "stor_body (fs_state w) name (fs_os w, k) = (Exn e, os', k')"
    using p rc by (simp add: stor_body_def bindE_def getE_def)
  have t1: "response_text DataConnectionOpen ''Opening BINARY mode data connection for file upload'' = ?t1"
    "is_ascii_text ?t1" by code_simp+
  note s1 = reply_sent [OF api t1 w, of ?rs out]
  let ?w1 = "connected_to ks w"
  have es: "establish_data_connection (talk w ?rs (out @ ?t1)) = (Ret k, talk ?w1 ?rs (out @ ?t1))"
    by (rule establish_active [OF s(2) a o])
  have d: "with_data k (stor_body (fs_state w) name) (talk ?w1 ?rs (out @ ?t1))
      = (Exn e, close_data k' ((talk ?w1 ?rs (out @ ?t1))\<lparr>fs_os := os'\<rparr>))"
    using b by (simp add: with_data_def Let_def)
  have r: "caught (handle_stor api name) (talk w ?rs out)
      = (Ret (FileUnavailable, ''Error: '' @ what_of e), talk (uploaded k' os' ks w) ?rs (out @ ?t1))"
    using n(1) s(1) s1 es d
    by (intro caught_Exn) (simp add: handle_stor_def need_login_def execute_stor_def bindE_def getE_def plain_line_def,
        simp add: talk_def uploaded_def close_data_def connected_to_def Let_def)
  have t2: "response_text FileUnavailable (''Error: '' @ what_of e) = ''550 Error: '' @ what_of e @ crlf"
    by (rule response_550)
  have "is_ascii_text ''550 Error: ''" "is_ascii_text crlf" by code_simp+
  then have t3: "is_ascii_text (''550 Error: '' @ what_of e @ crlf)"
    using e by (simp only: ascii_append simp_thms)
  have q: "quiet (fs_control (uploaded k' os' ks w))" using w by (simp add: uploaded_def)
  have "process_one_command api (talk w (Inr ((''STOR'' @ CHR '' '' # name) @ crlf) # ?rs) out)
      = (Ret (), talk (uploaded k' os' ks w) ?rs ((out @ ?t1) @ ''550 Error: '' @ what_of e @ crlf))"
    by (rule one_verb [OF api verbs(5) r t2 t3 q n]) simp_all
  then show ?thesis using c by (auto simp: upload_replies_def)
qed

section \<open>The whole session\<close>

definition greeting :: string where
  "greeting = ''220 FTP Server ready'' @ crlf"

lemma greeting_sent:
  assumes "ascii_api api" and "fs_buffer w = []" and "quiet (fs_control w)" and "to_read (fs_control w) = client_lines ls"
  shows "send_response api ServiceReady ''FTP Server ready'' w
    = (Ret (), talk w (client_lines ls) (written (fs_control w) @ greeting))"
proof -
  have t: "response_text ServiceReady ''FTP Server ready'' = greeting" "is_ascii_text greeting"
    by (simp only: greeting_def, code_simp)+
  have "w = talk w (client_lines ls) (written (fs_control w))"
    using assms(2,4) by (cases w, cases "fs_control w") (simp add: talk_def)
  then show ?thesis using reply_sent [OF assms(1) t assms(3)] by metis
qed

lemma dialogue_start:
  assumes "ascii_api api" and "fs_buffer w = []" and "quiet (fs_control w)" and "to_read (fs_control w) = client_lines ls"
  shows "start api w = session_loop api (talk w (client_lines ls) (written (fs_control w) @ greeting))"
  using greeting_sent [OF assms] by (simp add: start_def bindE_def)

text \<open>The session up to the transfer.\<close>

definition announced :: "string \<Rightarrow> nat list \<Rightarrow> nat \<Rightarrow> FTPSession \<Rightarrow> FTPSession" where
  "announced user hs port w = active_at (join ''.'' (map dec hs)) port (logged_in user w)"

definition opening_replies :: string where
  "opening_replies = greeting @ login_replies @ ''200 PORT command successful'' @ crlf"

lemma dialogue_opening:
  assumes "ascii_api api" and "plain_line user" "length user < 900" and "plain_line pw" "length pw < 900"
    and p: "length hs = 4" "port < 65536" "length (port_argument hs port) < 900"
    and w: "fs_active w" "fs_buffer w = []" "quiet (fs_control w)"
    and i: "to_read (fs_control w) = client_lines ([''USER '' @ user, ''PASS '' @ pw, ''PORT '' @ port_argument hs port] @ ls)"
  shows "start api w = session_loop api (talk (announced user hs port w) (client_lines ls) (written (fs_control w) @ opening_replies))"
proof -
  have q: "quiet (fs_control (logged_in user w))" using w(3) by simp
  have i': "to_read (fs_control w)
      = client_lines ((''USER '' @ user) # (''PASS '' @ pw) # (''PORT '' @ port_argument hs port) # ls)"
    using i by (simp only: append_Cons append_Nil)
  show ?thesis
    unfolding dialogue_start [OF assms(1) w(2,3) i'] dialogue_login [OF assms(1) w(1,3) assms(2-5)]
    using loop_step [OF one_port [OF assms(1) q p]] w(1)
    by (simp add: announced_def opening_replies_def del: client_lines_simps)
qed

text \<open>
  C12: A client that logs in, announces an address and port, downloads a file and quits gets what it
  asked for: the exact sequence of replies on the control connection, the text mode translation of the
  file on the data connection, which is closed afterwards, and the session ends with the files unchanged.
  This is for every user name, password and file name that are nonempty ASCII text of less than 900
  characters without a line feed and not ending in a space, tab or carriage return (\<open>plain_line\<close>), every
  address of four numbers and 16-bit port, lines that each arrive whole, connections on which every
  write goes through, a data connection that the client accepts, and a file name that the resolver
  lets through to an existing regular file that may be written, since the server opens the file of a
  download for writing as well (a read-only file is not sent).
\<close>

theorem download_dialogue:
  assumes "ascii_api api" and "plain_line user" and "plain_line pw" and "plain_line name"
    and "length user < 900" and "length pw < 900" and "length name < 900"
    and "length hs = 4" and "port < 65536" and "length (port_argument hs port) < 900"
    and "fs_state w = initial_state root t" and "fs_active w" and "fs_buffer w = []" and "quiet (fs_control w)"
    and "to_read (fs_control w) = client_lines
      [''USER '' @ user, ''PASS '' @ pw, ''PORT '' @ port_argument hs port, ''RETR '' @ name, ''QUIT'']"
    and "outgoing (dm_net (fs_manager w)) = [Inr k]"
    and "address_error (dm_net (fs_manager w)) (join ''.'' (map dec hs)) = None"
    and "no_send_errors k" and "resolve (fs_os w) root root name = p" and "p \<noteq> []"
    and "regular_file (fs_os w) p l b" and "length (text_in b) \<le> SIZE_MAX"
  shows "\<exists>w' k'. start api w = (Ret (), w') \<and> fs_os w' = fs_os w
    \<and> written (fs_control w') = written (fs_control w) @ greeting @ login_replies
        @ ''200 PORT command successful'' @ crlf @ download_replies (length (text_in b)) @ ''421 Goodbye'' @ crlf
    \<and> closed_socks (dm_net (fs_manager w')) = closed_socks (dm_net (fs_manager w)) @ [k']
    \<and> written k' = written k @ text_in b \<and> \<not> is_open k'"
proof -
  let ?n = "length (text_in b)" and ?w = "announced user hs port w" and ?o = "written (fs_control w) @ opening_replies"
  have st: "start api w = session_loop api (talk ?w (client_lines [''RETR '' @ name, ''QUIT'']) ?o)"
    using assms(15) by (intro dialogue_opening [OF assms(1,2,5,3,6,8-10,12-14)]) simp
  have "\<exists>k'. written k' = written k @ text_in b
      \<and> process_one_command api (talk ?w (client_lines ((''RETR '' @ name) # [''QUIT''])) ?o)
        = (Ret (), talk (downloaded k' ?n [] ?w) (client_lines [''QUIT'']) (?o @ download_replies ?n))"
    using assms(4,7,11,14,16-22)
    by (intro one_retr [OF assms(1)]) (simp_all add: announced_def active_at_def logged_in_def initial_state_def)
  then obtain k' where k': "written k' = written k @ text_in b"
    and r: "process_one_command api (talk ?w (client_lines ((''RETR '' @ name) # [''QUIT''])) ?o)
        = (Ret (), talk (downloaded k' ?n [] ?w) (client_lines [''QUIT'']) (?o @ download_replies ?n))" by blast
  have "start api w = session_loop api (talk (downloaded k' ?n [] ?w) (client_lines [''QUIT'']) (?o @ download_replies ?n))"
    unfolding st using loop_step [OF r] assms(12) by (simp add: announced_def del: client_lines_simps)
  also have "\<dots> = (Ret (), talk ((downloaded k' ?n [] ?w)\<lparr>fs_active := False\<rparr>) [] ((?o @ download_replies ?n) @ ''421 Goodbye'' @ crlf))"
    using assms(12,14) by (intro dialogue_quit [OF assms(1)]) (simp_all add: downloaded_def announced_def)
  finally show ?thesis
    using k' by (auto simp: talk_def downloaded_def announced_def opening_replies_def close_sock_def)
qed

lemma sample_port: "port_argument [127, 0, 0, 1] 20001 = ''127,0,0,1,78,33''"
proof -
  have "dec 127 = ''127''" "dec 0 = ''0''" "dec 1 = ''1''" "dec 78 = ''78''" "dec 33 = ''33''" by code_simp+
  then show ?thesis by (simp add: port_argument_def port_bytes)
qed

definition download_session :: FTPSession where
  "download_session =
     (sample_session (client_lines [''USER '' @ ''a'', ''PASS '' @ ''b'', ''PORT '' @ port_argument [127, 0, 0, 1] 20001, ''RETR '' @ ''a.txt'', ''QUIT'']))
       \<lparr>fs_manager := new_manager (open_net\<lparr>outgoing := [Inr idle_sock]\<rparr>)\<rparr>"

lemma download_dialogue_witness:
  "\<exists>w' k'. start latin_api download_session = (Ret (), w')
     \<and> written (fs_control w') = greeting @ login_replies @ ''200 PORT command successful'' @ crlf
         @ download_replies 5 @ ''421 Goodbye'' @ crlf
     \<and> closed_socks (dm_net (fs_manager w')) = [k'] \<and> written k' = ''hello''"
proof -
  let ?l = "(''D:'', [''ftp'', ''a.txt''])"
  have pl: "plain_line ''a''" "plain_line ''b''" "plain_line ''a.txt''" by code_simp+
  have pa: "length (port_argument [127, 0, 0, 1] 20001) < 900" by (simp only: sample_port) simp
  have r: "resolve sample_os served served ''a.txt'' = loc_str ?l" by code_simp
  have sv: "loc_str (''D:'', [''ftp'']) = served" by code_simp
  have "follow sample_os (loc_str ?l) = Inr ?l" by code_simp
  then have f: "regular_file sample_os (loc_str ?l) ?l ''hello''"
    using sample_file by (simp add: regular_file_def)
  have t: "text_in ''hello'' = ''hello''" by simp
  have "\<exists>w' k'. start latin_api download_session = (Ret (), w') \<and> fs_os w' = fs_os download_session
    \<and> written (fs_control w') = written (fs_control download_session) @ greeting @ login_replies
        @ ''200 PORT command successful'' @ crlf @ download_replies (length (text_in ''hello'')) @ ''421 Goodbye'' @ crlf
    \<and> closed_socks (dm_net (fs_manager w')) = closed_socks (dm_net (fs_manager download_session)) @ [k']
    \<and> written k' = written idle_sock @ text_in ''hello'' \<and> \<not> is_open k'"
    by (rule download_dialogue [where user = "''a''" and pw = "''b''" and name = "''a.txt''" and root = served and t = 0
          and p = "loc_str ?l" and l = ?l and hs = "[127, 0, 0, 1]" and port = 20001])
       (simp_all add: pl pa r f sv t download_session_def sample_session_def idle_sock_def quiet_def new_manager_def open_net_def
          no_send_errors_def SIZE_MAX_def del: One_nat_def)
  moreover have "length (text_in ''hello'') = 5" by simp
  moreover have "written (fs_control download_session) = []" "closed_socks (dm_net (fs_manager download_session)) = []"
    "written idle_sock = []"
    by (simp_all add: download_session_def sample_session_def idle_sock_def new_manager_def open_net_def)
  ultimately show ?thesis unfolding t by (metis append_Nil)
qed

text \<open>
  C21: A client that logs in, announces an address and port, uploads over an existing file and quits is
  told that the upload failed: the session answers \<open>550\<close> with the text of the error that ended the data
  connection, although the file by then holds the client's data, translated to text mode, over its old
  contents, whose tail beyond the data remains. The data connection is closed and the session ends
  normally. The names, the password, the lines and the connections are as for a download
  (\<open>download_dialogue\<close>); the file exists and may be written, what the client sends on the data connection
  ends in an error, end of file included, and the text of that error is ASCII.
\<close>

theorem upload_dialogue:
  assumes "ascii_api api" and "plain_line user" and "plain_line pw" and "plain_line name"
    and "length user < 900" and "length pw < 900" and "length name < 900"
    and "length hs = 4" and "port < 65536" and "length (port_argument hs port) < 900"
    and "fs_state w = initial_state root t" and "fs_active w" and "fs_buffer w = []" and "quiet (fs_control w)"
    and "to_read (fs_control w) = client_lines
      [''USER '' @ user, ''PASS '' @ pw, ''PORT '' @ port_argument hs port, ''STOR '' @ name, ''QUIT'']"
    and "outgoing (dm_net (fs_manager w)) = [Inr k]"
    and "address_error (dm_net (fs_manager w)) (join ''.'' (map dec hs)) = None"
    and "nonempty_reads k" and "first_error (to_read k) = Some e" and "length (delivered (to_read k)) < SIZE_MAX"
    and "is_ascii_text (what_of e)" and "resolve (fs_os w) root root name = p" and "p \<noteq> []"
    and "regular_file (fs_os w) p l b"
  shows "\<exists>w' k'. start api w = (Ret (), w')
    \<and> contents (fs_os w') l = overwrite 0 (text_out (delivered (to_read k))) b
    \<and> written (fs_control w') = written (fs_control w) @ greeting @ login_replies
        @ ''200 PORT command successful'' @ crlf @ upload_replies e @ ''421 Goodbye'' @ crlf
    \<and> closed_socks (dm_net (fs_manager w')) = closed_socks (dm_net (fs_manager w)) @ [k'] \<and> \<not> is_open k'"
proof -
  let ?w = "announced user hs port w" and ?o = "written (fs_control w) @ opening_replies"
  have st: "start api w = session_loop api (talk ?w (client_lines [''STOR '' @ name, ''QUIT'']) ?o)"
    using assms(15) by (intro dialogue_opening [OF assms(1,2,5,3,6,8-10,12-14)]) simp
  have "\<exists>os' k'. contents os' l = overwrite 0 (text_out (delivered (to_read k))) b
      \<and> process_one_command api (talk ?w (client_lines ((''STOR '' @ name) # [''QUIT''])) ?o)
        = (Ret (), talk (uploaded k' os' [] ?w) (client_lines [''QUIT'']) (?o @ upload_replies e))"
    using assms(4,7,11,14,16-24)
    by (intro one_stor [OF assms(1)]) (simp_all add: announced_def active_at_def logged_in_def initial_state_def)
  then obtain os' k' where k': "contents os' l = overwrite 0 (text_out (delivered (to_read k))) b"
    and r: "process_one_command api (talk ?w (client_lines ((''STOR '' @ name) # [''QUIT''])) ?o)
        = (Ret (), talk (uploaded k' os' [] ?w) (client_lines [''QUIT'']) (?o @ upload_replies e))" by blast
  have "start api w = session_loop api (talk (uploaded k' os' [] ?w) (client_lines [''QUIT'']) (?o @ upload_replies e))"
    unfolding st using loop_step [OF r] assms(12) by (simp add: announced_def del: client_lines_simps)
  also have "\<dots> = (Ret (), talk ((uploaded k' os' [] ?w)\<lparr>fs_active := False\<rparr>) [] ((?o @ upload_replies e) @ ''421 Goodbye'' @ crlf))"
    using assms(12,14) by (intro dialogue_quit [OF assms(1)]) (simp_all add: uploaded_def announced_def)
  finally show ?thesis
    using k' by (auto simp: talk_def uploaded_def announced_def opening_replies_def close_sock_def)
qed

definition upload_session :: FTPSession where
  "upload_session =
     (sample_session (client_lines [''USER '' @ ''a'', ''PASS '' @ ''b'', ''PORT '' @ port_argument [127, 0, 0, 1] 20001, ''STOR '' @ ''a.txt'', ''QUIT'']))
       \<lparr>fs_manager := new_manager (open_net\<lparr>outgoing := [Inr upload_sock]\<rparr>)\<rparr>"

lemma upload_dialogue_witness:
  "\<exists>w'. start latin_api upload_session = (Ret (), w')
     \<and> contents (fs_os w') (''D:'', [''ftp'', ''a.txt'']) = ''abllo''
     \<and> written (fs_control w') = greeting @ login_replies @ ''200 PORT command successful'' @ crlf
         @ upload_replies (System_error ''End of file'') @ ''421 Goodbye'' @ crlf"
proof -
  let ?l = "(''D:'', [''ftp'', ''a.txt''])"
  have pl: "plain_line ''a''" "plain_line ''b''" "plain_line ''a.txt''" by code_simp+
  have pa: "length (port_argument [127, 0, 0, 1] 20001) < 900" by (simp only: sample_port) simp
  have r: "resolve sample_os served served ''a.txt'' = loc_str ?l" by code_simp
  have sv: "loc_str (''D:'', [''ftp'']) = served" by code_simp
  have e: "is_ascii_text ''End of file''" by code_simp
  have "follow sample_os (loc_str ?l) = Inr ?l" by code_simp
  then have f: "regular_file sample_os (loc_str ?l) ?l ''hello''"
    using sample_file by (simp add: regular_file_def)
  have "\<exists>w' k'. start latin_api upload_session = (Ret (), w')
    \<and> contents (fs_os w') ?l = overwrite 0 (text_out (delivered (to_read upload_sock))) ''hello''
    \<and> written (fs_control w') = written (fs_control upload_session) @ greeting @ login_replies
        @ ''200 PORT command successful'' @ crlf @ upload_replies (System_error ''End of file'') @ ''421 Goodbye'' @ crlf
    \<and> closed_socks (dm_net (fs_manager w')) = closed_socks (dm_net (fs_manager upload_session)) @ [k'] \<and> \<not> is_open k'"
    by (rule upload_dialogue [where user = "''a''" and pw = "''b''" and name = "''a.txt''" and root = served and t = 0
          and p = "loc_str ?l" and hs = "[127, 0, 0, 1]" and port = 20001])
       (simp_all add: pl pa r f e sv upload_session_def sample_session_def idle_sock_def quiet_def new_manager_def open_net_def
          nonempty_reads_def upload_sock_def SIZE_MAX_def del: One_nat_def)
  moreover have "overwrite 0 (text_out (delivered (to_read upload_sock))) ''hello'' = ''abllo''"
    by (simp add: upload_sock_def overwrite_def text_out_def)
  moreover have "written (fs_control upload_session) = []"
    by (simp add: upload_session_def sample_session_def idle_sock_def)
  ultimately show ?thesis by auto
qed

end
