(* ===== verification/AccessControl.thy ===== *)
theory AccessControl
  imports PathGuard WinStdio
begin

text \<open>
  \<open>security/access_control\<close>: the file of users (\<open>FileUserStore\<close>), the interface it implements
  (\<open>IUserStore\<close>, the locale \<open>user_store\<close>), the access controller and the callback handler.
  The hash table of users is an association list with distinct keys; the order it is saved in
  is an argument.
\<close>

section \<open>Types\<close>

datatype AuthResult =
  SUCCESS | FAILURE | NO_SUCH_USER | WRONG_PASSWORD | ACCOUNT_DISABLED | NEED_PASSWORD

datatype AccessPermission = NONE | READ | WRITE | EXECUTE | ADMIN | FULL

record UserInfo =
  user_username :: string
  user_password_hash :: string
  user_home_directory :: string
  user_permission :: AccessPermission
  user_enabled :: bool

type_synonym users = "(string \<times> UserInfo) list"

record FileUserStore =
  store_config_path :: path
  store_users :: users

section \<open>FileUserStore\<close>

definition parse_permission :: "string \<Rightarrow> AccessPermission" where
  "parse_permission s =
     (if s = ''read'' then READ
      else if s = ''write'' then WRITE
      else if s = ''admin'' then ADMIN
      else NONE)"

definition parse_user :: "string \<Rightarrow> UserInfo option" where
  "parse_user line =
     (let parts = getlines (CHR '':'') line
      in if length parts < 5 then None
         else Some
           \<lparr>user_username = parts ! 0, user_password_hash = parts ! 1,
            user_home_directory = parts ! 2, user_permission = parse_permission (parts ! 3),
            user_enabled = (parts ! 4 = ''1'' \<or> parts ! 4 = ''true'')\<rparr>)"

fun load_lines :: "string list \<Rightarrow> users \<Rightarrow> users" where
  "load_lines [] us = us"
| "load_lines (l # ls) us =
     (case parse_user l of
        None \<Rightarrow> load_lines ls us
      | Some u \<Rightarrow> load_lines ls (AList.update (user_username u) u us))"

text \<open>The constructor, which loads the file.\<close>

definition load_users :: "path \<Rightarrow> (os, users) eff" where
  "load_users config_path =
     bindE (fs_exists config_path) (\<lambda>e.
     if \<not> e then ret []
     else bindE (getE (\<lambda>os. file_bytes os config_path)) (\<lambda>f.
       case f of
         None \<Rightarrow> ret []
       | Some b \<Rightarrow> ret (load_lines (getlines LF (text_in b)) [])))"

definition new_FileUserStore :: "path \<Rightarrow> (os, FileUserStore) eff" where
  "new_FileUserStore config_path =
     bindE (load_users config_path) (\<lambda>us.
     ret \<lparr>store_config_path = config_path, store_users = us\<rparr>)"

definition get_user :: "FileUserStore \<Rightarrow> string \<Rightarrow> UserInfo option" where
  "get_user st username = map_of (store_users st) username"

definition validate_password :: "FileUserStore \<Rightarrow> UserInfo \<Rightarrow> string \<Rightarrow> bool" where
  "validate_password st user password \<longleftrightarrow> user_password_hash user = password"

definition user_exists :: "FileUserStore \<Rightarrow> string \<Rightarrow> bool" where
  "user_exists st username \<longleftrightarrow> username \<in> fst ` set (store_users st)"

definition permission_text :: "AccessPermission \<Rightarrow> string" where
  "permission_text p =
     (case p of READ \<Rightarrow> ''read'' | WRITE \<Rightarrow> ''write'' | ADMIN \<Rightarrow> ''admin'' | _ \<Rightarrow> ''none'')"

definition user_line :: "string \<times> UserInfo \<Rightarrow> string" where
  "user_line ku =
     fst ku @ '':'' @ user_password_hash (snd ku) @ '':'' @ user_home_directory (snd ku) @ '':''
     @ permission_text (user_permission (snd ku)) @ '':''
     @ (if user_enabled (snd ku) then ''1'' else ''0'')"

definition save_users :: "(users \<Rightarrow> users) \<Rightarrow> FileUserStore \<Rightarrow> os \<Rightarrow> os" where
  "save_users order st os =
     (case open_trunc os (store_config_path st) of
        (Inl e, os') \<Rightarrow> os'
      | (Inr l, os') \<Rightarrow>
          set_contents l
            (text_out (concat (map (\<lambda>ku. user_line ku @ [LF]) (order (store_users st))))) os')"

definition put_user :: "UserInfo \<Rightarrow> FileUserStore \<Rightarrow> FileUserStore" where
  "put_user user st = st\<lparr>store_users := AList.update (user_username user) user (store_users st)\<rparr>"

definition add_user ::
    "(users \<Rightarrow> users) \<Rightarrow> UserInfo \<Rightarrow> FileUserStore \<times> os \<Rightarrow> FileUserStore \<times> os" where
  "add_user order user s = (let st = put_user user (fst s) in (st, save_users order st (snd s)))"

section \<open>AccessController\<close>

text \<open>The controller calls the store through its interface: the operations are arguments.\<close>

definition authenticate ::
    "(string \<Rightarrow> UserInfo option) \<Rightarrow> (UserInfo \<Rightarrow> string \<Rightarrow> bool) \<Rightarrow> string \<Rightarrow> string \<Rightarrow> AuthResult"
  where
  "authenticate get validate username password =
     (case get username of
        None \<Rightarrow> NO_SUCH_USER
      | Some user \<Rightarrow>
          if \<not> user_enabled user then ACCOUNT_DISABLED
          else if validate user password then SUCCESS
          else WRONG_PASSWORD)"

definition level_allows :: "AccessPermission \<Rightarrow> AccessPermission \<Rightarrow> bool" where
  "level_allows required p \<longleftrightarrow>
     (if required = NONE then True
      else if required = READ \<and> (p = READ \<or> p = WRITE \<or> p = ADMIN \<or> p = FULL) then True
      else if required = WRITE \<and> (p = WRITE \<or> p = ADMIN \<or> p = FULL) then True
      else if required = ADMIN \<and> p = ADMIN then True
      else False)"

definition allowed_root :: "path \<Rightarrow> UserInfo \<Rightarrow> (os, path) eff" where
  "allowed_root root_directory user =
     bindE (if user_home_directory user = [] then ret False
            else fs_exists (user_home_directory user)) (\<lambda>home.
     if home then fs_canonical (user_home_directory user)
     else fs_canonical root_directory)"

definition check_permission ::
    "(string \<Rightarrow> UserInfo option) \<Rightarrow> path \<Rightarrow> string \<Rightarrow> path \<Rightarrow> AccessPermission \<Rightarrow> (os, bool) eff"
  where
  "check_permission get root_directory username p required =
     (case get username of
        None \<Rightarrow> ret False
      | Some user \<Rightarrow>
          bindE (getE (\<lambda>os. canonical os p)) (\<lambda>c.
          case c of
            Inl ec \<Rightarrow> ret False
          | Inr c \<Rightarrow>
              bindE (allowed_root root_directory user) (\<lambda>rc.
              if \<not> starts_at_0 c rc then ret False
              else ret (level_allows required (user_permission user)))))"

definition get_home_directory :: "(string \<Rightarrow> UserInfo option) \<Rightarrow> path \<Rightarrow> string \<Rightarrow> path" where
  "get_home_directory get root_directory username =
     (case get username of
        Some user \<Rightarrow>
          if user_home_directory user \<noteq> [] then user_home_directory user else root_directory
      | None \<Rightarrow> root_directory)"

text \<open>\<open>AuthHandler::authenticate\<close>: without a callback everything is allowed.\<close>

definition handler_authenticate ::
    "(string \<Rightarrow> string \<Rightarrow> bool \<times> string) option \<Rightarrow> string \<Rightarrow> string \<Rightarrow> bool \<times> string" where
  "handler_authenticate callback username password =
     (case callback of Some f \<Rightarrow> f username password | None \<Rightarrow> (True, ''OK''))"

section \<open>The interface\<close>

locale user_store =
  fixes get :: "'s \<Rightarrow> string \<Rightarrow> UserInfo option"
    and validate :: "'s \<Rightarrow> UserInfo \<Rightarrow> string \<Rightarrow> bool"
    and exist :: "'s \<Rightarrow> string \<Rightarrow> bool"
    and add :: "UserInfo \<Rightarrow> 's \<Rightarrow> 's"
  assumes exist_iff: "exist s n \<longleftrightarrow> get s n \<noteq> None"
    and get_add: "get (add u s) n = (if n = user_username u then Some u else get s n)"
    and validate_iff: "validate s u p \<longleftrightarrow> user_password_hash u = p"
begin

lemma auth_success:
  "authenticate (get s) (validate s) n p = SUCCESS \<longleftrightarrow>
     (\<exists>u. get s n = Some u \<and> user_enabled u \<and> user_password_hash u = p)"
  by (auto simp: authenticate_def validate_iff split: option.splits)

lemma auth_unknown:
  "authenticate (get s) (validate s) n p = NO_SUCH_USER \<longleftrightarrow> \<not> exist s n"
  by (auto simp: authenticate_def exist_iff split: option.splits if_splits)

lemma auth_added:
  "authenticate (get (add u s)) (validate (add u s)) (user_username u) p =
     (if \<not> user_enabled u then ACCOUNT_DISABLED
      else if p = user_password_hash u then SUCCESS else WRONG_PASSWORD)"
  by (auto simp: authenticate_def validate_iff get_add)

lemma auth_other:
  "n \<noteq> user_username u \<Longrightarrow>
     authenticate (get (add u s)) (validate (add u s)) n p = authenticate (get s) (validate s) n p"
  by (auto simp: authenticate_def validate_iff get_add split: option.splits)

lemma permission_unknown:
  "\<not> exist s n \<Longrightarrow> check_permission (get s) root n p req os = (Ret False, os)"
  by (auto simp: check_permission_def exist_iff ret_def)

end

interpretation file_store: user_store
  "\<lambda>s :: FileUserStore \<times> os. get_user (fst s)" "\<lambda>s. validate_password (fst s)"
  "\<lambda>s. user_exists (fst s)" "add_user order" for order
  by unfold_locales
     (auto simp: get_user_def user_exists_def validate_password_def add_user_def put_user_def
       update_conv' Let_def map_of_eq_None_iff)

text \<open>
  A user just added logs in with exactly the password stored for the account, provided the
  account is enabled; every other user's login is as before.
\<close>

theorem login_after_add:
  "authenticate (get_user (fst (add_user order u s))) (validate_password (fst (add_user order u s))) n p =
     (if n = user_username u
      then (if \<not> user_enabled u then ACCOUNT_DISABLED
            else if p = user_password_hash u then SUCCESS else WRONG_PASSWORD)
      else authenticate (get_user (fst s)) (validate_password (fst s)) n p)"
  using file_store.auth_added [of order u s p] file_store.auth_other [of n u order s p] by simp

section \<open>Saving and loading\<close>

definition plain_field :: "string \<Rightarrow> bool" where
  "plain_field s \<longleftrightarrow> CHR '':'' \<notin> set s \<and> LF \<notin> set s \<and> CTRL_Z \<notin> set s"

definition plain_user :: "string \<times> UserInfo \<Rightarrow> bool" where
  \<comment> \<open>the home directory may have one colon, as the path of a drive has\<close>
  "plain_user ku \<longleftrightarrow> fst ku = user_username (snd ku) \<and> plain_field (fst ku)
     \<and> plain_field (user_password_hash (snd ku)) \<and> LF \<notin> set (user_home_directory (snd ku))
     \<and> CTRL_Z \<notin> set (user_home_directory (snd ku)) \<and> count_list (user_home_directory (snd ku)) (CHR '':'') \<le> 1"

definition saved :: "UserInfo \<Rightarrow> UserInfo" where
  \<comment> \<open>what the file keeps of a user without a colon in the home directory\<close>
  "saved u = u\<lparr>user_permission := parse_permission (permission_text (user_permission u))\<rparr>"

definition restored :: "UserInfo \<Rightarrow> UserInfo" where
  \<comment> \<open>what is read back: a colon ends the home directory, and what follows it is taken for the permission\<close>
  "restored u =
     (case find_char (CHR '':'') (user_home_directory u) of
        None \<Rightarrow> saved u
      | Some i \<Rightarrow>
          u\<lparr>user_home_directory := take i (user_home_directory u),
            user_permission := parse_permission (drop (Suc i) (user_home_directory u)), user_enabled := False\<rparr>)"

lemma saved_permission:
  "user_permission (saved u) =
     (if user_permission u = EXECUTE \<or> user_permission u = FULL then NONE else user_permission u)"
  by (cases "user_permission u") (simp_all add: saved_def parse_permission_def permission_text_def)

lemma plain_permission_text: "plain_field (permission_text p)"
  by (cases p) (simp_all add: plain_field_def permission_text_def)

lemma home_cases:
  assumes "plain_user (k, u)"
  obtains (whole) "plain_field (user_home_directory u)" "restored u = saved u"
  | (cut) h r where "user_home_directory u = h @ CHR '':'' # r" "plain_field h" "plain_field r"
      "restored u = u\<lparr>user_home_directory := h, user_permission := parse_permission r, user_enabled := False\<rparr>"
proof (cases "CHR '':'' \<in> set (user_home_directory u)")
  case False
  then have "find_char (CHR '':'') (user_home_directory u) = None" by (simp add: find_char_None)
  then show ?thesis using whole False assms by (simp add: plain_user_def plain_field_def restored_def)
next
  case True
  then obtain h r where h: "user_home_directory u = h @ CHR '':'' # r" "CHR '':'' \<notin> set h" using split_list_first by fastforce
  then have "count_list r (CHR '':'') = 0" using assms by (simp add: plain_user_def)
  then have "plain_field h" "plain_field r" using assms h by (auto simp: plain_user_def plain_field_def count_list_0_iff)
  moreover have "find_char (CHR '':'') (user_home_directory u) = Some (length h)"
    unfolding h(1) by (rule find_char_append [OF h(2)])
  ultimately show ?thesis using cut [OF h(1)] by (simp add: restored_def h(1))
qed

lemma line_fields:
  "user_line (k, u) = join [CHR '':''] [k, user_password_hash u, user_home_directory u,
      permission_text (user_permission u), if user_enabled u then ''1'' else ''0'']"
  "user_home_directory u = h @ CHR '':'' # r \<Longrightarrow>
    user_line (k, u) = join [CHR '':''] [k, user_password_hash u, h, r,
      permission_text (user_permission u), if user_enabled u then ''1'' else ''0'']"
  by (simp_all add: user_line_def)

lemma parse_user_line:
  assumes "plain_user (k, u)" shows "parse_user (user_line (k, u)) = Some (restored u)"
  using assms
proof (cases rule: home_cases)
  case whole
  let ?fs = "[k, user_password_hash u, user_home_directory u, permission_text (user_permission u),
    if user_enabled u then ''1'' else ''0'']"
  have "getlines (CHR '':'') (join [CHR '':''] ?fs) = ?fs"
    using whole(1) assms plain_permission_text [of "user_permission u"]
    by (intro getlines_join) (auto simp: plain_field_def plain_user_def)
  then show ?thesis
    using assms unfolding whole(2) line_fields(1) by (simp add: parse_user_def saved_def plain_user_def)
next
  case (cut h r)
  let ?p = "permission_text (user_permission u)"
  let ?fs = "[k, user_password_hash u, h, r, ?p, if user_enabled u then ''1'' else ''0'']"
  have "getlines (CHR '':'') (join [CHR '':''] ?fs) = ?fs"
    using cut(2,3) assms plain_permission_text [of "user_permission u"]
    by (intro getlines_join) (auto simp: plain_field_def plain_user_def)
  moreover have "?p \<noteq> ''1'' \<and> ?p \<noteq> ''true''"
    by (cases "user_permission u") (simp_all add: permission_text_def)
  ultimately show ?thesis
    using assms unfolding cut(4) line_fields(2) [OF cut(1)] by (simp add: parse_user_def plain_user_def)
qed

lemma user_line_plain:
  assumes "plain_user ku" shows "LF \<notin> set (user_line ku)" and "CTRL_Z \<notin> set (user_line ku)"
  using assms plain_permission_text [of "user_permission (snd ku)"]
  by (auto simp: user_line_def plain_user_def plain_field_def)

lemma load_lines_saved:
  "list_all plain_user us \<Longrightarrow> distinct (map fst us) \<Longrightarrow>
     map_of (load_lines (map user_line us) acc) n =
       (case map_of us n of Some u \<Rightarrow> Some (restored u) | None \<Rightarrow> map_of acc n)"
proof (induction us arbitrary: acc)
  case (Cons ku us)
  obtain k u where ku: "ku = (k, u)" by (cases ku)
  have k: "plain_user (k, u)" "user_username (restored u) = k"
    using Cons(2) ku by (auto simp: plain_user_def saved_def restored_def split: option.splits)
  have "map_of us k = None" using Cons(3) ku by (simp add: map_of_eq_None_iff)
  then show ?case
    using Cons k ku by (auto simp: parse_user_line update_conv' split: option.splits)
qed simp

lemma visits_map_of:
  assumes "visits_all order" "distinct (map fst us)"
  shows "distinct (map fst (order us))" and "map_of (order us) = map_of us"
proof -
  have o: "set (order us) = set us" "distinct (order us)"
    using assms by (auto simp: visits_all_def distinct_map)
  then show d: "distinct (map fst (order us))" using assms(2) by (simp add: distinct_map)
  show "map_of (order us) = map_of us"
    using o(1) d assms(2) by (auto simp: map_of_inject_set)
qed

definition users_text :: "(users \<Rightarrow> users) \<Rightarrow> users \<Rightarrow> string" where
  "users_text order us = concat (map (\<lambda>ku. user_line ku @ [LF]) (order us))"

lemma load_saved_text:
  assumes o: "visits_all order" and d: "distinct (map fst us)" and p: "list_all plain_user us"
  shows "map_of (load_lines (getlines LF (text_in (text_out (users_text order us)))) []) n =
    map_option restored (map_of us n)"
proof -
  have p': "list_all plain_user (order us)"
    using o p by (simp add: visits_all_def list_all_iff)
  then have "CTRL_Z \<notin> set (users_text order us)"
    using user_line_plain(2) by (auto simp: users_text_def list_all_iff)
  moreover have "getlines LF (users_text order us) = map user_line (order us)"
    using p' getlines_concat [of "map user_line (order us)" LF] user_line_plain(1)
    by (simp add: users_text_def list_all_iff comp_def)
  ultimately show ?thesis
    using load_lines_saved [OF p' visits_map_of(1) [OF o d], of "[]" n] visits_map_of(2) [OF o d]
    by (simp add: text_in_out split: option.splits)
qed

text \<open>
  C22: Adding a user writes the whole table to the configuration file so that a store created from that
  file knows exactly the same user names, for any iteration order of the hash table; and what it knows
  of each is \<open>restored\<close>: a user without a colon in the home directory comes back with the same fields,
  except that EXECUTE and FULL permissions are written as \<open>none\<close> and come back as NONE; of a home
  directory with one colon, as in the path of a drive, only the part before it comes back, what follows
  is taken for the permission, and the account is disabled. This is for a configuration file that exists
  and may be written, and users whose names and password hashes contain no colon, line feed or Ctrl-Z and
  whose home directories contain no line feed, no Ctrl-Z and at most one colon.
\<close>

theorem users_roundtrip:
  assumes cfgf: "follow os (store_config_path st) = Inr l" "lookup os l = Some (RegFile a b)" "writable a"
    and order: "visits_all order" and st': "st' = put_user u st"
    and d: "distinct (map fst (store_users st'))" and p: "list_all plain_user (store_users st')"
  shows "\<exists>re os'. new_FileUserStore (store_config_path st) (snd (add_user order u (st, os))) = (Ret re, os')
    \<and> (\<forall>n. get_user re n = map_option restored (get_user st' n))"
proof -
  let ?c = "store_config_path st" and ?t = "text_out (users_text order (store_users st'))"
  let ?os1 = "put_node l (RegFile (a\<lparr>mtime := now os\<rparr>) []) os"
  have cfg: "store_config_path st' = ?c" by (simp add: st' put_user_def)
  have "open_trunc os ?c = (Inr l, ?os1)" using cfgf by (simp add: open_trunc_def)
  then have os2: "snd (add_user order u (st, os)) = put_node l (RegFile (a\<lparr>mtime := now os\<rparr>) ?t) ?os1"
    (is "_ = ?os2")
    using cfg by (simp add: add_user_def save_users_def st' [symmetric] users_text_def set_contents_def)
  have "follow ?os2 ?c = Inr l"
    using cfgf by (simp add: follow_put_file)
  then have s: "status ?os2 ?c = Inr (RegFile (a\<lparr>mtime := now os\<rparr>) ?t)"
    by (simp add: status_def)
  then have "new_FileUserStore ?c ?os2 =
      (Ret \<lparr>store_config_path = ?c, store_users = load_lines (getlines LF (text_in ?t)) []\<rparr>, ?os2)"
    by (simp add: new_FileUserStore_def load_users_def fs_exists_def or_throw_def exists_ec_def
        eff_simps bindE_def file_bytes_def)
  then show ?thesis
    using load_saved_text [OF order d p] os2 by (simp add: get_user_def)
qed

definition alice :: UserInfo where
  "alice =
     \<lparr>user_username = ''alice'', user_password_hash = ''pw'', user_home_directory = ''/ftp'',
      user_permission = WRITE, user_enabled = True\<rparr>"

definition bob :: UserInfo where
  "bob = alice\<lparr>user_username := ''bob'', user_home_directory := served\<rparr>"

definition bob_store :: FileUserStore where
  "bob_store = \<lparr>store_config_path = served @ ''/a.txt'', store_users = [(''bob'', bob)]\<rparr>"

lemma plain_alice: "plain_user (''alice'', alice)" "plain_user (''bob'', bob)"
  by code_simp+

lemma follow_users: "follow sample_os (served @ ''/a.txt'') = Inr (''D:'', [''ftp'', ''a.txt''])"
  by code_simp

lemma lookup_a: "lookup sample_os (''D:'', [''ftp'', ''a.txt'']) = Some (RegFile plain_attr ''hello'')"
  by (simp add: lookup_def sample_os_def)

lemma users_roundtrip_witness:
  "\<exists>re os'. new_FileUserStore (served @ ''/a.txt'')
       (snd (add_user rev alice (bob_store, sample_os))) = (Ret re, os')
     \<and> get_user re ''alice'' = Some alice
     \<and> get_user re ''bob'' = Some (bob\<lparr>user_home_directory := ''D'', user_permission := NONE, user_enabled := False\<rparr>)"
proof -
  have put: "store_users (put_user alice bob_store) = [(''bob'', bob), (''alice'', alice)]"
    by (simp add: put_user_def bob_store_def alice_def)
  have w: "writable plain_attr" by (simp add: plain_attr_def writable_def)
  have r: "restored alice = alice"
    "restored bob = bob\<lparr>user_home_directory := ''D'', user_permission := NONE, user_enabled := False\<rparr>" by code_simp+
  show ?thesis
    using users_roundtrip [OF _ lookup_a w, of bob_store rev "put_user alice bob_store" alice]
      put plain_alice follow_users r
    by (auto simp: bob_store_def visits_all_def get_user_def)
qed

text \<open>
  The format has no room for a Windows path: a user whose home directory starts with a
  drive is written to the file, but read back with the drive's letter as home directory, with
  no permission and disabled (unless the rest of the home directory spells a permission).
\<close>

theorem drive_home_lost:
  assumes "plain_field n" and "plain_field (user_password_hash u)"
    and "user_home_directory u = [d] @ '':'' @ BSL # rest" and "plain_field (BSL # rest)" and "plain_field [d]"
  shows "parse_user (user_line (n, u)) =
    Some \<lparr>user_username = n, user_password_hash = user_password_hash u, user_home_directory = [d],
          user_permission = NONE, user_enabled = False\<rparr>"
proof -
  let ?p = "permission_text (user_permission u)"
  let ?fs = "[n, user_password_hash u, [d], BSL # rest, ?p, if user_enabled u then ''1'' else ''0'']"
  have "user_line (n, u) = join [CHR '':''] ?fs"
    using assms(3) by (simp add: user_line_def)
  moreover have "getlines (CHR '':'') (join [CHR '':''] ?fs) = ?fs"
    using assms plain_permission_text [of "user_permission u"]
    by (intro getlines_join) (auto simp: plain_field_def)
  moreover have "?p \<noteq> ''1'' \<and> ?p \<noteq> ''true''"
    by (cases "user_permission u") (simp_all add: permission_text_def)
  ultimately show ?thesis
    by (simp add: parse_user_def parse_permission_def)
qed

lemma drive_home_lost_witness:
  "parse_user (user_line (''bob'', bob)) =
     Some \<lparr>user_username = ''bob'', user_password_hash = ''pw'', user_home_directory = ''D'',
           user_permission = NONE, user_enabled = False\<rparr>"
  using drive_home_lost [of "''bob''" bob "CHR ''D''" "''ftp''"]
  by (simp add: plain_field_def bob_def alice_def served_def)

section \<open>Permissions\<close>

fun rank :: "AccessPermission \<Rightarrow> nat" where
  "rank NONE = 0"
| "rank READ = 1"
| "rank WRITE = 2"
| "rank EXECUTE = 0"
| "rank ADMIN = 3"
| "rank FULL = 2"

lemma level_allows_rank:
  "level_allows req p \<longleftrightarrow> req = NONE \<or> req \<noteq> EXECUTE \<and> req \<noteq> FULL \<and> rank req \<le> rank p"
  by (cases req; cases p) (simp_all add: level_allows_def)

text \<open>
  C23: For a user with an existing home directory the decision of \<open>check_permission\<close> on an
  existing path is: the path leads into the home directory (or beside it, under a name that
  extends the home's), and the permission asked for is none, or one of READ, WRITE and ADMIN
  not above the user's level, FULL counting as WRITE. EXECUTE and FULL are never granted.
\<close>

theorem check_permission_iff:
  assumes wf: "wf_os os" and u: "get n = Some u" and h: "user_home_directory u \<noteq> []"
    and r: "follow os (user_home_directory u) = Inr r" and l: "follow os p = Inr l"
  shows "check_permission get root n p req os =
    (Ret ((below r l \<or> beside r l) \<and>
       (req = NONE \<or> req \<noteq> EXECUTE \<and> req \<noteq> FULL \<and> rank req \<le> rank (user_permission u))), os)"
proof -
  have s: "solid os r" "solid os l" using r l follow_result_solid by blast+
  then have t: "starts_at_0 (loc_str l) (loc_str r) \<longleftrightarrow> below r l \<or> beside r l"
    using text_prefix_iff solid_valid [OF wf] by simp
  have c: "canonical os (user_home_directory u) = Inr (loc_str r)" "canonical os p = Inr (loc_str l)"
    using r l by (simp_all add: canonical_def)
  have "exists_ec os (user_home_directory u) = Inr True"
    using s(1) r by (auto simp: exists_ec_def status_def solid_def)
  then have "allowed_root root u os = (Ret (loc_str r), os)"
    using h c by (simp add: allowed_root_def fs_exists_def fs_canonical_def or_throw_def eff_simps)
  then show ?thesis
    using u c(2) t by (simp add: check_permission_def eff_simps level_allows_rank)
qed

lemma check_permission_iff_witness:
  "check_permission (\<lambda>n. Some bob) ''d:'' ''bob'' (path_append served ''a.txt'') READ sample_os =
     (Ret True, sample_os)"
proof -
  have "user_home_directory bob = served" by (simp add: bob_def alice_def)
  then show ?thesis
    using check_permission_iff [OF wf_sample_os, of "\<lambda>n. Some bob" "''bob''" bob _ _ _ "''d:''" READ]
      follow_served follow_file
    by (simp add: served_def below_def bob_def alice_def)
qed

end
