(* ===== verification/HttpParser.thy ===== *)
theory HttpParser
  imports HttpMessage Sockets
begin

text \<open>
  Reading one request from a connection: \<open>HttpParser::parse_request\<close>. The state is the socket
  and the \<open>streambuf\<close> the handler keeps between requests, as the bytes it holds: a read
  commits its bytes at the end, \<open>consume\<close> drops bytes at the front.
\<close>

record http_conn =
  conn_sock :: sock
  conn_buf :: string

definition on_sock :: "(sock, 'a) eff \<Rightarrow> (http_conn, 'a) eff" where
  "on_sock m c = (case m (conn_sock c) of (r, k) \<Rightarrow> (r, c\<lparr>conn_sock := k\<rparr>))"

text \<open>A read into the prepared end of the buffer, committed.\<close>

definition read_commit :: "nat \<Rightarrow> (http_conn, string) eff" where
  "read_commit n =
     bindE (on_sock (read_some n)) (\<lambda>bs.
     bindE (modE (\<lambda>c. c\<lparr>conn_buf := conn_buf c @ bs\<rparr>)) (\<lambda>_. ret bs))"

definition consume :: "nat \<Rightarrow> (http_conn, unit) eff" where
  "consume n = modE (\<lambda>c. c\<lparr>conn_buf := drop n (conn_buf c)\<rparr>)"

lemma read_commit_run:
  "read_commit n c =
     (case read_some n (conn_sock c) of
        (Ret bs, k) \<Rightarrow> (Ret bs, c\<lparr>conn_sock := k, conn_buf := conn_buf c @ bs\<rparr>)
      | (Exn e, k) \<Rightarrow> (Exn e, c\<lparr>conn_sock := k\<rparr>)
      | (Hang, k) \<Rightarrow> (Hang, c\<lparr>conn_sock := k\<rparr>))"
  by (cases "read_some n (conn_sock c)")
     (auto simp: read_commit_def on_sock_def bindE_def modE_def ret_def split: outcome.splits)

text \<open>The loop that reads the rest of the body, at most 4096 bytes at a time.\<close>

function read_body :: "nat \<Rightarrow> string \<Rightarrow> http_conn \<Rightarrow> string outcome \<times> http_conn" where
  "read_body n body c =
     (if length body < n
      then (case read_commit (if n - length body < 4096 then n - length body else 4096) c of
              (Ret bs, c') \<Rightarrow> read_body n (body @ bs) c'
            | (Exn e, c') \<Rightarrow> (Exn e, c')
            | (Hang, c') \<Rightarrow> (Hang, c'))
      else (Ret body, c))"
  by pat_completeness auto
termination
  by (relation "measure (\<lambda>(n, body, c). pending (conn_sock c))")
     (auto simp: read_commit_run dest: read_some_pending split: prod.splits outcome.splits)

declare read_body.simps [simp del]

definition blank_line :: string where
  "blank_line = crlf @ crlf"

definition read_content ::
    "string \<Rightarrow> nat \<Rightarrow> HttpRequest \<Rightarrow> (http_conn, string + HttpRequest) eff" where
  \<comment> \<open>\<open>cotent_sv\<close> is the view of the bytes read, \<open>e\<close> the position of the blank line\<close>
  "read_content cotent_sv e r =
     (case map_of (req_headers r) ''content-length'' of
        None \<Rightarrow> ret (Inr r)
      | Some v \<Rightarrow>
          bindE (liftE (stoul v)) (\<lambda>n.
          let r1 = r\<lparr>req_content_length := n\<rparr>
          in if 0 < n
             then bindE (read_body n (drop (e + 4) cotent_sv)) (\<lambda>body.
                    ret (Inr (r1\<lparr>req_body := body\<rparr>)))
             else ret (Inr r1)))"

text \<open>
  \<open>parse_request\<close>: a left result is the error of the \<open>expected\<close> type. Without a blank line in
  the view the header text is empty, and an empty request line is refused.
\<close>

definition parse_request ::
    "winapi \<Rightarrow> HttpMethod \<Rightarrow> HttpVersion \<Rightarrow> (http_conn, string + HttpRequest) eff" where
  "parse_request api m0 v0 =
     bindE (read_commit 4096) (\<lambda>bytes.
     bindE (getE (\<lambda>c. take (length bytes) (conn_buf c))) (\<lambda>cotent_sv.
     let empty_line = find_str blank_line cotent_sv;
         header_sv = (case empty_line of None \<Rightarrow> [] | Some e \<Rightarrow> take e cotent_sv)
     in bindE (case empty_line of None \<Rightarrow> ret () | Some e \<Rightarrow> consume (e + 4)) (\<lambda>_.
        case parse_request_line header_sv (new_request m0 v0) of
          None \<Rightarrow> ret (Inl ''Invalid request line'')
        | Some r1 \<Rightarrow>
            bindE (liftE (encode_narrow api Char_t Char8_t (c_str (req_path r1)))) (\<lambda>path.
            bindE (liftE (parse_headers header_sv (r1\<lparr>req_path := path\<rparr>))) (\<lambda>r2.
            read_content cotent_sv (the empty_line) r2)))))"

section \<open>Reading the body\<close>

lemma read_body_done: "n \<le> length body \<Longrightarrow> read_body n body c = (Ret body, c)"
  by (subst read_body.simps) simp

lemma read_body_result:
  "read_body n body c = (Ret b, c') \<Longrightarrow>
     prefix body b \<and> length b = max n (length body)"
proof (induction n body c rule: read_body.induct)
  case (1 n body c)
  show ?case
  proof (cases "length body < n")
    case True
    let ?m = "if n - length body < 4096 then n - length body else 4096"
    from 1(2) True obtain bs c1
      where rd: "read_commit ?m c = (Ret bs, c1)" and rec: "read_body n (body @ bs) c1 = (Ret b, c')"
      by (subst (asm) read_body.simps) (auto split: prod.splits outcome.splits if_splits)
    have "length bs \<le> ?m"
      using rd by (auto simp: read_commit_run split: prod.splits outcome.splits dest: read_some_length)
    then have "length (body @ bs) \<le> n" using True by (auto split: if_splits)
    moreover have "prefix (body @ bs) b \<and> length b = max n (length (body @ bs))"
      using 1(1) [OF True rd [symmetric] _ rec] by simp
    ultimately show ?thesis using True by (auto elim: prefixE)
  next
    case False
    then show ?thesis using 1(2) by (simp add: read_body_done)
  qed
qed

text \<open>
  The body is the bytes the peer sends after the part already read, cut at the declared
  length, however the network splits them: as long as enough bytes arrive before an error. The bytes
  read stay in the stream buffer, and nothing beyond the body is taken from the connection.
\<close>

lemma read_body_delivered:
  assumes "length body \<le> n" and "n \<le> length body + length (delivered (to_read (conn_sock c)))"
  shows "\<exists>c'. read_body n body c =
           (Ret (body @ take (n - length body) (delivered (to_read (conn_sock c)))), c')
    \<and> conn_buf c' = conn_buf c @ take (n - length body) (delivered (to_read (conn_sock c)))
    \<and> delivered (to_read (conn_sock c')) = drop (n - length body) (delivered (to_read (conn_sock c)))"
  using assms
proof (induction n body c rule: read_body.induct)
  case (1 n body c)
  let ?k = "conn_sock c"
  show ?case
  proof (cases "length body < n")
    case True
    let ?m = "if n - length body < 4096 then n - length body else 4096"
    have "delivered (to_read ?k) \<noteq> []" using True 1(3) by auto
    then obtain bs k1 where rd: "read_some ?m ?k = (Ret bs, k1)"
      by (rule read_some_ready)
    let ?c1 = "c\<lparr>conn_sock := k1, conn_buf := conn_buf c @ bs\<rparr>"
    have rc: "read_commit ?m c = (Ret bs, ?c1)" using rd by (simp add: read_commit_run)
    have len: "length bs \<le> ?m" by (rule read_some_length [OF rd])
    then have le: "length (body @ bs) \<le> n" using True by (auto split: if_splits)
    have del: "delivered (to_read ?k) = bs @ delivered (to_read k1)"
      by (rule read_some_delivered [OF rd])
    have "\<exists>c'. read_body n (body @ bs) ?c1 =
        (Ret ((body @ bs) @ take (n - length (body @ bs)) (delivered (to_read k1))), c')
      \<and> conn_buf c' = (conn_buf c @ bs) @ take (n - length (body @ bs)) (delivered (to_read k1))
      \<and> delivered (to_read (conn_sock c')) = drop (n - length (body @ bs)) (delivered (to_read k1))"
      using 1(1) [OF True rc [symmetric]] le 1(3) del by simp
    moreover have "take (n - length body) (delivered (to_read ?k))
        = bs @ take (n - length (body @ bs)) (delivered (to_read k1))"
      "drop (n - length body) (delivered (to_read ?k)) = drop (n - length (body @ bs)) (delivered (to_read k1))"
      using le by (simp_all add: del)
    ultimately show ?thesis
      using True rc by (subst read_body.simps) simp
  next
    case False
    with 1(2) show ?thesis by (simp add: read_body_done)
  qed
qed

section \<open>A whole request\<close>

text \<open>A request with a body, as a client renders it.\<close>

definition client_head :: "HttpMethod \<Rightarrow> string \<Rightarrow> string \<Rightarrow> string" where
  "client_head m p body =
     method_to_string m @ '' '' @ encode_url p @ '' HTTP/1.1'' @ crlf
     @ ''Content-Length: '' @ dec (length body)"

lemma client_head_line:
  "parse_request_line (client_head m p body) r =
     Some (r\<lparr>req_method := m, req_path := p, req_version := UNKNOWN\<rparr>)"
proof -
  let ?ps = "[method_to_string m, encode_url p, ''HTTP/1.1'' @ crlf @ ''Content-Length:'', dec (length body)]"
  have "CHR '' '' \<notin> set (dec n)" for n
    by (rule dec_not_mem) (simp add: char_class)
  then have "\<forall>w\<in>set ?ps. CHR '' '' \<notin> set w"
    using method_string_no_space [of m] by (simp add: crlf_def)
  then have "split (join [CHR '' ''] ?ps) (CHR '' '') = ?ps"
    unfolding split_eq_ref by (intro split_ref_join) simp_all
  moreover have "client_head m p body = join [CHR '' ''] ?ps"
    by (simp add: client_head_def crlf_def)
  ultimately show ?thesis
    by (simp add: parse_request_line_def decode_encode crlf_def)
qed

lemma method_string_plain:
  "CHR '':'' \<notin> set (method_to_string m)" "LF \<notin> set (method_to_string m)"
  "CR \<notin> set (method_to_string m)"
  by (cases m; simp add: method_to_string_def)+

lemma dec_plain [simp]: "LF \<notin> set (dec n)" "CR \<notin> set (dec n)"
  by (rule dec_not_mem, simp add: char_class)+

lemma dec_ends: "hd (dec n) \<noteq> CHR '' ''" "hd (dec n) \<noteq> TAB" "last (dec n) \<noteq> CR"
  using dec_digits [of "hd (dec n)" n] dec_digits [of "last (dec n)" n]
  by (auto simp: char_class)

lemma getlines_two:
  "LF \<notin> set a \<Longrightarrow> LF \<notin> set b \<Longrightarrow> b \<noteq> [] \<Longrightarrow> getlines LF (a @ LF # b) = [a, b]"
  by (simp add: getlines_Cons getlines_last)

lemma lower_content_length: "to_lower ''Content-Length'' = ''content-length''"
  by code_simp

lemma client_head_lines:
  "getlines LF (client_head m p body) =
     [method_to_string m @ '' '' @ encode_url p @ '' HTTP/1.1'' @ [CR],
      ''Content-Length'' @ '': '' @ dec (length body)]"
proof -
  let ?a = "method_to_string m @ '' '' @ encode_url p @ '' HTTP/1.1'' @ [CR]"
  let ?b = "''Content-Length'' @ '': '' @ dec (length body)"
  have "client_head m p body = ?a @ LF # ?b"
    by (simp add: client_head_def crlf_def)
  moreover have "getlines LF (?a @ LF # ?b) = [?a, ?b]"
    by (rule getlines_two) (simp_all add: method_string_plain)
  ultimately show ?thesis by simp
qed

lemma client_head_headers:
  assumes "length body < 2 ^ 32" and "req_headers r = []"
  shows "parse_headers (client_head m p body) r =
    Ret (r\<lparr>req_headers := [(''content-length'', dec (length body))],
           req_content_length := length body\<rparr>)"
proof -
  let ?a = "method_to_string m @ '' '' @ encode_url p @ '' HTTP/1.1'' @ [CR]"
  let ?b = "''Content-Length'' @ '': '' @ dec (length body)"
  have a: "parse_header_line ?a r = Ret r"
    by (rule parse_header_line_colonless) (simp add: method_string_plain)
  have b: "parse_header_line ?b r = store_header ''content-length'' (dec (length body)) r"
    unfolding lower_content_length [symmetric]
    by (rule parse_header_line_field) (simp_all add: dec_ends)
  have "store_header ''content-length'' (dec (length body)) r =
      Ret (r\<lparr>req_headers := [(''content-length'', dec (length body))],
             req_content_length := length body\<rparr>)"
    using assms by (simp add: store_header_def stoul_dec)
  then show ?thesis
    by (simp only: parse_headers_def client_head_lines parse_header_lines.simps a b outcome.case)
qed

lemma no_blank_line:
  assumes "LF \<notin> set a" and "LF \<notin> set b" and "b \<noteq> []"
  shows "\<not> sublist blank_line (a @ LF # b @ [CR, LF, CR])"
proof
  assume "sublist blank_line (a @ LF # b @ [CR, LF, CR])"
  then obtain u v where e: "a @ LF # b @ [CR, LF, CR] = u @ blank_line @ v"
    by (auto simp: sublist_def)
  have z: "count_list a LF = 0" "count_list b LF = 0"
    using assms by simp_all
  have "count_list (a @ LF # b @ [CR, LF, CR]) LF = count_list (u @ blank_line @ v) LF"
    by (simp only: e)
  then have c: "count_list u LF = 0"
    using z by (simp add: blank_line_def crlf_def)
  then have u: "LF \<notin> set u"
    by (simp add: count_list_0_iff)
  have "split_ref LF (a @ LF # (b @ [CR]) @ LF # [CR]) = a # (b @ [CR]) # split_ref LF [CR]"
    using assms by (subst split_ref_append; simp add: split_ref_append [of LF "b @ [CR]", simplified])
  moreover have "split_ref LF ((u @ [CR]) @ LF # [CR] @ LF # v) = (u @ [CR]) # [CR] # split_ref LF v"
    using u by (simp add: split_ref_append [of LF "u @ [CR]", simplified])
  moreover have "a @ LF # (b @ [CR]) @ LF # [CR] = (u @ [CR]) @ LF # [CR] @ LF # v"
    using e by (simp add: blank_line_def crlf_def)
  ultimately show False using assms(3) by simp
qed

lemma client_head_ends:
  "find_str blank_line (client_head m p body @ blank_line @ rest) = Some (length (client_head m p body))"
proof (rule find_str_at)
  let ?a = "method_to_string m @ '' '' @ encode_url p @ '' HTTP/1.1'' @ [CR]"
  let ?b = "''Content-Length: '' @ dec (length body)"
  have "client_head m p body @ butlast blank_line = ?a @ LF # ?b @ [CR, LF, CR]"
    by (simp add: client_head_def blank_line_def crlf_def)
  moreover have "\<not> sublist blank_line (?a @ LF # ?b @ [CR, LF, CR])"
    by (rule no_blank_line) (simp_all add: method_string_plain)
  ultimately show "\<not> sublist blank_line (client_head m p body @ butlast blank_line)"
    by simp
qed (simp add: blank_line_def crlf_def)

lemma parse_client_request:
  assumes api: "ascii_api api" and p: "is_ascii_text p" "p \<noteq> []"
    and buf: "conn_buf c = []"
    and seg: "to_read (conn_sock c) = Inr (client_head m p body @ blank_line @ b0) # rs"
    and fits: "length (client_head m p body @ blank_line @ b0) \<le> 4096"
    and body: "prefix body (b0 @ delivered rs)" "length b0 \<le> length body" "length body < 2 ^ 32"
  shows "\<exists>r c'. parse_request api m0 v0 c = (Ret (Inr r), c')
    \<and> req_method r = m \<and> req_path r = p \<and> req_body r = body
    \<and> req_content_length r = length body \<and> req_version r = UNKNOWN
    \<and> conn_buf c' = body \<and> delivered (to_read (conn_sock c')) = drop (length body - length b0) (delivered rs)"
proof -
  let ?h = "client_head m p body" and ?n = "length body"
  define k1 where "k1 = (conn_sock c)\<lparr>to_read := rs\<rparr>"
  define c1 where "c1 = c\<lparr>conn_sock := k1, conn_buf := ?h @ blank_line @ b0\<rparr>"
  define c2 where "c2 = c1\<lparr>conn_buf := b0\<rparr>"
  define r1 where "r1 = (new_request m0 v0)\<lparr>req_method := m, req_path := p, req_version := UNKNOWN\<rparr>"
  define r2 where "r2 = r1\<lparr>req_headers := [(''content-length'', dec ?n)], req_content_length := ?n\<rparr>"
  have rd: "read_commit 4096 c = (Ret (?h @ blank_line @ b0), c1)"
    using seg fits buf by (simp add: read_commit_run read_some_segment c1_def k1_def)
  have cb: "conn_buf c1 = ?h @ blank_line @ b0" by (simp add: c1_def)
  have cs: "consume (length ?h + 4) c1 = (Ret (), c2)"
    by (simp add: consume_def eff_simps c1_def c2_def blank_line_def crlf_def)
  have line: "parse_request_line ?h (new_request m0 v0) = Some r1"
    by (simp add: client_head_line r1_def)
  have enc: "encode_narrow api Char_t Char8_t (c_str (req_path r1)) = Ret p" "r1\<lparr>req_path := p\<rparr> = r1"
    using api p by (simp_all add: r1_def encode_narrow_ascii)
  have hdr: "parse_headers ?h r1 = Ret r2"
    using client_head_headers [of body r1 m p] body(3) by (simp add: r1_def r2_def new_request_def)
  obtain z where z: "b0 @ delivered rs = body @ z" using body(1) by (auto simp: prefix_def)
  have "length (b0 @ delivered rs) = length (body @ z)" by (simp only: z)
  then obtain c3 where "read_body ?n b0 c2 = (Ret (b0 @ take (?n - length b0) (delivered rs)), c3)"
    and c3: "conn_buf c3 = b0 @ take (?n - length b0) (delivered rs)"
      "delivered (to_read (conn_sock c3)) = drop (?n - length b0) (delivered rs)"
    using read_body_delivered [of b0 ?n c2] body(2) by (auto simp: c2_def c1_def k1_def)
  moreover have b: "b0 @ take (?n - length b0) (delivered rs) = body"
    using arg_cong [OF z, of "take ?n"] body(2) by simp
  ultimately have bd: "read_body ?n b0 c2 = (Ret body, c3)" by simp
  have st: "stoul (dec ?n) = Ret ?n" using body(3) by (simp add: stoul_dec)
  have "parse_request api m0 v0 c =
      read_content (?h @ blank_line @ b0) (length ?h) r2 c2"
    using rd cs line enc hdr cb
    by (simp add: parse_request_def eff_simps client_head_ends Let_def)
  also have "\<dots> = (if 0 < ?n then (Ret (Inr (r2\<lparr>req_body := body\<rparr>)), c3) else (Ret (Inr r2), c2))"
    using bd st by (simp add: read_content_def eff_simps r2_def blank_line_def crlf_def)
  finally show ?thesis
    using c3 b body(2) by (auto simp: r2_def r1_def new_request_def c2_def c1_def k1_def)
qed

text \<open>
  C19: A request whose only header is its Content-Length, sent by a client with its head and blank line
  in the first segment and its body split over that segment and the following ones in any way, is parsed
  to the method, the path and the body the client sent. The version comes out as \<open>UNKNOWN\<close>, because the
  request line is split together with the headers. All of the body stays in the stream buffer, where
  the next request finds it, and of the connection exactly the bytes up to the end of the body are read.
  This is for a nonempty ASCII path, percent-encoded by the client, a first segment of at most 4096
  bytes that holds no more than the body after the head, a body shorter than 4 GiB that arrives before any
  error, and a buffer that is empty before.
\<close>

theorem parse_request_roundtrip:
  assumes api: "ascii_api api" and p: "is_ascii_text p" "p \<noteq> []"
    and buf: "conn_buf c = []"
    and seg: "to_read (conn_sock c) = Inr (client_head m p body @ blank_line @ b0) # rs"
    and fits: "length (client_head m p body @ blank_line @ b0) \<le> 4096"
    and body: "prefix body (b0 @ delivered rs)" "length b0 \<le> length body" "length body < 2 ^ 32"
  shows "\<exists>r c'. parse_request api m0 v0 c = (Ret (Inr r), c')
    \<and> req_method r = m \<and> req_path r = p \<and> req_body r = body
    \<and> req_content_length r = length body \<and> req_version r = UNKNOWN
    \<and> conn_buf c' = body \<and> delivered (to_read (conn_sock c')) = drop (length body - length b0) (delivered rs)"
  by (rule parse_client_request [OF assms])

lemma parse_request_roundtrip_witness:
  "\<exists>r c'. parse_request latin_api GET UNKNOWN
       \<lparr>conn_sock = \<lparr>to_read = [Inr (client_head PUT ''/a.txt'' ''hello'' @ blank_line @ ''he''),
                                Inr ''l'', Inr ''lo''],
                     write_faults = [], send_sizes = [], written = [], is_open = True\<rparr>,
        conn_buf = []\<rparr> = (Ret (Inr r), c')
     \<and> req_method r = PUT \<and> req_path r = ''/a.txt'' \<and> req_body r = ''hello''
     \<and> req_content_length r = length ''hello'' \<and> req_version r = UNKNOWN
     \<and> conn_buf c' = ''hello'' \<and> delivered (to_read (conn_sock c'))
         = drop (length ''hello'' - length ''he'') (delivered [Inr ''l'', Inr ''lo''])"
proof (rule parse_request_roundtrip [OF ascii_latin_api])
  show "is_ascii_text ''/a.txt''" by code_simp
  show "length (client_head PUT ''/a.txt'' ''hello'' @ blank_line @ ''he'') \<le> 4096" by code_simp
  show "prefix ''hello'' (''he'' @ delivered [Inr ''l'', Inr ''lo''])" by code_simp
qed simp_all

end
