(* ===== verification/StdCopy.thy ===== *)
theory StdCopy
  imports StdFsInv
begin

text \<open>
  \<open>std::filesystem::copy\<close> with the options \<open>recursive\<close> and \<open>overwrite_existing\<close>: files are
  copied over, directories are made and their entries copied in the same way. The pairs still
  to copy are kept in a list, depth first. Copying a directory into itself never comes to an
  end here (on a real disk the path gets too long at some point), so the whole is a partial
  function: \<open>None\<close> when it does not return.
\<close>

definition make_dir_like :: "os \<Rightarrow> path \<Rightarrow> attr \<Rightarrow> errc option \<times> os" where
  \<comment> \<open>\<open>create_directory\<close> with an existing directory as the template of its attributes\<close>
  "make_dir_like os p a =
     (case locate os p of
        Inl e \<Rightarrow> (Some e, os)
      | Inr l \<Rightarrow>
          if lookup os l = None
          then (None, put_node l (Directory \<lparr>perms = perms a, mtime = now os\<rparr>) os)
          else (Some File_exists, os))"

definition entry_names :: "os \<Rightarrow> path \<Rightarrow> string list" where
  "entry_names os p =
     (case follow os p of Inl e \<Rightarrow> [] | Inr d \<Rightarrow> map (\<lambda>l. last (snd l)) (children os d))"

definition the_status :: "os \<Rightarrow> path \<Rightarrow> errc + node option" where
  "the_status os p =
     (case status os p of Inr n \<Rightarrow> Inr (Some n) | Inl e \<Rightarrow> if not_found e then Inr None else Inl e)"

text \<open>
  One call, up to the iteration: the error it ends with, or the entries to go on with. The
  standard leaves open which error reports two names of one file or a directory copied onto a
  file.
\<close>

definition copy_one :: "path \<Rightarrow> path \<Rightarrow> os \<Rightarrow> (errc + string list) \<times> os" where
  "copy_one f t os =
     (case the_status os f of
        Inl e \<Rightarrow> (Inl e, os)
      | Inr None \<Rightarrow> (Inl No_such_file, os)
      | Inr (Some fn) \<Rightarrow>
          (case the_status os t of
             Inl e \<Rightarrow> (Inl e, os)
           | Inr tn \<Rightarrow>
               if tn \<noteq> None \<and> follow os f = follow os t then (Inl File_exists, os)
               else (case fn of
                 RegFile a b \<Rightarrow>
                   let q = (if is_dir_node tn then path_append t (filename f) else t)
                   in (case fs_copy_file os f q of
                         (Some e, os') \<Rightarrow> (Inl e, os')
                       | (None, os') \<Rightarrow> (Inr [], os'))
               | Directory a \<Rightarrow>
                   (case tn of
                      None \<Rightarrow>
                        (case make_dir_like os t a of
                           (Some e, os') \<Rightarrow> (Inl e, os')
                         | (None, os') \<Rightarrow> (Inr (entry_names os' f), os'))
                    | Some n \<Rightarrow>
                        if is_dir_node tn then (Inr (entry_names os f), os)
                        else (Inl File_exists, os))
               | Symlink s \<Rightarrow> (Inr [], os))))"

definition pairs :: "path \<Rightarrow> path \<Rightarrow> string list \<Rightarrow> (path \<times> path) list" where
  "pairs f t ns = map (\<lambda>n. (path_append f n, path_append t n)) ns"

partial_function (option) copy_all :: "(path \<times> path) list \<Rightarrow> os \<Rightarrow> (errc option \<times> os) option" where
  "copy_all ps os =
     (case ps of
        [] \<Rightarrow> Some (None, os)
      | p # rest \<Rightarrow>
          (case copy_one (fst p) (snd p) os of
             (Inl e, os') \<Rightarrow> Some (Some e, os')
           | (Inr ns, os') \<Rightarrow> copy_all (pairs (fst p) (snd p) ns @ rest) os'))"

declare copy_all.simps [code]

definition fs_copy :: "path \<Rightarrow> path \<Rightarrow> os \<Rightarrow> (errc option \<times> os) option" where
  "fs_copy f t os = copy_all [(f, t)] os"

text \<open>What every step keeps, the whole keeps.\<close>

lemma copy_all_invariant:
  assumes "copy_all ps os = Some (r, os')" and "I ps os"
    and step: "\<And>f t rest s ns s'. I ((f, t) # rest) s \<Longrightarrow> copy_one f t s = (Inr ns, s') \<Longrightarrow>
        I (pairs f t ns @ rest) s'"
    and err: "\<And>f t rest s e s'. I ((f, t) # rest) s \<Longrightarrow> copy_one f t s = (Inl e, s') \<Longrightarrow> I [] s'"
  shows "I [] os'"
proof -
  have "I ps os \<longrightarrow> I [] (snd y)" if "copy_all ps os = Some y" for ps os y
    using that
  proof (rule copy_all.raw_induct [rotated])
    fix g ps os y
    assume IH: "\<And>ps os y. g ps os = Some y \<Longrightarrow> I ps os \<longrightarrow> I [] (snd y)"
      and run: "(case ps of [] \<Rightarrow> Some (None, os)
        | p # rest \<Rightarrow>
            (case copy_one (fst p) (snd p) os of
               (Inl e, os') \<Rightarrow> Some (Some e, os')
             | (Inr ns, os') \<Rightarrow> g (pairs (fst p) (snd p) ns @ rest) os')) = Some y"
    show "I ps os \<longrightarrow> I [] (snd y)"
    proof (cases ps)
      case (Cons p rest)
      obtain x s' where c: "copy_one (fst p) (snd p) os = (x, s')" by (cases "copy_one (fst p) (snd p) os")
      show ?thesis
      proof (cases x)
        case (Inl e)
        then show ?thesis using run Cons c err [of "fst p" "snd p" rest os e s'] by auto
      next
        case (Inr ns)
        then show ?thesis
          using run Cons c step [of "fst p" "snd p" rest os ns s'] IH by auto
      qed
    qed (use run in auto)
  qed
  then show ?thesis using assms(1,2) by fastforce
qed

end
