(* ===== verification/DavXml.thy ===== *)
theory DavXml
  imports HttpMessage
begin

text \<open>
  \<open>webdav/dav_namespaces.hpp\<close>: the builder of the XML answers, which appends text to a string,
  and an abstract document whose rendering that text is meant to be.
\<close>

section \<open>The builder\<close>

record DavXmlBuilder =
  xml_text :: string

definition append_xml :: "string \<Rightarrow> DavXmlBuilder \<Rightarrow> DavXmlBuilder" where
  "append_xml s b = b\<lparr>xml_text := xml_text b @ s\<rparr>"

definition new_builder :: DavXmlBuilder where
  "new_builder = \<lparr>xml_text = []\<rparr>"

definition escape_char :: "char \<Rightarrow> string" where
  "escape_char c =
     (if c = CHR ''&'' then ''&amp;''
      else if c = CHR ''<'' then ''&lt;''
      else if c = CHR ''>'' then ''&gt;''
      else if c = CHR 0x22 then ''&quot;''
      else if c = CHR 0x27 then ''&apos;''
      else [c])"

definition escape_xml :: "string \<Rightarrow> string" where
  "escape_xml s = concat (map escape_char s)"

definition add_declaration :: "DavXmlBuilder \<Rightarrow> DavXmlBuilder" where
  \<open>add_declaration = append_xml ''<?xml version="1.0" encoding="UTF-8"?>''\<close>

definition add_dav_ns :: "DavXmlBuilder \<Rightarrow> DavXmlBuilder" where
  \<open>add_dav_ns = append_xml ''<D:multistatus xmlns:D="DAV:">''\<close>

definition start_response :: "string \<Rightarrow> DavXmlBuilder \<Rightarrow> DavXmlBuilder" where
  \<open>start_response href =
     append_xml (''<D:response xmlns:D="DAV:"><D:href>'' @ escape_xml href @ ''</D:href>'')\<close>

definition end_response :: "DavXmlBuilder \<Rightarrow> DavXmlBuilder" where
  "end_response = append_xml ''</D:response>''"

definition start_propstat :: "DavXmlBuilder \<Rightarrow> DavXmlBuilder" where
  "start_propstat = append_xml ''<D:propstat>''"

definition end_propstat :: "DavXmlBuilder \<Rightarrow> DavXmlBuilder" where
  "end_propstat = append_xml ''</D:propstat>''"

definition start_prop :: "DavXmlBuilder \<Rightarrow> DavXmlBuilder" where
  "start_prop = append_xml ''<D:prop>''"

definition end_prop :: "DavXmlBuilder \<Rightarrow> DavXmlBuilder" where
  "end_prop = append_xml ''</D:prop>''"

definition add_status :: "nat \<Rightarrow> string \<Rightarrow> DavXmlBuilder \<Rightarrow> DavXmlBuilder" where
  "add_status code msg =
     append_xml (''<D:status>HTTP/1.1 '' @ dec code @ '' '' @ msg @ ''</D:status>'')"

definition add_contentlength :: "nat \<Rightarrow> DavXmlBuilder \<Rightarrow> DavXmlBuilder" where
  "add_contentlength n =
     append_xml (''<D:getcontentlength>'' @ dec n @ ''</D:getcontentlength>'')"

definition add_lastmodified :: "string \<Rightarrow> DavXmlBuilder \<Rightarrow> DavXmlBuilder" where
  "add_lastmodified date =
     append_xml (''<D:getlastmodified>'' @ date @ ''</D:getlastmodified>'')"

definition add_resourcetype :: "bool \<Rightarrow> DavXmlBuilder \<Rightarrow> DavXmlBuilder" where
  "add_resourcetype is_collection =
     append_xml (if is_collection then ''<D:resourcetype><D:collection/></D:resourcetype>''
                 else ''<D:resourcetype/>'')"

definition add_creationdate :: "string \<Rightarrow> DavXmlBuilder \<Rightarrow> DavXmlBuilder" where
  "add_creationdate date =
     append_xml (''<D:creationdate>'' @ date @ ''</D:creationdate>'')"

definition add_displayname :: "string \<Rightarrow> DavXmlBuilder \<Rightarrow> DavXmlBuilder" where
  "add_displayname name =
     append_xml (''<D:displayname>'' @ escape_xml name @ ''</D:displayname>'')"

text \<open>The indentation of the source text is part of this one.\<close>

definition indent :: "nat \<Rightarrow> string" where
  "indent n = LF # replicate n (CHR '' '')"

definition lock_entry :: "string \<Rightarrow> string" where
  "lock_entry scope =
     indent 12 @ ''<D:lockentry>''
     @ indent 16 @ ''<D:lockscope><D:'' @ scope @ ''/></D:lockscope>''
     @ indent 16 @ ''<D:locktype><D:write/></D:locktype>''
     @ indent 12 @ ''</D:lockentry>''"

definition add_supportedlock :: "DavXmlBuilder \<Rightarrow> DavXmlBuilder" where
  "add_supportedlock =
     append_xml (''<D:supportedlock>'' @ lock_entry ''exclusive'' @ lock_entry ''shared''
       @ indent 8 @ ''</D:supportedlock>'')"

definition start_multistatus :: "DavXmlBuilder \<Rightarrow> DavXmlBuilder" where
  \<open>start_multistatus = append_xml ''<D:multistatus xmlns:D="DAV:">''\<close>

definition end_multistatus :: "DavXmlBuilder \<Rightarrow> DavXmlBuilder" where
  "end_multistatus = append_xml ''</D:multistatus>''"

definition build :: "DavXmlBuilder \<Rightarrow> string \<times> DavXmlBuilder" where
  \<comment> \<open>the text is moved out\<close>
  "build b = (xml_text b, b\<lparr>xml_text := []\<rparr>)"

definition reset :: "DavXmlBuilder \<Rightarrow> DavXmlBuilder" where
  "reset b = b\<lparr>xml_text := []\<rparr>"

lemma append_xml_text [simp]: "xml_text (append_xml s b) = xml_text b @ s"
  by (simp add: append_xml_def)

section \<open>Escaping\<close>

definition markup :: "char set" where
  "markup = {CHR ''<'', CHR ''>'', CHR 0x22, CHR 0x27}"

lemma escape_xml_simps [simp]:
  "escape_xml [] = []" "escape_xml (c # s) = escape_char c @ escape_xml s"
  "escape_xml (s @ t) = escape_xml s @ escape_xml t"
  by (simp_all add: escape_xml_def)

lemma escape_char_plain: "c \<notin> markup \<Longrightarrow> c \<noteq> CHR ''&'' \<Longrightarrow> escape_char c = [c]"
  by (auto simp: escape_char_def markup_def)

lemma escape_xml_plain: "set s \<inter> markup = {} \<Longrightarrow> CHR ''&'' \<notin> set s \<Longrightarrow> escape_xml s = s"
  by (induction s) (auto simp: escape_char_plain)

lemma escape_char_safe: "d \<in> set (escape_char c) \<Longrightarrow> d \<notin> markup"
  by (auto simp: escape_char_def markup_def split: if_splits)

lemma escape_xml_safe: "d \<in> set (escape_xml s) \<Longrightarrow> d \<notin> markup"
  by (induction s) (auto dest: escape_char_safe)

text \<open>Reading escaped text back: the five entities, anything else as it stands.\<close>

definition entities :: "(string \<times> char) list" where
  "entities =
     [(''&amp;'', CHR ''&''), (''&lt;'', CHR ''<''), (''&gt;'', CHR ''>''),
      (''&quot;'', CHR 0x22), (''&apos;'', CHR 0x27)]"

definition first_entity :: "string \<Rightarrow> (string \<times> char) option" where
  "first_entity s = find (\<lambda>(e, c). prefix e s) entities"

function unescape_xml :: "string \<Rightarrow> string" where
  "unescape_xml [] = []"
| "unescape_xml (c # s) =
     (case first_entity (c # s) of
        Some (e, d) \<Rightarrow> d # unescape_xml (drop (length e) (c # s))
      | None \<Rightarrow> c # unescape_xml s)"
  by pat_completeness auto
termination
  by (relation "measure length")
     (auto simp: first_entity_def entities_def split: if_splits)

lemma unescape_char: "unescape_xml (escape_char c @ s) = c # unescape_xml s"
proof -
  have e: "first_entity (escape_char c @ s) =
      (if c \<in> markup \<or> c = CHR ''&'' then Some (escape_char c, c) else None)"
    by (auto simp: first_entity_def entities_def escape_char_def markup_def)
  have "escape_char c \<noteq> []" by (simp add: escape_char_def)
  then obtain x xs where x: "escape_char c = x # xs" by (cases "escape_char c") auto
  show ?thesis
  proof (cases "c \<in> markup \<or> c = CHR ''&''")
    case True
    have "unescape_xml (x # xs @ s) = c # unescape_xml (drop (length (escape_char c)) (x # xs @ s))"
      using e True x by simp
    then show ?thesis using x by simp
  next
    case False
    then show ?thesis using e by (simp add: escape_char_plain)
  qed
qed

lemma unescape_escape [simp]: "unescape_xml (escape_xml s) = s"
  by (induction s) (simp_all add: unescape_char)

section \<open>Documents\<close>

text \<open>An element with its attributes and content, an element without content, and text.\<close>

datatype xml = Elem string string "xml list" | Leaf string | Text string

fun render :: "xml \<Rightarrow> string" where
  "render (Elem n as ks) =
     ''<'' @ n @ as @ ''>'' @ concat (map render ks) @ ''</'' @ n @ ''>''"
| "render (Leaf n) = ''<'' @ n @ ''/>''"
| "render (Text t) = escape_xml t"

definition dav_xmlns :: string where
  \<open>dav_xmlns = '' xmlns:D="DAV:"''\<close>

definition xml_declaration :: string where
  \<open>xml_declaration = ''<?xml version="1.0" encoding="UTF-8"?>''\<close>

end
