(* ===== verification/DavResource.thy ===== *)
theory DavResource
  imports AsyncFs StdCopy DavXml WinText
begin

text \<open>
  \<open>webdav/dav_resource\<close>: files and collections behind the interface \<open>IDavResource\<close>, and the
  factory that makes them from a path. A resource is an object of one request: a handler
  creates it, calls one method and drops it, with its list of locks.
\<close>

section \<open>Types\<close>

record DavLock =
  lk_token :: string
  lk_owner :: string
  lk_expires :: int
  lk_exclusive :: bool
  lk_path :: string

datatype ResourceType = FILE | COLLECTION

datatype DavResource = DavFile path "DavLock list" | DavCollection path "DavLock list"

text \<open>
  What the handler takes from outside: the conversion API, the iteration order of a header
  table, the UTC calendar, the ticks of the clock, and the values of fields nobody sets.
\<close>

record dav_env =
  de_api :: winapi
  de_order :: "(string \<times> string) list \<Rightarrow> (string \<times> string) list"
  de_gmtime :: "os \<Rightarrow> tm"
  de_ticks :: "os \<Rightarrow> nat"
  de_method :: HttpMethod
  de_version :: HttpVersion

fun get_type :: "DavResource \<Rightarrow> ResourceType" where
  "get_type (DavFile p ls) = FILE"
| "get_type (DavCollection p ls) = COLLECTION"

fun get_path :: "DavResource \<Rightarrow> path" where
  "get_path (DavFile p ls) = p"
| "get_path (DavCollection p ls) = p"

fun get_locks :: "DavResource \<Rightarrow> DavLock list" where
  "get_locks (DavFile p ls) = ls"
| "get_locks (DavCollection p ls) = ls"

text \<open>The size of a file is all ones when it cannot be read.\<close>

fun get_size :: "os \<Rightarrow> DavResource \<Rightarrow> nat" where
  "get_size os (DavFile p ls) = (case file_size_ec os p of Inr n \<Rightarrow> n | Inl e \<Rightarrow> 2 ^ 64 - 1)"
| "get_size os (DavCollection p ls) = 0"

section \<open>Files\<close>

text \<open>The loop of \<open>DavFile::get\<close>: blocks of 64 KB, the last one shorter.\<close>

definition BLOCK :: nat where
  "BLOCK = 65536"

function get_loop :: "string \<Rightarrow> string \<Rightarrow> string" where
  "get_loop rest output =
     (let bs = take BLOCK rest
      in if bs = [] then output else get_loop (drop BLOCK rest) (output @ bs))"
  by pat_completeness auto
termination
  by (relation "measure (\<lambda>(rest, output). length rest)") (auto simp: BLOCK_def)

declare get_loop.simps [simp del]

definition file_get :: "path \<Rightarrow> string \<Rightarrow> (os, string) eff" where
  \<comment> \<open>the output stream before and after\<close>
  "file_get p output os =
     (case file_size_ec os p of
        Inl ec \<Rightarrow> (Exn (Runtime_error ''Cannot get file size''), os)
      | Inr n \<Rightarrow>
          (case status os p of
             Inr (RegFile a b) \<Rightarrow> (Ret (get_loop b output), os)
           | _ \<Rightarrow> (Exn (Runtime_error ''Cannot open file''), os)))"

text \<open>
  The loop of \<open>DavFile::put\<close> stops when nothing remains to be read, and subtracts what it read.
  \<open>None\<close> means that it never stops.
\<close>

partial_function (option) put_loop :: "nat \<Rightarrow> string \<Rightarrow> string \<Rightarrow> string option" where
  "put_loop left input out =
     (if left = 0 then Some out
      else
        let bs = take (min BLOCK left) input
        in put_loop (left - length bs) (drop (length bs) input) (out @ bs))"

declare put_loop.simps [code]

definition file_put :: "path \<Rightarrow> string \<Rightarrow> nat \<Rightarrow> (os, unit) eff" where
  "file_put p input n os =
     (case open_trunc os p of
        (Inl e, os') \<Rightarrow> (Exn (Runtime_error ''Cannot create file''), os')
      | (Inr l, os') \<Rightarrow>
          (case put_loop n input [] of
             None \<Rightarrow> (Hang, os')
           | Some written \<Rightarrow> (Ret (), set_contents l written os')))"

definition file_remove :: "path \<Rightarrow> (os, bool) eff" where
  "file_remove p = bindE (remove_file p) (\<lambda>_. ret True)"

definition file_copy :: "path \<Rightarrow> path \<Rightarrow> (os, unit) eff" where
  "file_copy p dest os = error_of ''Copy failed: '' (fs_copy_file os p dest)"

definition file_move :: "path \<Rightarrow> path \<Rightarrow> (os, unit) eff" where
  "file_move p dest os = error_of ''Move failed: '' (fs_rename os p dest)"

text \<open>
  The time of the last write, or the earliest file time (in seconds of the Unix epoch) when
  the file is gone; and its text, in local time, which the code labels GMT.
\<close>

definition last_write :: "os \<Rightarrow> path \<Rightarrow> int" where
  "last_write os p =
     (case last_write_time_ec os p of
        Inr t \<Rightarrow> t
      | Inl e \<Rightarrow> - (2 ^ 63) div 10000000 - 11644473600)"

definition date_buf :: "os \<Rightarrow> path \<Rightarrow> string" where
  "date_buf os p = getHttpDate (local_tm os (last_write os p))"

definition file_properties :: "winapi \<Rightarrow> os \<Rightarrow> path \<Rightarrow> DavXmlBuilder \<Rightarrow> DavXmlBuilder" where
  "file_properties api os p =
     fold (\<lambda>f. f)
       [add_contentlength (get_size os (DavFile p [])),
        add_lastmodified (date_buf os p),
        add_creationdate (date_buf os p),
        add_displayname (encodeFilename api (filename p)),
        add_resourcetype False]"

section \<open>Collections\<close>

definition collection_get :: "path \<Rightarrow> string \<Rightarrow> (os, string) eff" where
  "collection_get p output = ret output"

definition collection_put :: "path \<Rightarrow> string \<Rightarrow> nat \<Rightarrow> (os, unit) eff" where
  "collection_put p input n = raise (Runtime_error ''Cannot PUT to a collection'')"

definition collection_remove :: "path \<Rightarrow> (os, bool) eff" where
  "collection_remove p = bindE (remove_directory p) (\<lambda>_. ret True)"

definition collection_copy :: "path \<Rightarrow> path \<Rightarrow> (os, unit) eff" where
  "collection_copy p dest os =
     (case fs_copy p dest os of
        None \<Rightarrow> (Hang, os)
      | Some r \<Rightarrow> error_of ''Copy failed: '' r)"

definition collection_move :: "path \<Rightarrow> path \<Rightarrow> (os, unit) eff" where
  "collection_move p dest os = error_of ''Move failed: '' (fs_rename os p dest)"

definition collection_properties :: "winapi \<Rightarrow> path \<Rightarrow> DavXmlBuilder \<Rightarrow> DavXmlBuilder" where
  "collection_properties api p =
     fold (\<lambda>f. f)
       [add_creationdate ''Thu, 01 Jan 1970 00:00:00 GMT'',
        add_displayname (encodeFilename api (filename p)),
        add_resourcetype True]"

definition create_child :: "path \<Rightarrow> string \<Rightarrow> bool \<Rightarrow> (os, unit) eff" where
  "create_child p name collection =
     (let child = path_append p name
      in if collection then create_directory child
         else modE (\<lambda>os. snd (open_trunc os child)))"

section \<open>Locks\<close>

definition make_lock :: "dav_env \<Rightarrow> os \<Rightarrow> path \<Rightarrow> string \<Rightarrow> bool \<Rightarrow> DavLock" where
  "make_lock env os p owner exclusive =
     \<lparr>lk_token = ''urn:uuid:'' @ hex_lower (de_ticks env os), lk_owner = owner,
      lk_expires = now os + 15 * 60, lk_exclusive = exclusive,
      lk_path = encodeFilename (de_api env) p\<rparr>"

definition file_lock :: "dav_env \<Rightarrow> os \<Rightarrow> string \<Rightarrow> bool \<Rightarrow> path \<Rightarrow> DavLock list \<Rightarrow> DavLock \<times> DavResource" where
  "file_lock env os owner exclusive p ls =
     (let l = make_lock env os p owner exclusive in (l, DavFile p (ls @ [l])))"

definition collection_lock ::
    "dav_env \<Rightarrow> os \<Rightarrow> string \<Rightarrow> bool \<Rightarrow> path \<Rightarrow> DavLock list \<Rightarrow> DavLock \<times> DavResource" where
  "collection_lock env os owner exclusive p ls =
     (let l = make_lock env os p owner exclusive in (l, DavCollection p (ls @ [l])))"

text \<open>The first lock with the token is erased.\<close>

fun erase_token :: "string \<Rightarrow> DavLock list \<Rightarrow> bool \<times> DavLock list" where
  "erase_token t [] = (False, [])"
| "erase_token t (l # ls) =
     (if lk_token l = t then (True, ls)
      else case erase_token t ls of (b, ls') \<Rightarrow> (b, l # ls'))"

definition file_unlock :: "string \<Rightarrow> path \<Rightarrow> DavLock list \<Rightarrow> bool \<times> DavResource" where
  "file_unlock t p ls = (case erase_token t ls of (b, ls') \<Rightarrow> (b, DavFile p ls'))"

definition collection_unlock :: "string \<Rightarrow> path \<Rightarrow> DavLock list \<Rightarrow> bool \<times> DavResource" where
  "collection_unlock t p ls = (case erase_token t ls of (b, ls') \<Rightarrow> (b, DavCollection p ls'))"

section \<open>The interface\<close>

fun res_get :: "DavResource \<Rightarrow> string \<Rightarrow> (os, string) eff" where
  "res_get (DavFile p ls) = file_get p"
| "res_get (DavCollection p ls) = collection_get p"

fun res_put :: "DavResource \<Rightarrow> string \<Rightarrow> nat \<Rightarrow> (os, unit) eff" where
  "res_put (DavFile p ls) = file_put p"
| "res_put (DavCollection p ls) = collection_put p"

fun res_remove :: "DavResource \<Rightarrow> (os, bool) eff" where
  "res_remove (DavFile p ls) = file_remove p"
| "res_remove (DavCollection p ls) = collection_remove p"

fun res_copy :: "DavResource \<Rightarrow> path \<Rightarrow> (os, unit) eff" where
  "res_copy (DavFile p ls) = file_copy p"
| "res_copy (DavCollection p ls) = collection_copy p"

fun res_move :: "DavResource \<Rightarrow> path \<Rightarrow> (os, unit) eff" where
  "res_move (DavFile p ls) = file_move p"
| "res_move (DavCollection p ls) = collection_move p"

fun lock :: "dav_env \<Rightarrow> os \<Rightarrow> string \<Rightarrow> bool \<Rightarrow> DavResource \<Rightarrow> DavLock \<times> DavResource" where
  "lock env os owner exclusive (DavFile p ls) = file_lock env os owner exclusive p ls"
| "lock env os owner exclusive (DavCollection p ls) = collection_lock env os owner exclusive p ls"

fun unlock :: "string \<Rightarrow> DavResource \<Rightarrow> bool \<times> DavResource" where
  "unlock t (DavFile p ls) = file_unlock t p ls"
| "unlock t (DavCollection p ls) = collection_unlock t p ls"

fun get_properties :: "winapi \<Rightarrow> os \<Rightarrow> DavResource \<Rightarrow> DavXmlBuilder \<Rightarrow> DavXmlBuilder" where
  "get_properties api os (DavFile p ls) = file_properties api os p"
| "get_properties api os (DavCollection p ls) = collection_properties api p"

section \<open>The factory\<close>

definition create :: "path \<Rightarrow> (os, DavResource option) eff" where
  "create p =
     bindE (getE (\<lambda>os. exists_ec os p)) (\<lambda>there.
     case there of
       Inr True \<Rightarrow>
         bindE (fs_is_directory p) (\<lambda>is_dir.
         ret (Some (if is_dir then DavCollection p [] else DavFile p [])))
     | _ \<Rightarrow> ret None)"

section \<open>What the loops do\<close>

lemma get_loop_all: "get_loop rest output = output @ rest"
proof (induction rest "output" rule: get_loop.induct)
  case (1 rest out)
  show ?case
  proof (cases "take BLOCK rest = []")
    case True
    then have "rest = []" by (simp add: BLOCK_def)
    then show ?thesis by (simp add: get_loop.simps)
  next
    case False
    then show ?thesis using 1 by (subst get_loop.simps) simp
  qed
qed

lemma put_loop_enough: "n \<le> length input \<Longrightarrow> put_loop n input out = Some (out @ take n input)"
proof (induction n arbitrary: input out rule: less_induct)
  case (less n)
  show ?case
  proof (cases "n = 0")
    case True
    then show ?thesis by (subst put_loop.simps) simp
  next
    case False
    let ?m = "min BLOCK n"
    have m: "0 < ?m" "?m \<le> n" using False by (simp_all add: BLOCK_def)
    have len: "length (take ?m input) = ?m" using less(2) m(2) by simp
    have "put_loop n input out = put_loop (n - ?m) (drop ?m input) (out @ take ?m input)"
      using False len by (subst put_loop.simps) (simp add: Let_def)
    also have "\<dots> = Some ((out @ take ?m input) @ take (n - ?m) (drop ?m input))"
      using less(1) [of "n - ?m" "drop ?m input"] less(2) m by simp
    finally have "put_loop n input out = Some (out @ take ?m input @ take (n - ?m) (drop ?m input))"
      by simp
    moreover have "take ?m input @ take (n - ?m) (drop ?m input) = take n input"
      using m(2) take_add [of ?m "n - ?m" input] by simp
    ultimately show ?thesis by simp
  qed
qed

lemma put_loop_returns: "put_loop n input out = Some r \<Longrightarrow> n \<le> length input"
proof (rule put_loop.raw_induct [where P = "\<lambda>n input out r. n \<le> length input", rotated])
  fix g :: "nat \<Rightarrow> string \<Rightarrow> string \<Rightarrow> string option" and n input out r
  assume IH: "\<And>n input out r. g n input out = Some r \<Longrightarrow> n \<le> length input"
    and run: "(if n = 0 then Some out
      else let bs = take (min BLOCK n) input
           in g (n - length bs) (drop (length bs) input) (out @ bs)) = Some r"
  show "n \<le> length input"
  proof (cases "n = 0")
    case False
    let ?bs = "take (min BLOCK n) input"
    have "n - length ?bs \<le> length (drop (length ?bs) input)"
      using run False by (intro IH) (simp add: Let_def)
    moreover have "length ?bs \<le> length input" by simp
    ultimately show ?thesis by simp
  qed simp
qed

lemma put_loop_iff:
  "put_loop n input out = (if n \<le> length input then Some (out @ take n input) else None)"
  using put_loop_enough [of n input out] put_loop_returns [of n input out]
  by (cases "put_loop n input out") auto

end
