(* ===== verification/DavHandler.thy ===== *)
theory DavHandler
  imports HttpParser DavResource
begin

text \<open>
  \<open>webdav/dav_handler\<close>: the methods of WebDAV over the resolver, the resources and the parser,
  and the loop that serves one connection.
\<close>

section \<open>State\<close>

record DavRequestHandler =
  dh_conn :: http_conn
  dh_os :: os
  dh_root :: path

definition on_conn :: "(http_conn, 'a) eff \<Rightarrow> (DavRequestHandler, 'a) eff" where
  "on_conn m w = (case m (dh_conn w) of (r, c) \<Rightarrow> (r, w\<lparr>dh_conn := c\<rparr>))"

definition on_fs :: "(os, 'a) eff \<Rightarrow> (DavRequestHandler, 'a) eff" where
  "on_fs m w = (case m (dh_os w) of (r, os) \<Rightarrow> (r, w\<lparr>dh_os := os\<rparr>))"

definition send_text :: "string \<Rightarrow> (DavRequestHandler, unit) eff" where
  "send_text s = on_conn (on_sock (write_all s))"

definition new_handler :: "sock \<Rightarrow> os \<Rightarrow> path \<Rightarrow> DavRequestHandler" where
  "new_handler k os root =
     \<lparr>dh_conn = \<lparr>conn_sock = k, conn_buf = []\<rparr>, dh_os = os, dh_root = root\<rparr>"

section \<open>Answers\<close>

definition answer :: "nat \<Rightarrow> string \<Rightarrow> HttpResponse" where
  "answer code message = new_response\<lparr>resp_status_code := code, resp_status_message := message\<rparr>"

definition with_headers :: "(string \<times> string) list \<Rightarrow> HttpResponse \<Rightarrow> HttpResponse" where
  "with_headers hs r = fold (\<lambda>(k, v). set_header k v) hs r"

definition with_text :: "string \<Rightarrow> string \<Rightarrow> HttpResponse \<Rightarrow> HttpResponse" where
  \<comment> \<open>a body with its type and length\<close>
  "with_text content_type b r =
     with_headers [(''Content-Type'', content_type), (''Content-Length'', dec (length b))]
       (r\<lparr>resp_body := b\<rparr>)"

definition allowed_methods :: string where
  "allowed_methods =
     ''GET, HEAD, PUT, DELETE, MKCOL, PROPFIND, PROPPATCH, COPY, MOVE, LOCK, UNLOCK, OPTIONS''"

definition method_not_allowed :: HttpResponse where
  "method_not_allowed =
     with_headers [(''Allow'', allowed_methods)] (answer 405 ''Method Not Allowed'')"

definition not_found_response :: HttpResponse where
  "not_found_response = with_text ''text/plain'' ''Resource not found'' (answer 404 ''Not Found'')"

definition forbidden :: HttpResponse where
  "forbidden = with_text ''text/plain'' ''Access denied'' (answer 403 ''Forbidden'')"

definition precondition_failed :: "string \<Rightarrow> HttpResponse" where
  "precondition_failed message =
     with_text ''text/plain'' message (answer 412 ''Precondition Failed'')"

section \<open>Paths\<close>

definition request_target :: "string \<Rightarrow> (DavRequestHandler, path) eff" where
  \<comment> \<open>\<open>resolve_path\<close> on the handler's root\<close>
  "request_target p =
     bindE (getE (\<lambda>w. resolve_path (dh_os w) (dh_root w) p)) liftE"

definition destination_path :: "string \<Rightarrow> string" where
  "destination_path destination =
     (if starts_at_0 destination ''http://'' \<or> starts_at_0 destination ''https://''
      then (case find_char_from (CHR ''/'') destination 8 of
              Some pos \<Rightarrow> drop pos destination
            | None \<Rightarrow> destination)
      else destination)"

definition resolve_destination :: "string \<Rightarrow> (DavRequestHandler, path) eff" where
  "resolve_destination destination = request_target (destination_path destination)"

text \<open>The beginning most methods share: the path, the resource on it, or 404.\<close>

definition with_resource ::
    "string \<Rightarrow> (path \<Rightarrow> DavResource \<Rightarrow> (DavRequestHandler, HttpResponse) eff)
       \<Rightarrow> (DavRequestHandler, HttpResponse) eff" where
  "with_resource p f =
     bindE (request_target p) (\<lambda>path.
     if path = [] then ret not_found_response
     else
       bindE (on_fs (create path)) (\<lambda>resource.
       case resource of
         None \<Rightarrow> ret not_found_response
       | Some res \<Rightarrow> f path res))"

section \<open>Methods\<close>

definition head_response :: "os \<Rightarrow> DavResource \<Rightarrow> HttpResponse" where
  "head_response os res =
     with_headers
       [(''Content-Type'', ''application/octet-stream''),
        (''Content-Length'', dec (get_size os res))]
       (answer 200 ''OK'')"

definition process_get :: "dav_env \<Rightarrow> HttpRequest \<Rightarrow> (DavRequestHandler, HttpResponse) eff" where
  "process_get env request =
     with_resource (req_path request) (\<lambda>path res.
     bindE (getE (\<lambda>w. head_response (dh_os w) res)) (\<lambda>response.
     bindE (send_text (generate_response (de_order env) response)) (\<lambda>_.
     bindE (on_fs (res_get res [])) (\<lambda>body.
     bindE (send_text body) (\<lambda>_.
     ret response)))))"

definition process_head :: "HttpRequest \<Rightarrow> (DavRequestHandler, HttpResponse) eff" where
  "process_head request =
     with_resource (req_path request) (\<lambda>path res. getE (\<lambda>w. head_response (dh_os w) res))"

text \<open>PUT: the resource, made first when there is none.\<close>

definition put_resource :: "path \<Rightarrow> (os, DavResource option) eff" where
  "put_resource path =
     bindE (create path) (\<lambda>resource.
     case resource of
       Some res \<Rightarrow> ret (Some res)
     | None \<Rightarrow> bindE (modE (\<lambda>os. snd (open_trunc os path))) (\<lambda>_. create path))"

definition process_put :: "HttpRequest \<Rightarrow> (DavRequestHandler, HttpResponse) eff" where
  "process_put request =
     bindE (request_target (req_path request)) (\<lambda>path.
     if path = [] then ret not_found_response
     else
       bindE (on_fs (put_resource path)) (\<lambda>resource.
       case resource of
         None \<Rightarrow> ret forbidden
       | Some res \<Rightarrow>
           if get_type res = COLLECTION then ret method_not_allowed
           else
             bindE (on_fs (res_put res (req_body request) (req_content_length request))) (\<lambda>_.
             ret (answer 201 ''Created''))))"

definition process_delete :: "HttpRequest \<Rightarrow> (DavRequestHandler, HttpResponse) eff" where
  "process_delete request =
     with_resource (req_path request) (\<lambda>path res.
     bindE (on_fs (res_remove res)) (\<lambda>removed.
     ret (if removed then answer 204 ''No Content'' else answer 500 ''Internal Server Error'')))"

definition process_mkcol :: "HttpRequest \<Rightarrow> (DavRequestHandler, HttpResponse) eff" where
  "process_mkcol request =
     bindE (request_target (req_path request)) (\<lambda>path.
     if path = [] then ret not_found_response
     else
       bindE (on_fs (fs_exists path)) (\<lambda>there.
       if there
       then ret ((answer 405 ''Method Not Allowed'')\<lparr>resp_body := ''Collection already exists''\<rparr>)
       else
         on_fs (\<lambda>os.
           (case fs_create_directories os path of
              (Some ec, os') \<Rightarrow> (Ret ((answer 409 ''Conflict'')\<lparr>resp_body := err_text os' ec\<rparr>), os')
            | (None, os') \<Rightarrow> (Ret (answer 201 ''Created''), os')))))"

text \<open>PROPFIND: the element of one resource, and those of a collection's entries.\<close>

definition add_response :: "winapi \<Rightarrow> os \<Rightarrow> string \<Rightarrow> DavResource \<Rightarrow> DavXmlBuilder \<Rightarrow> DavXmlBuilder" where
  "add_response api os href res =
     fold (\<lambda>f. f)
       [start_response (encodeFilename api href), start_propstat, start_prop,
        get_properties api os res,
        end_prop, add_status 200 ''OK'', end_propstat, end_response]"

definition child_href :: "string \<Rightarrow> string \<Rightarrow> string" where
  "child_href p name = (if ends_with p (CHR ''/'') then p else p @ ''/'') @ name"

fun add_children ::
    "winapi \<Rightarrow> string \<Rightarrow> FileEntry list \<Rightarrow> DavXmlBuilder \<Rightarrow> (os, DavXmlBuilder) eff" where
  "add_children api p [] xml = ret xml"
| "add_children api p (e # es) xml =
     (if filename (fe_path e) = ''.'' \<or> filename (fe_path e) = ''..'' then add_children api p es xml
      else
        bindE (create (fe_path e)) (\<lambda>child.
        case child of
          None \<Rightarrow> add_children api p es xml
        | Some c \<Rightarrow>
            bindE (getE (\<lambda>os. add_response api os (child_href p (filename (fe_path e))) c xml))
              (add_children api p es)))"

definition propfind_xml :: "winapi \<Rightarrow> HttpRequest \<Rightarrow> path \<Rightarrow> (os, DavXmlBuilder) eff" where
  "propfind_xml api request path =
     (let depth = (if req_depth request = [] then ''0'' else req_depth request);
          xml = start_multistatus (add_declaration new_builder)
      in bindE (create path) (\<lambda>base_resource.
         bindE (getE (\<lambda>os.
           (case base_resource of
              Some res \<Rightarrow>
                if depth = ''0'' \<or> depth = ''1'' then add_response api os (req_path request) res xml
                else xml
            | None \<Rightarrow> xml))) (\<lambda>xml.
         bindE
           (case base_resource of
              Some res \<Rightarrow>
                if depth = ''1'' \<and> get_type res = COLLECTION
                then bindE (read_directory path) (\<lambda>entries.
                     add_children api (req_path request) entries xml)
                else ret xml
            | None \<Rightarrow> ret xml) (\<lambda>xml.
         ret (end_multistatus xml)))))"

definition process_propfind :: "dav_env \<Rightarrow> HttpRequest \<Rightarrow> (DavRequestHandler, HttpResponse) eff" where
  "process_propfind env request =
     bindE (request_target (req_path request)) (\<lambda>path.
     if path = [] then ret not_found_response
     else
       bindE (on_fs (propfind_xml (de_api env) request path)) (\<lambda>xml.
       ret (with_text ''text/xml; charset=utf-8'' (fst (build xml)) (answer 207 ''Multi-Status''))))"

definition process_proppatch :: "HttpRequest \<Rightarrow> (DavRequestHandler, HttpResponse) eff" where
  \<open>process_proppatch request =
     ret (with_text ''text/xml''
       ''<D:response xmlns:D="DAV:"><D:propstat><D:prop/></D:propstat></D:response>''
       (answer 200 ''OK''))\<close>

text \<open>COPY and MOVE look at the header Overwrite after the operation.\<close>

definition transfer ::
    "(DavResource \<Rightarrow> path \<Rightarrow> (os, unit) eff) \<Rightarrow> HttpRequest \<Rightarrow> (DavRequestHandler, HttpResponse) eff"
  where
  "transfer operation request =
     bindE (request_target (req_path request)) (\<lambda>src.
     bindE (resolve_destination (req_destination request)) (\<lambda>dst.
     if src = [] \<or> dst = [] then ret not_found_response
     else
       bindE (on_fs (create src)) (\<lambda>resource.
       case resource of
         None \<Rightarrow> ret not_found_response
       | Some res \<Rightarrow>
           bindE (on_fs (operation res dst)) (\<lambda>_.
           bindE (if req_overwrite request = ''F'' then on_fs (fs_exists dst) else ret False) (\<lambda>there.
           ret (if there then answer 412 ''Precondition Failed'' else answer 201 ''Created''))))))"

definition process_copy :: "HttpRequest \<Rightarrow> (DavRequestHandler, HttpResponse) eff" where
  "process_copy = transfer res_copy"

definition process_move :: "HttpRequest \<Rightarrow> (DavRequestHandler, HttpResponse) eff" where
  "process_move = transfer res_move"

definition lock_text :: "bool \<Rightarrow> string \<Rightarrow> string \<Rightarrow> string" where
  \<open>lock_text exclusive owner token =
     ''<D:prop xmlns:D="DAV:"><D:lockdiscovery><D:activelock>''
     @ indent 12 @ ''<D:locktype><D:write/></D:locktype>''
     @ indent 12 @ ''<D:lockscope>'' @ (if exclusive then ''<D:exclusive/>'' else ''<D:shared/>'')
     @ ''</D:lockscope>''
     @ indent 12 @ ''<D:depth>Infinity</D:depth>''
     @ indent 12 @ ''<D:owner>'' @ owner @ ''</D:owner>''
     @ indent 12 @ ''<D:timeout>Second-900</D:timeout>''
     @ indent 12 @ ''<D:locktoken><D:href>'' @ token @ ''</D:href></D:locktoken>''
     @ indent 8 @ ''</D:activelock></D:lockdiscovery></D:prop>''\<close>

definition process_lock :: "dav_env \<Rightarrow> HttpRequest \<Rightarrow> (DavRequestHandler, HttpResponse) eff" where
  "process_lock env request =
     with_resource (req_path request) (\<lambda>path res.
     let owner = ''WebDAV Client'';
         exclusive = (find_str ''exclusive'' (req_body request) \<noteq> None)
     in bindE (getE (\<lambda>w. fst (lock env (dh_os w) owner exclusive res))) (\<lambda>l.
        let b = lock_text exclusive owner (lk_token l)
        in ret (with_headers
                  [(''Content-Type'', ''text/xml''), (''Lock-Token'', lk_token l),
                   (''Content-Length'', dec (length b))]
                  ((answer 200 ''OK'')\<lparr>resp_body := b\<rparr>))))"

definition process_unlock :: "HttpRequest \<Rightarrow> (DavRequestHandler, HttpResponse) eff" where
  "process_unlock request =
     with_resource (req_path request) (\<lambda>path res.
     let success = fst (unlock (req_lock_token request) res)
     in ret (if success then answer 204 ''No Content'' else answer 409 ''Conflict''))"

definition process_options :: "dav_env \<Rightarrow> HttpRequest \<Rightarrow> (DavRequestHandler, HttpResponse) eff" where
  "process_options env request =
     getE (\<lambda>w.
       with_headers
         [(''Allow'', allowed_methods), (''DAV'', ''1, 2''), (''Content-Length'', ''0''),
          (''Content-Type'', ''text/html''), (''Server'', ''WebDAV Server''),
          (''Connection'', ''keep-alive''), (''MS-Author-Via'', ''DAV''),
          (''Date'', getHttpDate (de_gmtime env (dh_os w)))]
         (answer 200 ''OK''))"

section \<open>A connection\<close>

definition dispatch :: "dav_env \<Rightarrow> HttpRequest \<Rightarrow> (DavRequestHandler, HttpResponse) eff" where
  "dispatch env request =
     (case req_method request of
        GET \<Rightarrow> process_get env request
      | HEAD \<Rightarrow> process_head request
      | PUT \<Rightarrow> process_put request
      | DELETE \<Rightarrow> process_delete request
      | MKCOL \<Rightarrow> process_mkcol request
      | PROPFIND \<Rightarrow> process_propfind env request
      | PROPPATCH \<Rightarrow> process_proppatch request
      | COPY \<Rightarrow> process_copy request
      | MOVE \<Rightarrow> process_move request
      | LOCK \<Rightarrow> process_lock env request
      | UNLOCK \<Rightarrow> process_unlock request
      | OPTIONS \<Rightarrow> process_options env request)"

text \<open>One turn of the loop; the result says whether there is another.\<close>

definition serve :: "dav_env \<Rightarrow> HttpRequest \<Rightarrow> (DavRequestHandler, bool) eff" where
  "serve env request =
     bindE (dispatch env request) (\<lambda>response.
     bindE (send_text (generate_response (de_order env) response)) (\<lambda>_.
     ret (req_version request \<noteq> HTTP10)))"

definition one_request :: "dav_env \<Rightarrow> (DavRequestHandler, bool) eff" where
  "one_request env =
     bindE (on_conn (parse_request (de_api env) (de_method env) (de_version env))) (\<lambda>result.
     case result of Inl e \<Rightarrow> ret False | Inr request \<Rightarrow> serve env request)"

text \<open>Each turn reads something from the connection, and none changes the root.\<close>

definition same_script :: "DavRequestHandler \<Rightarrow> DavRequestHandler \<Rightarrow> bool" where
  "same_script w w' \<longleftrightarrow> to_read (conn_sock (dh_conn w')) = to_read (conn_sock (dh_conn w))
     \<and> dh_root w' = dh_root w"

lemma same_script_trans: "same_script a b \<Longrightarrow> same_script b c \<Longrightarrow> same_script a c"
  by (simp add: same_script_def)

named_theorems script_intros \<open>calls that read nothing from the connection\<close>

lemmas same_script_bindE [script_intros] = preserves_bindE [OF _ _ same_script_trans]

lemma same_script_basic [script_intros]:
  "preserves same_script (ret x)" "preserves same_script (raise e)" "preserves same_script (getE f)"
  "preserves same_script (liftE r)" "preserves same_script (on_fs m)"
  by (simp_all add: preserves_def same_script_def eff_simps on_fs_def split: prod.splits)

lemma same_script_send [script_intros]: "preserves same_script (send_text s)"
  by (auto simp: preserves_def same_script_def send_text_def on_conn_def on_sock_def
      split: prod.splits dest: write_all_reads_eq)

lemma same_script_target [script_intros]: "preserves same_script (request_target p)"
  unfolding request_target_def by (intro script_intros)

lemma same_script_resource [script_intros]:
  "(\<And>path res. preserves same_script (f path res)) \<Longrightarrow> preserves same_script (with_resource p f)"
  unfolding with_resource_def
  by (intro same_script_bindE) (auto intro!: script_intros split: option.splits)

lemma same_script_transfer [script_intros]: "preserves same_script (transfer op request)"
  unfolding transfer_def resolve_destination_def
  by (intro same_script_bindE) (auto intro!: script_intros split: option.splits)

lemma same_script_dispatch: "preserves same_script (dispatch env request)"
  unfolding dispatch_def process_get_def process_head_def process_put_def process_delete_def
    process_mkcol_def process_propfind_def process_proppatch_def process_copy_def process_move_def
    process_lock_def process_unlock_def process_options_def Let_def
  by (auto intro!: script_intros split: HttpMethod.splits option.splits)

lemma read_commit_pending:
  "read_commit n c = (Ret bs, c') \<Longrightarrow> 0 < n \<Longrightarrow> pending (conn_sock c') < pending (conn_sock c)"
  by (auto simp: read_commit_run dest: read_some_pending split: prod.splits outcome.splits)

abbreviation conn_pending :: "http_conn \<Rightarrow> nat" where
  "conn_pending c \<equiv> pending (conn_sock c)"

lemma read_commit_not_above: "not_above conn_pending c (snd (read_commit n c))"
proof -
  have "pending (snd (read_some n k)) \<le> pending k" for k
    by (auto simp: read_some_def pending_def split: list.splits sum.splits)
  from this [of "conn_sock c"] show ?thesis
    by (auto simp: not_above_def read_commit_run split: prod.splits outcome.splits)
qed

lemma read_body_not_above: "not_above conn_pending c (snd (read_body n body c))"
proof (induction n body c rule: read_body.induct)
  case (1 n body c)
  let ?m = "if n - length body < 4096 then n - length body else 4096"
  obtain x c1 where rd: "read_commit ?m c = (x, c1)" by (cases "read_commit ?m c")
  then have c1: "not_above conn_pending c c1" using read_commit_not_above [of c ?m] by simp
  show ?case
  proof (cases "length body < n \<and> (\<exists>bs. x = Ret bs)")
    case True
    then obtain bs where t: "length body < n" and x: "x = Ret bs" by blast
    have "not_above conn_pending c1 (snd (read_body n (body @ bs) c1))" using 1 [OF t rd [symmetric] x] .
    moreover have "read_body n body c = read_body n (body @ bs) c1"
      using t rd x by (subst read_body.simps) simp
    ultimately show ?thesis using c1 by (simp add: not_above_def)
  next
    case False
    then have "snd (read_body n body c) = c \<or> snd (read_body n body c) = c1"
      using rd by (subst (1 2) read_body.simps) (auto split: outcome.splits)
    then show ?thesis using c1 by (auto simp: not_above_def)
  qed
qed

lemma body_not_above: "preserves (not_above conn_pending) (read_body n b)"
  by (simp add: preserves_def read_body_not_above)

lemma content_not_above: "preserves (not_above conn_pending) (read_content v e r)"
  unfolding read_content_def Let_def
  by (auto intro!: not_above_bindE not_above_basic body_not_above split: option.splits)

lemma consume_not_above: "preserves (not_above conn_pending) (consume n)"
  by (simp add: preserves_def not_above_def eff_simps consume_def)

lemma parse_request_pending:
  assumes "parse_request api m0 v0 c = (Ret r, c')" shows "conn_pending c' < conn_pending c"
  by (rule bindE_lowers [OF assms [unfolded parse_request_def]])
     (auto simp: Let_def intro: read_commit_pending
       intro!: not_above_bindE not_above_basic content_not_above consume_not_above split: option.splits)

abbreviation handler_pending :: "DavRequestHandler \<Rightarrow> nat" where
  "handler_pending w \<equiv> conn_pending (dh_conn w)"

lemma same_script_not_above: "preserves same_script m \<Longrightarrow> preserves (not_above handler_pending) m"
  by (simp add: preserves_def same_script_def not_above_def pending_def)

lemma one_request_pending:
  assumes "one_request env w = (Ret b, w')" shows "handler_pending w' < handler_pending w"
proof (rule bindE_lowers [OF assms [unfolded one_request_def]])
  fix x t
  assume "on_conn (parse_request (de_api env) (de_method env) (de_version env)) w = (Ret x, t)"
  then show "handler_pending t < handler_pending w"
    by (auto simp: on_conn_def dest: parse_request_pending split: prod.splits)
next
  fix x :: "string + HttpRequest"
  show "preserves (not_above handler_pending) (case x of Inl e \<Rightarrow> ret False | Inr request \<Rightarrow> serve env request)"
    unfolding serve_def
    by (rule same_script_not_above) (auto intro!: script_intros same_script_dispatch split: sum.splits)
qed

lemma one_request_root: "dh_root (snd (one_request env w)) = dh_root w"
proof -
  let ?R = "\<lambda>w w'. dh_root w' = dh_root w"
  have c: "preserves ?R (on_conn m)" for m :: "(http_conn, string + HttpRequest) eff"
    by (auto simp: preserves_def on_conn_def split: prod.splits)
  have s: "preserves same_script (case x of Inl e \<Rightarrow> ret False | Inr request \<Rightarrow> serve env request)"
    for x :: "string + HttpRequest"
    unfolding serve_def by (auto intro!: script_intros same_script_dispatch split: sum.splits)
  have "preserves ?R (one_request env)"
    unfolding one_request_def
    by (rule preserves_bindE [OF c]) (use s in \<open>simp_all add: preserves_def same_script_def\<close>)
  then show ?thesis by (rule preservesD)
qed

function handle_loop :: "dav_env \<Rightarrow> DavRequestHandler \<Rightarrow> unit outcome \<times> DavRequestHandler" where
  "handle_loop env w =
     (case one_request env w of
        (Ret b, w') \<Rightarrow> if b then handle_loop env w' else (Ret (), w')
      | (Exn e, w') \<Rightarrow> (Ret (), w')
      | (Hang, w') \<Rightarrow> (Hang, w'))"
  by pat_completeness auto
termination
  by (relation "measure (\<lambda>(env, w). handler_pending w)")
     (auto dest: one_request_pending [OF sym])

declare handle_loop.simps [simp del]

text \<open>\<open>handle_request\<close>: exceptions end the loop and are only logged.\<close>

definition handle_request :: "dav_env \<Rightarrow> (DavRequestHandler, unit) eff" where
  "handle_request env w = handle_loop env w"

end
