(* ===== verification/CopyConfine.thy ===== *)
theory CopyConfine
  imports Confine StdCopy
begin

text \<open>
  The changes of a file system that stay in a region and may also create there, and that the
  recursive copy is one of them when no link lies in the region.
\<close>

section \<open>Contained changes\<close>

definition plain_os :: "os \<Rightarrow> bool" where
  \<comment> \<open>no colon in a name, as Windows demands\<close>
  "plain_os os \<longleftrightarrow> (\<forall>l. lookup os l \<noteq> None \<longrightarrow> plain_names (snd l))"

definition contained :: "loc \<Rightarrow> os \<Rightarrow> os \<Rightarrow> bool" where
  "contained r os os' \<longleftrightarrow> wf_os os' \<and> no_new_links os os' \<and> same_cwd os os'
     \<and> (\<forall>k. \<not> region r k \<longrightarrow> lookup os' k = lookup os k) \<and> (plain_os os \<longrightarrow> plain_os os')"

lemma contained_refl: "wf_os os \<Longrightarrow> contained r os os"
  by (simp add: contained_def no_new_links_def same_cwd_def)

lemma contained_trans: "contained r a b \<Longrightarrow> contained r b c \<Longrightarrow> contained r a c"
  unfolding contained_def no_new_links_def same_cwd_def by (elim conjE, intro conjI; metis)

lemma contained_confined: "confined r a b \<Longrightarrow> contained r a b"
  unfolding contained_def confined_def plain_os_def by blast

lemma contained_wf: "contained r a b \<Longrightarrow> wf_os b"
  by (simp add: contained_def)

section \<open>A region without links\<close>

definition link_free :: "loc \<Rightarrow> os \<Rightarrow> bool" where
  "link_free r os \<longleftrightarrow> linkless os r \<and> (\<forall>k t. region r k \<longrightarrow> lookup os k \<noteq> Some (Symlink t))"

lemma link_free_mono: "link_free r os \<Longrightarrow> no_new_links os os' \<Longrightarrow> link_free r os'"
  unfolding link_free_def linkless_def no_new_links_def by blast

lemma above_region: "region r l \<Longrightarrow> below k l \<Longrightarrow> below k r \<or> region r k"
proof -
  assume r: "region r l" and k: "below k l"
  show ?thesis
  proof (cases "below r l")
    case True
    then have "prefix (snd k) (snd r) \<or> prefix (snd r) (snd k)" and "fst k = fst r"
      using k prefix_same_cases [of "snd k" "snd l" "snd r"] by (auto simp: below_def)
    then show ?thesis by (auto simp: below_def region_def)
  next
    case False
    then obtain pre x y rest where e: "fst l = fst r" "snd r = pre @ [x]"
      "snd l = pre @ (x @ y) # rest" "y \<noteq> []"
      using r unfolding region_def beside_def name_extends_def by blast
    have f: "fst k = fst r" and p: "prefix (snd k) (pre @ (x @ y) # rest)"
      using k e(1,3) by (simp_all add: below_def)
    show ?thesis
    proof (cases "prefix (snd k) pre")
      case True
      then show ?thesis using f e(2) by (simp add: below_def)
    next
      case n: False
      then obtain zs where z: "snd k = pre @ zs" "prefix zs ((x @ y) # rest)" "zs \<noteq> []"
        using p by (auto simp: prefix_append)
      then obtain ws where "zs = (x @ y) # ws" by (cases zs) auto
      then have "beside r k"
        using z(1) f e(2,4) unfolding beside_def name_extends_def by blast
      then show ?thesis by (simp add: region_def)
    qed
  qed
qed

lemma region_linkless: "link_free r os \<Longrightarrow> region r l \<Longrightarrow> linkless os l"
  using above_region unfolding link_free_def linkless_def by blast

section \<open>Copying\<close>

definition copy_target :: "loc \<Rightarrow> loc \<Rightarrow> bool" where
  "copy_target r l \<longleftrightarrow> valid_loc l \<and> region r l \<and> plain_names (snd l)"

lemma append_loc:
  assumes v: "valid_loc l" and n: "plain_names [n]"
  shows "path_append (loc_str l) n = loc_str (fst l, snd l @ [n])"
proof -
  have d: "root_name_len n = 0" using plain_no_root [OF n] by simp
  have nd: "\<not> is_drive_prefix n" using drive_colon [of n] n by (auto simp: plain_names_def)
  have h: "n \<noteq> []" "\<not> is_slash (hd n)" using n by (auto simp: plain_names_def valid_name_def list_all_iff)
  have q: "\<not> is_absolute n" "root_name n = []" "\<not> has_root_directory n" "after_root n = n"
    using d nd h by (simp_all add: is_absolute_def root_name_def has_root_directory_def after_root_def)
  have vs: "list_all valid_name (snd l)" using v by (simp add: valid_loc_def)
  show ?thesis
  proof (cases "snd l = []")
    case True
    then have "last (loc_str l) = BSL" by (simp add: loc_str_def)
    then show ?thesis
      using q v True by (simp add: path_append_def) (simp add: loc_str_def)
  next
    case False
    have "last (loc_str l) = last (join [BSL] (snd l))"
      using join_ne [OF vs False] by (simp add: loc_str_def)
    then have "\<not> is_slash (last (loc_str l))" using last_not_slash [OF vs False] by simp
    then show ?thesis
      using q v False by (simp add: path_append_def) (simp add: loc_str_def join_append)
  qed
qed

lemma child_target:
  assumes "copy_target r l" and "plain_names [n]"
  shows "copy_target r (fst l, snd l @ [n])" and "path_append (loc_str l) n = loc_str (fst l, snd l @ [n])"
proof -
  have "below l (fst l, snd l @ [n])" by (simp add: below_def)
  then show "copy_target r (fst l, snd l @ [n])"
    using assms region_below [of r l] by (auto simp: copy_target_def valid_loc_def plain_names_def)
  show "path_append (loc_str l) n = loc_str (fst l, snd l @ [n])"
    using assms append_loc by (simp add: copy_target_def)
qed

lemma target_follow:
  assumes "link_free r os" "copy_target r l"
  shows "follow os (loc_str l) = Inr k \<Longrightarrow> k = l" and "locate os (loc_str l) = Inr k \<Longrightarrow> k = l"
  using assms(2) region_linkless [OF assms(1), of l] follow_linkless [of l os k] locate_linkless [of l os k]
  by (simp_all add: copy_target_def)

lemma contained_put:
  assumes "wf_os (put_node l n os)" "copy_target r l" "\<forall>t. n \<noteq> Symlink t"
  shows "contained r os (put_node l n os)"
  using assms by (auto simp: contained_def no_new_links_def copy_target_def plain_os_def)

lemma contained_copy_file:
  assumes wf: "wf_os os" and lf: "link_free r os" and l: "copy_target r l"
  shows "contained r os (snd (fs_copy_file os p (loc_str l)))"
proof -
  let ?os = "snd (fs_copy_file os p (loc_str l))"
  have k: "k = l" if "(case follow os (loc_str l) of Inr k \<Rightarrow> Inr k | Inl e \<Rightarrow> locate os (loc_str l)) = Inr k" for k
    using that target_follow [OF lf l] by (cases "follow os (loc_str l)") auto
  have "?os = os \<or> (\<exists>a b. ?os = put_node l (RegFile a b) os)"
  proof (cases "case follow os (loc_str l) of Inr k \<Rightarrow> Inr k | Inl e \<Rightarrow> locate os (loc_str l)")
    case (Inl e)
    then show ?thesis by (simp add: fs_copy_file_def split: sum.splits option.splits node.splits)
  next
    case (Inr k')
    then have "k' = l" using k by blast
    with Inr show ?thesis by (auto simp: fs_copy_file_def split: sum.splits option.splits node.splits)
  qed
  then show ?thesis
    using contained_refl [OF wf] contained_put [OF _ l] wf_fs_copy_file [OF wf, of p "loc_str l"] by fastforce
qed

lemma contained_make_dir:
  assumes wf: "wf_os os" and lf: "link_free r os" and l: "copy_target r l"
  shows "contained r os (snd (make_dir_like os (loc_str l) a))"
proof (cases "locate os (loc_str l)")
  case (Inl e)
  then show ?thesis using contained_refl [OF wf] by (simp add: make_dir_like_def)
next
  case (Inr k)
  then have k: "locate os (loc_str l) = Inr l" using target_follow(2) [OF lf l] by blast
  show ?thesis
  proof (cases "lookup os l")
    case None
    have ne: "snd l \<noteq> []" using locate_result(3) [OF wf k] None by (auto simp: is_dir_node_def)
    then have "l = (fst (parent l), snd (parent l) @ [last (snd l)])" by (simp add: parent_def prod_eq_iff)
    moreover have "is_dir_node (lookup os (parent l))" using locate_result(2) [OF wf k ne] .
    moreover have "valid_name (last (snd l))"
      using l ne by (auto simp: copy_target_def valid_loc_def list_all_iff)
    ultimately have "wf_os (put_node l (Directory b) os)" for b
      using put_dir_wf [OF wf, of "parent l" "last (snd l)" b] None by simp
    then show ?thesis using contained_put [OF _ l] k None by (simp add: make_dir_like_def)
  next
    case (Some n)
    then show ?thesis using contained_refl [OF wf] k by (simp add: make_dir_like_def)
  qed
qed

lemma entry_names_plain:
  assumes "plain_os os" "n \<in> set (entry_names os p)" shows "plain_names [n]"
proof -
  obtain d l where "l \<in> set (children os d)" and n: "n = last (snd l)"
    using assms(2) by (auto simp: entry_names_def split: sum.splits)
  then have "lookup os l \<noteq> None" and ne: "snd l \<noteq> []"
    by (auto simp: children_def lookup_def map_of_eq_None_iff)
  then have "plain_names (snd l)" using assms(1) unfolding plain_os_def by blast
  then show ?thesis using n ne by (auto simp: plain_names_def list_all_iff)
qed

text \<open>One call of the recursion.\<close>

lemma copy_one_contained:
  assumes wf: "wf_os os" and lf: "link_free r os" and pl: "plain_os os"
    and a: "copy_target r a" and b: "copy_target r b"
    and c: "copy_one (loc_str a) (loc_str b) os = (x, os')"
  shows "contained r os os'" and "x = Inr ns \<Longrightarrow> n \<in> set ns \<Longrightarrow> plain_names [n]"
proof -
  have one_file: "contained r os (snd (fs_copy_file os (loc_str a) q))"
    if sa: "status os (loc_str a) = Inr (RegFile at d)"
      and q: "q = loc_str b \<or> q = path_append (loc_str b) (filename (loc_str a))" for at d q
  proof -
    obtain k where "follow os (loc_str a) = Inr k" "lookup os k = Some (RegFile at d)"
      using sa by (auto simp: status_def split: sum.splits option.splits)
    then have la: "lookup os a = Some (RegFile at d)" using target_follow(1) [OF lf a] by blast
    then have ne: "snd a \<noteq> []" using wf_osD [OF wf la] by (auto simp: wf_node_def is_dir_node_def)
    have "filename (loc_str a) = last (snd a)" using filename_loc ne a by (simp add: copy_target_def)
    moreover have "plain_names [last (snd a)]" using a ne by (auto simp: copy_target_def plain_names_def list_all_iff)
    ultimately have "\<exists>l. q = loc_str l \<and> copy_target r l" using q child_target [OF b] b by metis
    then show ?thesis using contained_copy_file [OF wf lf] by blast
  qed
  have st: "status os p = Inr n" if "the_status os p = Inr (Some n)" for p n
    using that by (auto simp: the_status_def split: sum.splits if_splits)
  note cd = c [unfolded copy_one_def Let_def]
  have "contained r os os' \<and> (\<forall>ns. x = Inr ns \<longrightarrow> (\<forall>n\<in>set ns. plain_names [n]))"
  proof (cases "os' = os \<and> (\<forall>ns. x = Inr ns \<longrightarrow> set ns \<subseteq> set (entry_names os (loc_str a)))")
    case True
    then show ?thesis using contained_refl [OF wf] entry_names_plain [OF pl] by blast
  next
    case False
    then obtain fn tn where s: "the_status os (loc_str a) = Inr (Some fn)" "the_status os (loc_str b) = Inr tn"
      using cd by (auto split: sum.splits option.splits)
    show ?thesis
    proof (cases fn)
      case (RegFile at d)
      let ?q = "if is_dir_node tn then path_append (loc_str b) (filename (loc_str a)) else loc_str b"
      obtain e os1 where cf: "fs_copy_file os (loc_str a) ?q = (e, os1)"
        by (cases "fs_copy_file os (loc_str a) ?q")
      have "contained r os os1" using one_file [of at d ?q] st [OF s(1)] RegFile cf by simp
      moreover have "os' = os1 \<and> (\<forall>ns. x = Inr ns \<longrightarrow> ns = [])"
        using cd False s RegFile cf by (auto split: if_splits option.splits)
      ultimately show ?thesis by auto
    next
      case (Directory at)
      obtain e os1 where md: "make_dir_like os (loc_str b) at = (e, os1)"
        by (cases "make_dir_like os (loc_str b) at")
      have c1: "contained r os os1" using contained_make_dir [OF wf lf b, of at] md by simp
      then have "plain_os os1" using pl by (simp add: contained_def)
      moreover have "os' = os1 \<and> (\<forall>ns. x = Inr ns \<longrightarrow> ns = entry_names os1 (loc_str a))"
        using cd False s Directory md by (auto split: if_splits option.splits)
      ultimately show ?thesis using c1 entry_names_plain by blast
    next
      case (Symlink t)
      then show ?thesis using cd False s by (auto split: if_splits)
    qed
  qed
  then show "contained r os os'" and "x = Inr ns \<Longrightarrow> n \<in> set ns \<Longrightarrow> plain_names [n]" by blast+
qed

definition copy_inv :: "loc \<Rightarrow> os \<Rightarrow> (path \<times> path) list \<Rightarrow> os \<Rightarrow> bool" where
  "copy_inv r os0 ps os \<longleftrightarrow> contained r os0 os \<and> link_free r os \<and> plain_os os
     \<and> (\<forall>(f, t)\<in>set ps. \<exists>a b. f = loc_str a \<and> t = loc_str b \<and> copy_target r a \<and> copy_target r b)"

lemma copy_inv_step:
  assumes i: "copy_inv r os0 ((f, t) # rest) os" and c: "copy_one f t os = (x, os')"
  shows "copy_inv r os0 (case x of Inl e \<Rightarrow> [] | Inr ns \<Rightarrow> pairs f t ns @ rest) os'"
proof -
  obtain a b where ab: "f = loc_str a" "t = loc_str b" "copy_target r a" "copy_target r b"
    using i by (auto simp: copy_inv_def)
  have os: "contained r os0 os" "wf_os os" "link_free r os" "plain_os os"
    using i by (auto simp: copy_inv_def contained_def)
  note one = copy_one_contained [OF os(2-4) ab(3,4) c [unfolded ab(1,2)]]
  have "contained r os0 os'" using contained_trans [OF os(1) one(1)] .
  moreover have "link_free r os'" "plain_os os'"
    using one(1) os link_free_mono by (auto simp: contained_def)
  moreover have "\<exists>a' b'. p = (loc_str a', loc_str b') \<and> copy_target r a' \<and> copy_target r b'"
    if x: "x = Inr ns" and p: "p \<in> set (pairs f t ns)" for ns p
  proof -
    obtain n where n: "p = (path_append f n, path_append t n)" "n \<in> set ns"
      using p by (auto simp: pairs_def)
    then have "plain_names [n]" using one(2) [OF x] by blast
    then show ?thesis using n(1) ab child_target by metis
  qed
  ultimately show ?thesis using i by (cases x) (fastforce simp: copy_inv_def)+
qed

lemma contained_copy:
  assumes wf: "wf_os os" and "link_free r os" "plain_os os" "copy_target r a" "copy_target r b"
    and c: "fs_copy (loc_str a) (loc_str b) os = Some (e, os')"
  shows "contained r os os'"
proof -
  have "\<forall>(f, t)\<in>set [(loc_str a, loc_str b)].
      \<exists>a b. f = loc_str a \<and> t = loc_str b \<and> copy_target r a \<and> copy_target r b"
    using assms(4,5) by (simp del: split_paired_Ex) blast
  then have "copy_inv r os [(loc_str a, loc_str b)] os"
    using assms(2,3) contained_refl [OF wf] unfolding copy_inv_def by blast
  then have "copy_inv r os [] os'"
    using copy_all_invariant [OF c [unfolded fs_copy_def], of "copy_inv r os"] copy_inv_step
    by fastforce
  then show ?thesis by (simp add: copy_inv_def)
qed

end
