(* ===== verification/DavConfine.thy ===== *)
theory DavConfine
  imports DavHandler CopyConfine
begin

text \<open>
  What a WebDAV connection can do to the file system, by the triples and changes of
  \<open>Confine\<close> and \<open>CopyConfine\<close>.
\<close>

section \<open>The invariant of a connection\<close>

definition dav_inv :: "loc \<Rightarrow> os \<Rightarrow> DavRequestHandler \<Rightarrow> bool" where
  "dav_inv r os0 w \<longleftrightarrow> contained r os0 (dh_os w) \<and> link_free r (dh_os w) \<and> plain_os (dh_os w)
     \<and> full_loc (dh_os w) (dh_root w) = r"

lemma dav_inv_wf: "dav_inv r os0 w \<Longrightarrow> wf_os (dh_os w)"
  by (simp add: dav_inv_def contained_def)

lemma full_loc_cwd: "same_cwd os os' \<Longrightarrow> full_loc os' p = full_loc os p"
  by (simp add: same_cwd_def full_loc_def cur_dir_def Let_def)

lemma dav_inv_step:
  assumes "dav_inv r os0 w" and "contained r (dh_os w) os'"
  shows "dav_inv r os0 (w\<lparr>dh_os := os'\<rparr>)"
proof -
  have "no_new_links (dh_os w) os'" "same_cwd (dh_os w) os'" "plain_os (dh_os w) \<longrightarrow> plain_os os'"
    using assms(2) by (simp_all add: contained_def)
  then show ?thesis
    using assms contained_trans link_free_mono by (simp add: dav_inv_def full_loc_cwd) blast
qed

lemma dav_hoare_fs:
  assumes "\<And>w. dav_inv r os0 w \<Longrightarrow> P w \<Longrightarrow> contained r (dh_os w) (snd (m (dh_os w)))"
  shows "hoare (dav_inv r os0) P (on_fs m) (\<lambda>_ _. True)"
proof (rule hoareI)
  fix w rr w'
  assume w: "dav_inv r os0 w" "P w" and e: "on_fs m w = (rr, w')"
  obtain a os where m: "m (dh_os w) = (a, os)" by (cases "m (dh_os w)")
  then have "dav_inv r os0 (w\<lparr>dh_os := os\<rparr>)" using dav_inv_step [OF w(1)] assms [OF w] by simp
  then show "dav_inv r os0 w' \<and> (\<forall>x. rr = Ret x \<longrightarrow> True)" using e m by (simp add: on_fs_def)
qed

lemma dav_hoare_reads:
  assumes m: "reads m" and q: "\<And>w x. P w \<Longrightarrow> m (dh_os w) = (Ret x, dh_os w) \<Longrightarrow> Q x w"
  shows "hoare (dav_inv r os0) P (on_fs m) Q"
proof (rule hoareI)
  fix w rr w'
  assume w: "dav_inv r os0 w" "P w" and e: "on_fs m w = (rr, w')"
  obtain a os where a: "m (dh_os w) = (a, os)" by (cases "m (dh_os w)")
  then have "os = dh_os w" using readsD [OF m] by blast
  then show "dav_inv r os0 w' \<and> (\<forall>x. rr = Ret x \<longrightarrow> Q x w')"
    using e a w q [OF w(2)] by (simp add: on_fs_def)
qed

lemma dav_hoare_send: "hoare (dav_inv r os0) P (send_text s) (\<lambda>_ _. True)"
  by (auto simp: hoare_def send_text_def on_conn_def dav_inv_def split: prod.splits)

section \<open>Resolved paths\<close>

lemma dav_root:
  assumes i: "dav_inv r os0 w" and f: "follow (dh_os w) (dh_root w) = Inr k" shows "k = r"
proof -
  have "follow_loc (dh_os w) r = Inr k" using f i by (simp add: follow_def dav_inv_def split: if_splits)
  moreover have "linkless (dh_os w) r" using i by (simp add: dav_inv_def link_free_def)
  ultimately show ?thesis using follow_loc_linkless by blast
qed

lemma target_good:
  assumes i: "dav_inv r os0 w" and p: "resolve_path (dh_os w) (dh_root w) q = Ret p" and ne: "p \<noteq> []"
  shows "good r (dh_os w) p"
proof -
  obtain t where "resolve_admit (dh_os w) (dh_root w) t = Some p"
    using p ne by (auto simp: resolve_path_admitted split: if_splits option.splits)
  then obtain l k where "p = loc_str l" "follow (dh_os w) (dh_root w) = Inr k" "solid (dh_os w) l"
    "below k l \<or> beside k l"
    using ftp_guard.admit_locs [OF dav_inv_wf [OF i]] by blast
  then show ?thesis using dav_root [OF i] unfolding good_def region_def by blast
qed

lemma dav_hoare_target:
  "hoare (dav_inv r os0) P (request_target q) (\<lambda>p w. P w \<and> (p \<noteq> [] \<longrightarrow> good r (dh_os w) p))"
proof (rule hoareI)
  fix w rr w'
  assume w: "dav_inv r os0 w" "P w" and e: "request_target q w = (rr, w')"
  then have "w' = w" "rr = resolve_path (dh_os w) (dh_root w) q"
    by (auto simp: request_target_def bindE_def getE_def liftE_def)
  then show "dav_inv r os0 w' \<and> (\<forall>p. rr = Ret p \<longrightarrow> P w' \<and> (p \<noteq> [] \<longrightarrow> good r (dh_os w') p))"
    using w target_good [OF w(1)] by auto
qed

lemma reads_create: "reads (create p)"
  unfolding create_def
  by (intro reads_bindE) (auto simp: reads_def getE_def ret_def fs_is_directory_def or_throw_def
      bindE_def split: sum.splits bool.splits outcome.splits)

lemma create_path: "create p os = (Ret (Some res), os') \<Longrightarrow> get_path res = p"
  by (auto simp: create_def bindE_def getE_def ret_def split: sum.splits bool.splits outcome.splits
      prod.splits if_splits)

lemma dav_hoare_create:
  "hoare (dav_inv r os0) P (on_fs (create p)) (\<lambda>x w. P w \<and> (\<forall>res. x = Some res \<longrightarrow> get_path res = p))"
  by (rule dav_hoare_reads [OF reads_create]) (auto dest: create_path)

lemma dav_hoare_resource:
  assumes "\<And>p res. hoare (dav_inv r os0) (\<lambda>w. good r (dh_os w) p \<and> get_path res = p) (f p res) (\<lambda>_ _. True)"
  shows "hoare (dav_inv r os0) P (with_resource q f) (\<lambda>_ _. True)"
  unfolding with_resource_def
proof (rule hoare_bindE [OF dav_hoare_target])
  fix p
  have "hoare (dav_inv r os0) (\<lambda>w. (P w \<and> good r (dh_os w) p) \<and> (\<forall>res. x = Some res \<longrightarrow> get_path res = p))
      (case x of None \<Rightarrow> ret not_found_response | Some res \<Rightarrow> f p res) (\<lambda>_ _. True)" for x
    by (cases x) (auto intro: hoare_done hoare_weaken [OF assms])
  then show "hoare (dav_inv r os0) (\<lambda>w. P w \<and> (p \<noteq> [] \<longrightarrow> good r (dh_os w) p))
      (if p = [] then ret not_found_response
       else bindE (on_fs (create p)) (\<lambda>resource.
         case resource of None \<Rightarrow> ret not_found_response | Some res \<Rightarrow> f p res)) (\<lambda>_ _. True)"
    by (cases "p = []") (auto intro: hoare_done hoare_bindE [OF dav_hoare_create])
qed

section \<open>Resources\<close>

lemma good_target: "plain_os os \<Longrightarrow> wf_os os \<Longrightarrow> good r os p \<Longrightarrow> \<exists>l. p = loc_str l \<and> copy_target r l \<and> solid os l"
proof -
  assume pl: "plain_os os" and wf: "wf_os os" and "good r os p"
  then obtain l where l: "p = loc_str l" "solid os l" "region r l" unfolding good_def by blast
  have "lookup os l \<noteq> None" using l(2) by (auto simp: solid_def)
  then have "plain_names (snd l)" using pl unfolding plain_os_def by blast
  then show ?thesis using l solid_valid [OF wf l(2)] unfolding copy_target_def by blast
qed

lemma contained_open_trunc:
  assumes wf: "wf_os os" and s: "solid os l" and t: "copy_target r l"
  shows "contained r os (snd (open_trunc os (loc_str l)))"
    and "open_trunc os (loc_str l) = (Inr k, os') \<Longrightarrow> k = l"
proof -
  have f: "follow os (loc_str l) = Inr l" using follow_solid [OF wf s] .
  have "snd (open_trunc os (loc_str l)) = os
      \<or> (\<exists>a. snd (open_trunc os (loc_str l)) = put_node l (RegFile a []) os)"
    using f by (auto simp: open_trunc_def split: option.splits node.splits)
  then show "contained r os (snd (open_trunc os (loc_str l)))"
    using wf_open_trunc [OF wf, of "loc_str l"] contained_refl [OF wf] contained_put [OF _ t] by fastforce
  show "open_trunc os (loc_str l) = (Inr k, os') \<Longrightarrow> k = l"
    using f by (auto simp: open_trunc_def split: option.splits node.splits if_splits)
qed

lemma contained_set:
  assumes "wf_os os" "copy_target r l" shows "contained r os (set_contents l b os)"
  using confined_set_contents [OF assms(1), of r l b] assms(2)
  by (auto simp: copy_target_def intro: contained_confined)

lemma contained_file_put:
  assumes pl: "plain_os os" and wf: "wf_os os" and g: "good r os p"
  shows "contained r os (snd (file_put p input n os))"
proof -
  obtain l where l: "p = loc_str l" "copy_target r l" "solid os l" using good_target [OF pl wf g] by blast
  obtain x os1 where o: "open_trunc os p = (x, os1)" by (cases "open_trunc os p")
  have c: "contained r os os1" using contained_open_trunc(1) [OF wf l(3,2)] o l(1) by simp
  show ?thesis
  proof (cases x)
    case (Inr k)
    then have "k = l" using contained_open_trunc(2) [OF wf l(3,2)] o l(1) by blast
    then have "contained r os1 (set_contents k b os1)" for b
      using contained_set [OF contained_wf [OF c] l(2)] by simp
    then show ?thesis
      using o Inr c contained_trans [OF c] by (auto simp: file_put_def split: option.splits)
  qed (use o c in \<open>simp add: file_put_def\<close>)
qed

lemma contained_remove:
  assumes wf: "wf_os os" and g: "good r os p"
  shows "contained r os (snd (file_remove p os))" "contained r os (snd (collection_remove p os))"
proof -
  have e: "snd (bindE m (\<lambda>_. ret True) os) = snd (m os)" for m :: "(os, unit) eff"
    by (cases "m os"; cases "fst (m os)") (auto simp: bindE_def ret_def)
  show "contained r os (snd (file_remove p os))" "contained r os (snd (collection_remove p os))"
    using confined_delete [OF wf g] same_cwd_changes(1,2) [of os p]
    by (simp_all add: file_remove_def collection_remove_def e contained_confined remove_file_def
        remove_directory_def)
qed

lemma contained_move:
  assumes wf: "wf_os os" and p: "good r os p" and q: "good r os q"
  shows "contained r os (snd (file_move p q os))" "contained r os (snd (collection_move p q os))"
proof -
  obtain a where a: "p = loc_str a" "solid os a" "region r a" using p unfolding good_def by blast
  obtain b where b: "q = loc_str b" "solid os b" "region r b" using q unfolding good_def by blast
  have "confined r os (snd (fs_rename os p q))"
    using confined_rename [OF wf solid_valid [OF wf a(2)] linkless_solid [OF wf a(2)] a(3) b(2,3)]
    by (simp add: a(1) b(1))
  then show "contained r os (snd (file_move p q os))" "contained r os (snd (collection_move p q os))"
    by (simp_all add: file_move_def collection_move_def contained_confined same_cwd_changes)
qed

lemma contained_res_copy:
  assumes wf: "wf_os os" and lf: "link_free r os" and pl: "plain_os os"
    and p: "good r os (get_path res)" and q: "good r os q"
  shows "contained r os (snd (res_copy res q os))"
proof -
  obtain b where b: "q = loc_str b" "copy_target r b" using good_target [OF pl wf q] by blast
  obtain a where a: "get_path res = loc_str a" "copy_target r a" using good_target [OF pl wf p] by blast
  show ?thesis
  proof (cases res)
    case (DavFile p' ls)
    then show ?thesis using contained_copy_file [OF wf lf b(2)] b(1) by (simp add: file_copy_def)
  next
    case (DavCollection p' ls)
    then have "p' = loc_str a" using a(1) by simp
    then show ?thesis
      using DavCollection contained_copy [OF wf lf pl a(2) b(2)] contained_refl [OF wf] b(1)
      by (auto simp: collection_copy_def split: option.splits)
  qed
qed

lemma contained_res_move:
  "wf_os os \<Longrightarrow> good r os (get_path res) \<Longrightarrow> good r os q \<Longrightarrow> contained r os (snd (res_move res q os))"
  using contained_move by (cases res) simp_all

lemma contained_res_remove:
  "wf_os os \<Longrightarrow> good r os (get_path res) \<Longrightarrow> contained r os (snd (res_remove res os))"
  using contained_remove by (cases res) simp_all

lemma contained_res_put:
  "plain_os os \<Longrightarrow> wf_os os \<Longrightarrow> good r os (get_path res) \<Longrightarrow> contained r os (snd (res_put res i n os))"
  using contained_file_put contained_refl by (cases res) (simp_all add: collection_put_def raise_def)

lemma reads_res_get: "reads (res_get res out)"
  by (cases res) (auto simp: reads_def file_get_def collection_get_def ret_def split: sum.splits node.splits)

section \<open>Methods\<close>

lemma inv_parts:
  "dav_inv r os0 w \<Longrightarrow> plain_os (dh_os w)" "dav_inv r os0 w \<Longrightarrow> link_free r (dh_os w)"
  by (simp_all add: dav_inv_def)

lemma dav_hoare_get: "hoare (dav_inv r os0) P (process_get env q) (\<lambda>_ _. True)"
  unfolding process_get_def
  by (intro dav_hoare_resource hoare_bindE [OF hoare_getE] hoare_bindE [OF dav_hoare_send]
      hoare_bindE [OF dav_hoare_reads [OF reads_res_get]] hoare_done TrueI)

lemma dav_hoare_head: "hoare (dav_inv r os0) P (process_head q) (\<lambda>_ _. True)"
  unfolding process_head_def by (intro dav_hoare_resource hoare_any [OF hoare_getE])

lemma dav_hoare_delete: "hoare (dav_inv r os0) P (process_delete q) (\<lambda>_ _. True)"
  unfolding process_delete_def
proof (intro dav_hoare_resource hoare_bindE hoare_done)
  fix p res
  show "hoare (dav_inv r os0) (\<lambda>w. good r (dh_os w) p \<and> get_path res = p) (on_fs (res_remove res)) (\<lambda>_ _. True)"
    by (rule dav_hoare_fs) (auto intro: contained_res_remove dav_inv_wf)
qed

lemma reads_exists: "reads (fs_exists p)"
  using reads_queries by blast

lemma dav_hoare_mkcol: "hoare (dav_inv r os0) P (process_mkcol q) (\<lambda>_ _. True)"
  unfolding process_mkcol_def
proof (rule hoare_bindE [OF dav_hoare_target])
  fix p
  let ?m = "\<lambda>os. (case fs_create_directories os p of
      (Some ec, os') \<Rightarrow> (Ret ((answer 409 ''Conflict'')\<lparr>resp_body := err_text os' ec\<rparr>), os')
    | (None, os') \<Rightarrow> (Ret (answer 201 ''Created''), os'))"
  have "hoare (dav_inv r os0) (\<lambda>w. good r (dh_os w) p) (on_fs ?m) (\<lambda>_ _. True)"
  proof (rule dav_hoare_fs)
    fix w assume i: "dav_inv r os0 w" and "good r (dh_os w) p"
    then obtain l where "p = loc_str l" "solid (dh_os w) l" unfolding good_def by blast
    then have "snd (fs_create_directories (dh_os w) p) = dh_os w"
      using create_existing [OF dav_inv_wf [OF i]] by simp
    then have "snd (?m (dh_os w)) = dh_os w" by (auto split: prod.splits option.splits)
    then show "contained r (dh_os w) (snd (?m (dh_os w)))" using contained_refl [OF dav_inv_wf [OF i]] by simp
  qed
  then show "hoare (dav_inv r os0) (\<lambda>w. P w \<and> (p \<noteq> [] \<longrightarrow> good r (dh_os w) p))
      (if p = [] then ret not_found_response
       else bindE (on_fs (fs_exists p)) (\<lambda>there.
         if there
         then ret ((answer 405 ''Method Not Allowed'')\<lparr>resp_body := ''Collection already exists''\<rparr>)
         else on_fs ?m)) (\<lambda>_ _. True)"
    by (auto intro!: hoare_done hoare_bindE [OF dav_hoare_reads [OF reads_exists, where Q = "\<lambda>_ w. good r (dh_os w) p"]])
qed

lemma contained_put_resource:
  assumes pl: "plain_os os" and wf: "wf_os os" and g: "good r os p"
  shows "contained r os (snd (put_resource p os))"
proof -
  obtain l where l: "p = loc_str l" "copy_target r l" "solid os l" using good_target [OF pl wf g] by blast
  have "snd (create p os') = os'" for os' using reads_create by (simp add: reads_def)
  then have "snd (put_resource p os) = os \<or> snd (put_resource p os) = snd (open_trunc os p)"
    unfolding put_resource_def
    by (auto simp: bindE_def ret_def modE_def split: prod.splits outcome.splits option.splits) (metis snd_conv)+
  then show ?thesis
    using contained_open_trunc(1) [OF wf l(3,2)] contained_refl [OF wf, of r] l(1) by (elim disjE) simp_all
qed

lemma put_resource_path: "put_resource p os = (Ret (Some res), os') \<Longrightarrow> get_path res = p"
  unfolding put_resource_def
  by (auto simp: bindE_def ret_def modE_def dest: create_path split: prod.splits outcome.splits option.splits)

lemma put_resource_good:
  assumes pl: "plain_os os" and wf: "wf_os os" and g: "good r os p"
    and e: "put_resource p os = (x, os')"
  shows "good r os' p"
proof -
  obtain l where l: "p = loc_str l" "solid os l" "region r l" using g unfolding good_def by blast
  have f: "follow os (loc_str l) = Inr l" using follow_solid [OF wf l(2)] .
  have "snd (create p os') = os'" for os' using reads_create by (simp add: reads_def)
  then have "os' = os \<or> os' = snd (open_trunc os p)"
    using e unfolding put_resource_def
    by (auto simp: bindE_def ret_def modE_def split: prod.splits outcome.splits option.splits) (metis snd_conv)+
  then have "solid os' l"
    using l(1,2) f
    by (auto simp: open_trunc_def solid_def split: option.splits node.splits if_splits)
  then show ?thesis using l unfolding good_def by blast
qed

lemma dav_hoare_put: "hoare (dav_inv r os0) P (process_put q) (\<lambda>_ _. True)"
  unfolding process_put_def
proof (rule hoare_bindE [OF dav_hoare_target])
  fix p
  have res: "hoare (dav_inv r os0) (\<lambda>w. good r (dh_os w) p) (on_fs (put_resource p))
      (\<lambda>x w. good r (dh_os w) p \<and> (\<forall>res. x = Some res \<longrightarrow> get_path res = p))"
  proof (rule hoareI)
    fix w rr w'
    assume i: "dav_inv r os0 w" and g: "good r (dh_os w) p" and e: "on_fs (put_resource p) w = (rr, w')"
    obtain os' where m: "put_resource p (dh_os w) = (rr, os')" "w' = w\<lparr>dh_os := os'\<rparr>"
      using e by (auto simp: on_fs_def split: prod.splits)
    have "contained r (dh_os w) os'"
      using contained_put_resource [OF inv_parts(1) [OF i] dav_inv_wf [OF i] g] m(1) by simp
    then have "dav_inv r os0 w'" using dav_inv_step [OF i] m(2) by simp
    moreover have "good r os' p"
      using put_resource_good [OF inv_parts(1) [OF i] dav_inv_wf [OF i] g m(1)] .
    ultimately show "dav_inv r os0 w' \<and> (\<forall>x. rr = Ret x \<longrightarrow> good r (dh_os w') p
        \<and> (\<forall>res. x = Some res \<longrightarrow> get_path res = p))"
      using m put_resource_path by auto
  qed
  have put: "hoare (dav_inv r os0) (\<lambda>w. good r (dh_os w) p \<and> get_path res = p)
      (on_fs (res_put res i n)) (\<lambda>_ _. True)" for res i n
    by (rule dav_hoare_fs) (auto intro: contained_res_put inv_parts dav_inv_wf)
  have "hoare (dav_inv r os0) (\<lambda>w. good r (dh_os w) p \<and> (\<forall>res. x = Some res \<longrightarrow> get_path res = p))
      (case x of
        None \<Rightarrow> ret forbidden
      | Some res \<Rightarrow>
          if get_type res = COLLECTION then ret method_not_allowed
          else bindE (on_fs (res_put res (req_body q) (req_content_length q))) (\<lambda>_. ret (answer 201 ''Created'')))
      (\<lambda>_ _. True)" for x
    by (cases x) (auto intro!: hoare_done hoare_bindE [OF put])
  then show "hoare (dav_inv r os0) (\<lambda>w. P w \<and> (p \<noteq> [] \<longrightarrow> good r (dh_os w) p))
     (if p = [] then ret not_found_response
      else bindE (on_fs (put_resource p)) (\<lambda>resource.
       case resource of
         None \<Rightarrow> ret forbidden
       | Some res \<Rightarrow>
           if get_type res = COLLECTION then ret method_not_allowed
           else bindE (on_fs (res_put res (req_body q) (req_content_length q))) (\<lambda>_.
                ret (answer 201 ''Created'')))) (\<lambda>_ _. True)"
    by (cases "p = []") (auto intro: hoare_done hoare_weaken [OF hoare_bindE [OF res]])
qed

lemma reads_getE: "reads (getE f)"
  by (simp add: reads_def getE_def)

lemma reads_children: "reads (add_children api q es xml)"
proof (induction es arbitrary: xml)
  case (Cons e es)
  have "reads (case x of None \<Rightarrow> add_children api q es xml
      | Some c \<Rightarrow> bindE (getE (\<lambda>os. add_response api os (child_href q (filename (fe_path e))) c xml))
                    (add_children api q es))" for x
    by (cases x) (auto intro!: reads_bindE reads_getE Cons)
  then show ?case using Cons by (auto intro!: reads_bindE [OF reads_create])
qed (simp add: reads_def ret_def)

lemma reads_propfind: "reads (propfind_xml api q p)"
proof -
  have r: "reads (ret x)" "reads (getE f)" for x :: DavXmlBuilder and f :: "os \<Rightarrow> DavXmlBuilder"
    by (simp_all add: reads_def ret_def getE_def)
  show ?thesis
    unfolding propfind_xml_def Let_def
    by (intro reads_bindE [OF reads_create])
       (auto intro!: reads_bindE r reads_children posix_fs.queries split: option.splits)
qed

lemma dav_hoare_propfind: "hoare (dav_inv r os0) P (process_propfind env q) (\<lambda>_ _. True)"
  unfolding process_propfind_def
  by (rule hoare_bindE [OF dav_hoare_target])
     (auto intro!: hoare_done hoare_bindE [OF dav_hoare_reads [OF reads_propfind, where Q = "\<lambda>_ _. True"]])

lemma dav_hoare_transfer:
  assumes op: "\<And>os res d. wf_os os \<Longrightarrow> link_free r os \<Longrightarrow> plain_os os \<Longrightarrow> good r os (get_path res) \<Longrightarrow>
      good r os d \<Longrightarrow> contained r os (snd (operation res d os))"
  shows "hoare (dav_inv r os0) P (transfer operation q) (\<lambda>_ _. True)"
  unfolding transfer_def resolve_destination_def
proof (intro hoare_bindE [OF dav_hoare_target])
  fix src dst
  have o: "hoare (dav_inv r os0) (\<lambda>w. good r (dh_os w) (get_path res) \<and> good r (dh_os w) dst)
      (on_fs (operation res dst)) (\<lambda>_ _. True)" for res
    by (rule dav_hoare_fs) (auto intro: op inv_parts dav_inv_wf)
  have e: "hoare (dav_inv r os0) (\<lambda>_. True)
      (if c then on_fs (fs_exists dst) else ret False) (\<lambda>_ _. True)" for c
    by (auto intro: hoare_done dav_hoare_reads [OF reads_exists])
  let ?P = "\<lambda>w. (P w \<and> (src \<noteq> [] \<longrightarrow> good r (dh_os w) src)) \<and> (dst \<noteq> [] \<longrightarrow> good r (dh_os w) dst)"
  have "hoare (dav_inv r os0)
      (\<lambda>w. (good r (dh_os w) src \<and> good r (dh_os w) dst) \<and> (\<forall>res. x = Some res \<longrightarrow> get_path res = src))
      (case x of
         None \<Rightarrow> ret not_found_response
       | Some res \<Rightarrow>
           bindE (on_fs (operation res dst)) (\<lambda>_.
           bindE (if req_overwrite q = ''F'' then on_fs (fs_exists dst) else ret False) (\<lambda>there.
           ret (if there then answer 412 ''Precondition Failed'' else answer 201 ''Created''))))
      (\<lambda>_ _. True)" for x
  proof (cases x)
    case (Some res)
    have "hoare (dav_inv r os0) (\<lambda>w. good r (dh_os w) (get_path res) \<and> good r (dh_os w) dst)
           (bindE (on_fs (operation res dst)) (\<lambda>_.
           bindE (if req_overwrite q = ''F'' then on_fs (fs_exists dst) else ret False) (\<lambda>there.
           ret (if there then answer 412 ''Precondition Failed'' else answer 201 ''Created'')))) (\<lambda>_ _. True)"
      by (intro hoare_bindE [OF o] hoare_bindE [OF e] hoare_done)
    then show ?thesis using Some by (auto elim: hoare_weaken)
  qed (simp add: hoare_done)
  note body = this
  show "hoare (dav_inv r os0) ?P
      (if src = [] \<or> dst = [] then ret not_found_response
       else bindE (on_fs (create src)) (\<lambda>resource.
         case resource of
           None \<Rightarrow> ret not_found_response
         | Some res \<Rightarrow>
             bindE (on_fs (operation res dst)) (\<lambda>_.
             bindE (if req_overwrite q = ''F'' then on_fs (fs_exists dst) else ret False) (\<lambda>there.
             ret (if there then answer 412 ''Precondition Failed'' else answer 201 ''Created''))))) (\<lambda>_ _. True)"
  proof (cases "src = [] \<or> dst = []")
    case False
    then have ne: "src \<noteq> []" "dst \<noteq> []" by simp_all
    have "hoare (dav_inv r os0) ?P (bindE (on_fs (create src)) (\<lambda>resource.
         case resource of
           None \<Rightarrow> ret not_found_response
         | Some res \<Rightarrow>
             bindE (on_fs (operation res dst)) (\<lambda>_.
             bindE (if req_overwrite q = ''F'' then on_fs (fs_exists dst) else ret False) (\<lambda>there.
             ret (if there then answer 412 ''Precondition Failed'' else answer 201 ''Created''))))) (\<lambda>_ _. True)"
      by (rule hoare_weaken [OF hoare_bindE [OF dav_hoare_create body]]) (use ne in auto)
    then show ?thesis using ne by simp
  qed (simp add: hoare_done)
qed

lemma dav_hoare_simple:
  "hoare (dav_inv r os0) P (process_proppatch q) (\<lambda>_ _. True)"
  "hoare (dav_inv r os0) P (process_options env q) (\<lambda>_ _. True)"
  "hoare (dav_inv r os0) P (process_lock env q) (\<lambda>_ _. True)"
  "hoare (dav_inv r os0) P (process_unlock q) (\<lambda>_ _. True)"
  unfolding process_proppatch_def process_options_def process_lock_def process_unlock_def Let_def
  by (intro hoare_done hoare_any [OF hoare_getE] dav_hoare_resource hoare_bindE [OF hoare_getE])+

lemma dav_hoare_dispatch: "hoare (dav_inv r os0) P (dispatch env q) (\<lambda>_ _. True)"
  unfolding dispatch_def process_copy_def process_move_def
  by (cases "req_method q")
     (auto intro: dav_hoare_get dav_hoare_head dav_hoare_put dav_hoare_delete dav_hoare_mkcol
       dav_hoare_propfind dav_hoare_simple intro!: dav_hoare_transfer contained_res_copy contained_res_move)

section \<open>A connection\<close>

lemma dav_hoare_one: "hoare (dav_inv r os0) P (one_request env) (\<lambda>_ _. True)"
proof -
  have p: "hoare (dav_inv r os0) P (on_conn m) (\<lambda>_ _. True)" for m :: "(http_conn, string + HttpRequest) eff"
    by (auto simp: hoare_def on_conn_def dav_inv_def split: prod.splits)
  have "hoare (dav_inv r os0) (\<lambda>_. True) (case x of Inl e \<Rightarrow> ret False | Inr request \<Rightarrow> serve env request)
      (\<lambda>_ _. True)" for x :: "string + HttpRequest"
    unfolding serve_def
    by (cases x) (auto intro!: hoare_done hoare_bindE [OF dav_hoare_dispatch] hoare_bindE [OF dav_hoare_send])
  then show ?thesis unfolding one_request_def by (intro hoare_bindE [OF p])
qed

lemma handle_loop_inv: "dav_inv r os0 w \<Longrightarrow> dav_inv r os0 (snd (handle_loop env w))"
proof (induction env w rule: handle_loop.induct)
  case (1 env w)
  obtain a w1 where s: "one_request env w = (a, w1)" by (cases "one_request env w")
  then have w1: "dav_inv r os0 w1" using hoareD [OF dav_hoare_one 1(2), of "\<lambda>_. True" env] by simp
  show ?case
    using 1(1) [OF s [symmetric] _ _ w1] s w1
    by (subst handle_loop.simps) (auto split: outcome.splits)
qed

text \<open>
  C2: Whatever a client sends over a whole WebDAV connection, for any behaviour of the network:
  the file system stays well formed, and every location that is neither in the root directory
  nor beside it under a name extending the root's is unchanged, provided that the text of the root
  leads to it through no symbolic link, that no link lies in that region or above it (a copied directory
  would write through one) and that no name has a colon. A copy of a directory into itself, which never
  ends, leaves the file system as it was here.
\<close>

theorem dav_confined:
  assumes "wf_os os" and "follow os root = Inr r" and "full_loc os root = r"
    and "link_free r os" and "plain_os os"
    and "handle_request env (new_handler k os root) = (res, w')"
  shows "wf_os (dh_os w') \<and> (\<forall>l. \<not> below r l \<and> \<not> beside r l \<longrightarrow> lookup (dh_os w') l = lookup os l)"
proof -
  have "dav_inv r os (new_handler k os root)"
    using assms(3-5) contained_refl [OF assms(1)] by (simp add: dav_inv_def new_handler_def)
  then have "dav_inv r os w'"
    using handle_loop_inv [of r os "new_handler k os root" env] assms(6) by (simp add: handle_request_def)
  then show ?thesis by (simp add: dav_inv_def contained_def region_def)
qed

section \<open>Served on the small file system\<close>

definition sample_env :: dav_env where
  "sample_env =
     \<lparr>de_api = latin_api, de_order = (\<lambda>hs. hs), de_gmtime = (\<lambda>os. local_tm os (now os)),
      de_ticks = (\<lambda>os. 255), de_method = GET, de_version = UNKNOWN\<rparr>"

definition client_sock :: "(exn + string) list \<Rightarrow> sock" where
  "client_sock script =
     \<lparr>to_read = script, write_faults = [], send_sizes = [], written = [], is_open = True\<rparr>"

lemma sample_no_links: "lookup sample_os l \<noteq> Some (Symlink t)"
  by (simp add: lookup_def sample_os_def)

lemma sample_link_free: "link_free r sample_os"
  by (simp add: link_free_def linkless_def sample_no_links)

lemma sample_plain: "plain_os sample_os"
proof -
  have "plain_names [''ftp'', ''a.txt'', ''sub'', ''ftp-private'', ''key'']" by code_simp
  then show ?thesis
    by (auto simp: plain_os_def lookup_def sample_os_def plain_names_def split: if_splits)
qed

lemma dav_confined_witness:
  "lookup (dh_os (snd (handle_request sample_env (new_handler
       (client_sock [Inr (''DELETE / HTTP/1.1'' @ blank_line)]) sample_os served)))) (''D:'', []) =
     Some (Directory plain_attr)"
proof -
  let ?w = "new_handler (client_sock [Inr (''DELETE / HTTP/1.1'' @ blank_line)]) sample_os served"
  obtain res w' where h: "handle_request sample_env ?w = (res, w')"
    by (cases "handle_request sample_env ?w")
  have l: "lookup sample_os (''D:'', []) = Some (Directory plain_attr)"
    by (simp add: lookup_def sample_os_def)
  have f: "full_loc sample_os served = (''D:'', [''ftp''])" by code_simp
  show ?thesis
    using dav_confined [OF wf_sample_os follow_served f sample_link_free sample_plain h] h l
    by (simp add: below_def beside_def name_extends_def)
qed

end
