(* ===== verification/DavProps.thy ===== *)
theory DavProps
  imports DavConfine
begin

text \<open>
  What the WebDAV methods do on single requests: GET, PUT, missing targets, COPY with Overwrite,
  LOCK and UNLOCK, and the document PROPFIND sends.
\<close>

section \<open>Reaching a resource\<close>

definition reaches :: "DavRequestHandler \<Rightarrow> string \<Rightarrow> path \<Rightarrow> bool" where
  \<comment> \<open>the request path resolves to \<open>p\<close>\<close>
  "reaches w q p \<longleftrightarrow> resolve_path (dh_os w) (dh_root w) q = Ret p \<and> p \<noteq> []"

lemma target_reaches: "reaches w q p \<Longrightarrow> request_target q w = (Ret p, w)"
  by (simp add: reaches_def request_target_def bindE_def getE_def liftE_def)

lemma create_file:
  "status os p = Inr (RegFile a b) \<Longrightarrow> create p os = (Ret (Some (DavFile p [])), os)"
  by (simp add: create_def bindE_def getE_def ret_def exists_ec_def fs_is_directory_def or_throw_def
      is_directory_ec_def is_dir_node_def)

lemma on_fs_state: "m (dh_os w) = (r, dh_os w) \<Longrightarrow> on_fs m w = (r, w)"
  by (simp add: on_fs_def)

lemma with_resource_file:
  "reaches w q p \<Longrightarrow> status (dh_os w) p = Inr (RegFile a b) \<Longrightarrow>
     with_resource q f w = f p (DavFile p []) w"
  using target_reaches [of w q p] on_fs_state [of "create p" w "Ret (Some (DavFile p []))"]
    create_file [of "dh_os w" p a b]
  by (simp add: with_resource_def bindE_def reaches_def)

definition after_writing :: "string \<Rightarrow> DavRequestHandler \<Rightarrow> DavRequestHandler" where
  "after_writing s w = w\<lparr>dh_conn := (dh_conn w)\<lparr>conn_sock :=
     (conn_sock (dh_conn w))\<lparr>written := written (conn_sock (dh_conn w)) @ s\<rparr>\<rparr>\<rparr>"

abbreviation quiet_conn :: "DavRequestHandler \<Rightarrow> bool" where
  "quiet_conn w \<equiv> quiet (conn_sock (dh_conn w))"

lemma send_text_quiet: "quiet_conn w \<Longrightarrow> send_text s w = (Ret (), after_writing s w)"
  by (simp add: send_text_def on_conn_def on_sock_def write_all_quiet after_writing_def)

lemma after_writing_frame [simp]:
  "dh_os (after_writing s w) = dh_os w" "dh_root (after_writing s w) = dh_root w"
  "quiet_conn (after_writing s w) = quiet_conn w"
  "written (conn_sock (dh_conn (after_writing s w))) = written (conn_sock (dh_conn w)) @ s"
  by (simp_all add: after_writing_def)

lemma after_writing_twice: "after_writing t (after_writing s w) = after_writing (s @ t) w"
  by (simp add: after_writing_def)

section \<open>GET\<close>

text \<open>
  C28: The answer to GET for a file has its head twice: the header with the file's length, the
  bytes of the file exactly as they are on disk, and then, from the connection loop, the same
  header once more, which a client on a persistent connection takes for the next response.
\<close>

theorem get_sends_head_twice:
  assumes "req_method q = GET" and "reaches w (req_path q) p"
    and "status (dh_os w) p = Inr (RegFile a b)" and "quiet_conn w"
    and "head = generate_response (de_order env) (head_response (dh_os w) (DavFile p []))"
  shows "serve env q w = (Ret (req_version q \<noteq> HTTP10), after_writing (head @ b @ head) w)
    \<and> get_header ''Content-Length'' (head_response (dh_os w) (DavFile p [])) = dec (length b)"
proof -
  have size: "file_size_ec (dh_os w) p = Inr (length b)" using assms(3) by (simp add: file_size_ec_def)
  have g: "on_fs (file_get p []) v = (Ret b, v)" if "dh_os v = dh_os w" for v
    using that assms(3) size by (simp add: on_fs_def file_get_def get_loop_all)
  have "process_get env q w = (Ret (head_response (dh_os w) (DavFile p [])), after_writing (head @ b) w)"
    using assms(4)
    by (simp add: process_get_def with_resource_file [OF assms(2,3)] bindE_def getE_def ret_def
        send_text_quiet assms(5) [symmetric] g after_writing_twice)
  then have "serve env q w = (Ret (req_version q \<noteq> HTTP10), after_writing (head @ b @ head) w)"
    using assms(1,4)
    by (simp add: serve_def dispatch_def bindE_def ret_def send_text_quiet assms(5) [symmetric]
        after_writing_twice)
  then show ?thesis
    using size by (simp add: head_response_def with_headers_def get_set_header)
qed

definition sample_request :: "HttpMethod \<Rightarrow> string \<Rightarrow> HttpRequest" where
  "sample_request m p = (new_request m HTTP11)\<lparr>req_path := p\<rparr>"

definition sample_handler :: DavRequestHandler where
  "sample_handler = new_handler (client_sock []) sample_os served"

lemma sample_reaches:
  "reaches sample_handler ''/a.txt'' (''D:'' @ [BSL] @ ''ftp'' @ [BSL] @ ''a.txt'')"
  by code_simp

lemma sample_status:
  "status (dh_os sample_handler) (''D:'' @ [BSL] @ ''ftp'' @ [BSL] @ ''a.txt'') =
     Inr (RegFile plain_attr ''hello'')"
  by code_simp

lemma sample_quiet: "quiet_conn sample_handler"
  by (simp add: sample_handler_def new_handler_def client_sock_def quiet_def)

lemma get_sends_head_twice_witness:
  "\<exists>head. fst (serve sample_env (sample_request GET ''/a.txt'') sample_handler) = Ret True
    \<and> written (conn_sock (dh_conn (snd (serve sample_env (sample_request GET ''/a.txt'') sample_handler))))
        = head @ ''hello'' @ head"
proof -
  have q: "req_method (sample_request GET ''/a.txt'') = GET" "req_path (sample_request GET ''/a.txt'') = ''/a.txt''"
    "req_version (sample_request GET ''/a.txt'') = HTTP11"
    by (simp_all add: sample_request_def new_request_def)
  have "written (conn_sock (dh_conn sample_handler)) = []"
    by (simp add: sample_handler_def new_handler_def client_sock_def)
  then show ?thesis
    using get_sends_head_twice [OF q(1) _ sample_status sample_quiet refl, of sample_env]
      sample_reaches q by auto
qed

section \<open>PUT\<close>

lemma read_content_body:
  assumes "read_content v e r c = (Ret (Inr q), c')" and "req_content_length r = 0 \<or> map_of (req_headers r) ''content-length'' \<noteq> None"
  shows "req_content_length q \<le> length (req_body q)"
  using assms
  by (auto simp: read_content_def bindE_def ret_def liftE_def Let_def
      split: option.splits outcome.splits prod.splits if_splits dest: read_body_result)

text \<open>
  The content length is only ever set together with its header.
\<close>

definition length_from_header :: "HttpRequest \<Rightarrow> bool" where
  "length_from_header r \<longleftrightarrow>
     req_content_length r = 0 \<or> map_of (req_headers r) ''content-length'' \<noteq> None"

lemma length_from_header_path [simp]: "length_from_header (r\<lparr>req_path := p\<rparr>) = length_from_header r"
  by (simp add: length_from_header_def)

lemma store_header_length:
  "store_header k v r = Ret r' \<Longrightarrow> length_from_header r \<Longrightarrow> length_from_header r'"
  by (auto simp: store_header_def length_from_header_def update_conv' Let_def
      split: if_splits outcome.splits)

lemma parse_header_line_length:
  "parse_header_line l r = Ret r' \<Longrightarrow> length_from_header r \<Longrightarrow> length_from_header r'"
  by (auto simp: parse_header_line_def Let_def dest: store_header_length split: if_splits option.splits)

lemma parse_header_lines_length:
  "parse_header_lines ls r = Ret r' \<Longrightarrow> length_from_header r \<Longrightarrow> length_from_header r'"
  by (induction ls r rule: parse_header_lines.induct)
     (auto dest: parse_header_line_length split: outcome.splits)

lemma parse_line_length:
  "parse_request_line s (new_request m v) = Some r \<Longrightarrow> length_from_header r"
  by (auto simp: parse_request_line_def new_request_def length_from_header_def Let_def
      split: option.splits if_splits)

lemma parse_request_line_empty [simp]: "parse_request_line [] r = None"
  by (simp add: parse_request_line_def Let_def split_eq_ref split_ref_no_delim)

lemma parse_request_body:
  assumes "parse_request api m0 v0 c = (Ret (Inr q), c')"
  shows "req_content_length q \<le> length (req_body q)"
proof -
  have h: "length_from_header r3" if "parse_request_line s (new_request m0 v0) = Some r1"
    "parse_header_lines ls (r1\<lparr>req_path := p\<rparr>) = Ret r3" for s r1 ls p r3
    using parse_header_lines_length [OF that(2)] parse_line_length [OF that(1)] by simp
  have "\<exists>v e r2 c2. read_content v e r2 c2 = (Ret (Inr q), c') \<and> length_from_header r2"
    using assms unfolding parse_request_def
    by (auto simp: bindE_def getE_def ret_def liftE_def Let_def parse_headers_def
        split: option.splits outcome.splits prod.splits intro: h)
  then obtain v e r2 c2 where "read_content v e r2 c2 = (Ret (Inr q), c')" and "length_from_header r2"
    by blast
  then show ?thesis using read_content_body by (auto simp: length_from_header_def)
qed

text \<open>
  C6: PUT does not hang on a request the parser lets through: its copying loop, which never ends
  when the input is shorter than the declared length, always has enough input there, and what
  it writes is the body cut at the declared length.
\<close>

theorem put_terminates:
  assumes "parse_request api m0 v0 c = (Ret (Inr q), c')"
  shows "put_loop (req_content_length q) (req_body q) [] = Some (take (req_content_length q) (req_body q))
    \<and> fst (file_put p (req_body q) (req_content_length q) os) \<noteq> Hang
    \<and> (\<forall>n. length (req_body q) < n \<longrightarrow> put_loop n (req_body q) [] = None)"
  using parse_request_body [OF assms] by (auto simp: put_loop_iff file_put_def split: sum.splits prod.splits)

definition put_conn :: http_conn where
  "put_conn =
     \<lparr>conn_sock = client_sock [Inr (client_head PUT ''/a.txt'' ''hello'' @ blank_line @ ''he''), Inr ''llo''],
      conn_buf = []\<rparr>"

lemma put_conn_parsed:
  "\<exists>q c'. parse_request latin_api GET UNKNOWN put_conn = (Ret (Inr q), c')
     \<and> req_method q = PUT \<and> req_path q = ''/a.txt'' \<and> req_body q = ''hello''
     \<and> req_content_length q = length ''hello'' \<and> req_version q = UNKNOWN
     \<and> conn_buf c' = ''hello'' \<and> delivered (to_read (conn_sock c')) = drop (length ''hello'' - length ''he'') (delivered [Inr ''llo''])"
proof (rule parse_client_request [OF ascii_latin_api])
  show "is_ascii_text ''/a.txt''" by code_simp
  show "length (client_head PUT ''/a.txt'' ''hello'' @ blank_line @ ''he'') \<le> 4096" by code_simp
  show "prefix ''hello'' (''he'' @ delivered [Inr ''llo''])" by code_simp
qed (simp_all add: put_conn_def client_sock_def)

lemma put_terminates_witness:
  "\<exists>q. fst (parse_request latin_api GET UNKNOWN put_conn) = Ret (Inr q) \<and> req_body q = ''hello''
     \<and> fst (file_put served (req_body q) (req_content_length q) sample_os) \<noteq> Hang"
  using put_conn_parsed put_terminates [of latin_api GET UNKNOWN put_conn _ _ served sample_os]
  by (metis fst_conv)

section \<open>Missing targets\<close>

definition missing :: "DavRequestHandler \<Rightarrow> string \<Rightarrow> bool" where
  \<comment> \<open>the request path names nothing under the root\<close>
  "missing w q \<longleftrightarrow> decode_url q \<noteq> []
     \<and> isl (follow (dh_os w) (path_append (dh_root w) (tl (decode_url q))))"

lemma target_missing: "missing w q \<Longrightarrow> request_target q w = (Ret [], w)"
  by (auto simp: missing_def request_target_def bindE_def getE_def liftE_def resolve_path_admitted
      resolve_admit_def canonical_def isl_def)

lemma target_empty:
  "decode_url q = [] \<Longrightarrow> request_target q w = (Exn (Out_of_range ''invalid string position''), w)"
  by (simp add: request_target_def bindE_def getE_def liftE_def resolve_path_admitted)

lemma target_returns: "decode_url q \<noteq> [] \<Longrightarrow> \<exists>p. request_target q w = (Ret p, w)"
  by (simp add: request_target_def bindE_def getE_def liftE_def resolve_path_admitted)

abbreviation transfers :: "HttpRequest \<Rightarrow> bool" where
  "transfers q \<equiv> req_method q = COPY \<or> req_method q = MOVE"

abbreviation destination_of :: "HttpRequest \<Rightarrow> string" where
  "destination_of q \<equiv> destination_path (req_destination q)"

text \<open>
  C26: A request on a path that names nothing under the root changes nothing and is answered 404, except
  for OPTIONS and PROPPATCH, which do not look at the path and are answered 200; so is a COPY or MOVE
  whose destination names nothing yet, or both. In particular PUT cannot create a file, MKCOL cannot
  create a collection, and COPY and MOVE can only write over what is there. One exception: where the
  other of the two paths of a COPY or MOVE decodes to the empty text the handler throws, and changes
  nothing either.
\<close>

theorem missing_target:
  assumes "missing w (req_path q) \<or> transfers q \<and> missing w (destination_of q)"
  shows "if req_method q = OPTIONS \<or> req_method q = PROPPATCH
    then \<exists>r. dispatch env q w = (Ret r, w) \<and> resp_status_code r = 200
    else if decode_url (req_path q) = [] \<or> transfers q \<and> decode_url (destination_of q) = []
    then dispatch env q w = (Exn (Out_of_range ''invalid string position''), w)
    else dispatch env q w = (Ret not_found_response, w) \<and> resp_status_code not_found_response = 404"
proof -
  have code: "resp_status_code not_found_response = 404"
    by (simp add: not_found_response_def with_text_def with_headers_def set_header_def answer_def)
  have look: "\<exists>r. dispatch env q w = (Ret r, w) \<and> resp_status_code r = 200"
    if "req_method q = OPTIONS \<or> req_method q = PROPPATCH"
    using that by (auto simp: dispatch_def process_options_def process_proppatch_def getE_def ret_def with_text_def
        with_headers_def set_header_def answer_def)
  have two: "dispatch env q w = (if decode_url (req_path q) = [] \<or> decode_url (destination_of q) = []
      then (Exn (Out_of_range ''invalid string position''), w) else (Ret not_found_response, w))" if t: "transfers q"
  proof -
    have m: "missing w (req_path q) \<or> missing w (destination_of q)" using assms by blast
    note target = target_empty [of _ w] target_missing [of w] target_returns [of _ w]
    obtain s where s: "decode_url (req_path q) \<noteq> [] \<longrightarrow> request_target (req_path q) w = (Ret s, w)"
      "missing w (req_path q) \<longrightarrow> s = []" using target by blast
    obtain d where d: "decode_url (destination_of q) \<noteq> [] \<longrightarrow> request_target (destination_of q) w = (Ret d, w)"
      "missing w (destination_of q) \<longrightarrow> d = []" using target by blast
    show ?thesis
      using t m s d target(1) by (auto simp: dispatch_def process_copy_def process_move_def transfer_def
          resolve_destination_def bindE_def ret_def)
  qed
  have one: "dispatch env q w = (Ret not_found_response, w)"
    if "\<not> transfers q" "req_method q \<noteq> OPTIONS" "req_method q \<noteq> PROPPATCH"
  proof -
    have "request_target (req_path q) w = (Ret [], w)" using assms that(1) target_missing by blast
    then show ?thesis
      using that
      by (auto simp: dispatch_def process_get_def process_head_def process_put_def process_delete_def
          process_mkcol_def process_propfind_def process_lock_def process_unlock_def with_resource_def
          bindE_def ret_def split: HttpMethod.splits)
  qed
  show ?thesis
  proof (cases "transfers q")
    case True
    then show ?thesis using two code by auto
  next
    case False
    then show ?thesis using one look code assms by (auto simp: missing_def)
  qed
qed

lemma missing_sample: "missing sample_handler ''/new''"
  by code_simp

lemma missing_target_witness:
  "dispatch sample_env (sample_request PUT ''/new'') sample_handler = (Ret not_found_response, sample_handler)
    \<and> (\<exists>r. dispatch sample_env (sample_request PROPPATCH ''/new'') sample_handler = (Ret r, sample_handler)
        \<and> resp_status_code r = 200)"
proof -
  have m: "missing sample_handler (req_path (sample_request m ''/new''))" for m
    using missing_sample by (simp add: sample_request_def)
  have d: "decode_url ''/new'' \<noteq> []" using missing_sample by (simp add: missing_def)
  have q: "req_method (sample_request m p) = m" "req_path (sample_request m p) = p" for m p
    by (simp_all add: sample_request_def new_request_def)
  show ?thesis
    using missing_target [OF disjI1 [OF m [of PUT]], of sample_env] missing_target [OF disjI1 [OF m [of PROPPATCH]], of sample_env]
      d by (simp add: q)
qed

section \<open>COPY and Overwrite\<close>

lemma snd_bindE_cong:
  "(\<And>x v. snd (f x v) = snd (g x v)) \<Longrightarrow> snd (bindE m f w) = snd (bindE m g w)"
  by (simp add: bindE_def split: prod.splits outcome.splits)

lemma exists_then:
  "snd (bindE (on_fs (fs_exists d)) (\<lambda>t. ret (f t)) v) = v"
  "snd (bindE (ret False) (\<lambda>t. ret (f t)) v) = v"
  by (auto simp: bindE_def on_fs_def ret_def fs_exists_def or_throw_def split: sum.splits)

lemma transfer_overwrite:
  "snd (transfer op (q\<lparr>req_overwrite := x\<rparr>) w) = snd (transfer op q w)"
  unfolding transfer_def
  by (simp, intro snd_bindE_cong) (auto intro!: snd_bindE_cong simp: exists_then split: option.splits)

text \<open>MOVE over an existing file.\<close>

lemma reaches_loc:
  assumes "wf_os (dh_os w)" and "reaches w q p" and "follow (dh_os w) p = Inr k"
  shows "p = loc_str k \<and> solid (dh_os w) k"
proof -
  obtain t where "resolve_admit (dh_os w) (dh_root w) t = Some p"
    using assms(2) by (auto simp: reaches_def resolve_path_admitted split: if_splits option.splits)
  then obtain l where l: "p = loc_str l" "solid (dh_os w) l"
    using ftp_guard.admit_locs [OF assms(1)] by blast
  then show ?thesis using follow_solid [OF assms(1) l(2)] assms(3) by simp
qed

lemma move_over_file:
  assumes wf: "wf_os os" and a: "lookup os k = Some (RegFile a b)" and l: "lookup os l = Some (RegFile a' b')" and ne: "l \<noteq> k"
  shows "fs_rename os (loc_str k) (loc_str l) = (None, move_tree k l os)" and "wf_os (move_tree k l os)"
    and "lookup (move_tree k l os) l = Some (RegFile a b)" and "lookup (move_tree k l os) k = None"
proof -
  have s: "solid os k" "solid os l" using a l by (simp_all add: solid_def)
  note lo = locate_solid [OF wf s(1)] locate_solid [OF wf s(2)]
  have root: "snd k \<noteq> []" "snd l \<noteq> []"
    using locate_result(3) [OF wf lo(1)] locate_result(3) [OF wf lo(2)] a l by (auto simp: is_dir_node_def)
  have nb: "\<not> below k l" "\<not> below l k"
    using existing_below [OF wf, of l k] existing_below [OF wf, of k l] a l ne by (auto simp: is_dir_node_def)
  then show r: "fs_rename os (loc_str k) (loc_str l) = (None, move_tree k l os)"
    using lo root a l ne by (simp add: fs_rename_def is_dir_node_def)
  show "wf_os (move_tree k l os)" using wf_fs_rename [OF wf, of "loc_str k" "loc_str l"] r by simp
  show "lookup (move_tree k l os) l = Some (RegFile a b)" "lookup (move_tree k l os) k = None"
    using nb a by (simp_all add: lookup_move_tree apart_def)
qed

text \<open>
  C27: The header Overwrite does not keep COPY or MOVE from writing. For every request with one of these
  methods, the state of the server after it is the same with any value of the header. And with \<open>F\<close>,
  where source and destination are different existing regular files and the destination may be
  written, the file at the destination gets the contents and attributes of the source all the same, which
  a MOVE also removes, and then the answer is 412.
\<close>

theorem transfer_ignores_overwrite:
  assumes "transfers q"
  shows "(\<forall>x. snd (dispatch env (q\<lparr>req_overwrite := x\<rparr>) w) = snd (dispatch env q w))
    \<and> (req_overwrite q = ''F'' \<and> wf_os (dh_os w)
        \<and> reaches w (req_path q) p \<and> follow (dh_os w) p = Inr k \<and> lookup (dh_os w) k = Some (RegFile a b)
        \<and> reaches w (destination_of q) d \<and> follow (dh_os w) d = Inr l \<and> lookup (dh_os w) l = Some (RegFile a' b')
        \<and> l \<noteq> k \<and> writable a'
      \<longrightarrow> (\<exists>os. dispatch env q w = (Ret (answer 412 ''Precondition Failed''), w\<lparr>dh_os := os\<rparr>)
        \<and> os = (if req_method q = COPY then put_node l (RegFile a b) (dh_os w) else move_tree k l (dh_os w))
        \<and> lookup os l = Some (RegFile a b)
        \<and> lookup os k = (if req_method q = COPY then Some (RegFile a b) else None)))"
proof (intro conjI impI)
  show "\<forall>x. snd (dispatch env (q\<lparr>req_overwrite := x\<rparr>) w) = snd (dispatch env q w)"
    using assms by (auto simp: dispatch_def process_copy_def process_move_def transfer_overwrite)
next
  assume h: "req_overwrite q = ''F'' \<and> wf_os (dh_os w)
    \<and> reaches w (req_path q) p \<and> follow (dh_os w) p = Inr k \<and> lookup (dh_os w) k = Some (RegFile a b)
    \<and> reaches w (destination_of q) d \<and> follow (dh_os w) d = Inr l \<and> lookup (dh_os w) l = Some (RegFile a' b')
    \<and> l \<noteq> k \<and> writable a'"
  let ?os = "if req_method q = COPY then put_node l (RegFile a b) (dh_os w) else move_tree k l (dh_os w)"
  have wf: "wf_os (dh_os w)" using h by simp
  have loc: "p = loc_str k" "d = loc_str l" using reaches_loc [OF wf] h by blast+
  have t: "request_target (req_path q) w = (Ret p, w)" "request_target (destination_of q) w = (Ret d, w)"
    using h by (simp_all add: target_reaches)
  have ne: "p \<noteq> []" "d \<noteq> []" using h by (simp_all add: reaches_def)
  have cr: "create p (dh_os w) = (Ret (Some (DavFile p [])), dh_os w)"
    using h by (intro create_file) (simp add: status_def)
  have mv: "fs_rename (dh_os w) p d = (None, move_tree k l (dh_os w))" "wf_os (move_tree k l (dh_os w))"
    "lookup (move_tree k l (dh_os w)) l = Some (RegFile a b)" "lookup (move_tree k l (dh_os w)) k = None"
    unfolding loc using move_over_file [OF wf, of k a b l a' b'] h by simp_all
  have cp: "fs_copy_file (dh_os w) p d = (None, put_node l (RegFile a b) (dh_os w))"
    using h by (simp add: fs_copy_file_def)
  have "follow ?os d = Inr l"
    using h follow_solid [OF mv(2), of l] mv(3) by (auto simp: follow_put_file solid_def loc(2) [symmetric])
  then have st: "status ?os d = Inr (RegFile a b)" using mv(3) by (simp add: status_def)
  have "dispatch env q w = (Ret (answer 412 ''Precondition Failed''), w\<lparr>dh_os := ?os\<rparr>)"
    using t ne h assms cr cp mv(1) st
    by (auto simp: dispatch_def process_copy_def process_move_def transfer_def resolve_destination_def bindE_def ret_def
        on_fs_def file_copy_def file_move_def error_of_def fs_exists_def or_throw_def exists_ec_def)
  then show "\<exists>os. dispatch env q w = (Ret (answer 412 ''Precondition Failed''), w\<lparr>dh_os := os\<rparr>)
      \<and> os = ?os \<and> lookup os l = Some (RegFile a b)
      \<and> lookup os k = (if req_method q = COPY then Some (RegFile a b) else None)"
    using h mv(3,4) by auto
qed

definition two_files :: DavRequestHandler where
  "two_files = new_handler (client_sock [])
     (put_node (''D:'', [''ftp'', ''b.txt'']) (RegFile plain_attr ''old'') sample_os) served"

definition copy_request :: HttpRequest where
  "copy_request = (sample_request COPY ''/a.txt'')\<lparr>req_destination := ''/b.txt'', req_overwrite := ''F''\<rparr>"

definition move_request :: HttpRequest where
  "move_request = (sample_request MOVE ''/a.txt'')\<lparr>req_destination := ''/b.txt'', req_overwrite := ''F''\<rparr>"

lemma transfer_ignores_overwrite_witness:
  "(\<exists>os. dispatch sample_env copy_request two_files = (Ret (answer 412 ''Precondition Failed''), two_files\<lparr>dh_os := os\<rparr>)
     \<and> lookup os (''D:'', [''ftp'', ''b.txt'']) = Some (RegFile plain_attr ''hello''))
   \<and> (\<exists>os. dispatch sample_env move_request two_files = (Ret (answer 412 ''Precondition Failed''), two_files\<lparr>dh_os := os\<rparr>)
     \<and> lookup os (''D:'', [''ftp'', ''b.txt'']) = Some (RegFile plain_attr ''hello'')
     \<and> lookup os (''D:'', [''ftp'', ''a.txt'']) = None)"
proof -
  let ?b = "''D:'' @ [BSL] @ ''ftp'' @ [BSL]" and ?k = "(''D:'', [''ftp'', ''a.txt''])" and ?l = "(''D:'', [''ftp'', ''b.txt''])"
  have q: "req_method copy_request = COPY" "req_overwrite copy_request = ''F''"
    "req_method move_request = MOVE" "req_overwrite move_request = ''F''"
    "req_path move_request = req_path copy_request" "destination_of move_request = destination_of copy_request"
    by (simp_all add: copy_request_def move_request_def sample_request_def new_request_def)
  have r: "reaches two_files (req_path copy_request) (?b @ ''a.txt'')"
    "reaches two_files (destination_of copy_request) (?b @ ''b.txt'')" by code_simp+
  have f: "follow (dh_os two_files) (?b @ ''a.txt'') = Inr ?k" "follow (dh_os two_files) (?b @ ''b.txt'') = Inr ?l"
    by code_simp+
  have l: "lookup (dh_os two_files) ?k = Some (RegFile plain_attr ''hello'')"
    "lookup (dh_os two_files) ?l = Some (RegFile plain_attr ''old'')" by code_simp+
  have "valid_name ''b.txt''" by code_simp
  moreover have "valid_loc (''D:'', [''ftp''])" by (rule wf_valid [OF wf_sample_os]) (simp add: lookup_def sample_os_def)
  ultimately have "valid_loc ?l" by (simp add: valid_loc_def)
  then have wf: "wf_os (dh_os two_files)"
    unfolding two_files_def new_handler_def
    by (simp, intro wf_put_node [OF wf_sample_os]) (simp_all add: wf_node_def parent_def lookup_def sample_os_def is_dir_node_def)
  note t = transfer_ignores_overwrite [where w = two_files and p = "?b @ ''a.txt''" and d = "?b @ ''b.txt''" and k = ?k
      and l = ?l and a = plain_attr and b = "''hello''" and a' = plain_attr and b' = "''old''" and env = sample_env,
      THEN conjunct2, THEN mp]
  show ?thesis using t [of copy_request] t [of move_request] q r f l wf writable_plain by auto
qed

section \<open>LOCK and UNLOCK\<close>

lemma erase_no_locks: "get_locks res = [] \<Longrightarrow> fst (unlock t res) = False"
  by (cases res) (simp_all add: file_unlock_def collection_unlock_def)

lemma with_resource_reached:
  assumes "reaches w q p" and "status (dh_os w) p = Inr n"
  shows "\<exists>res. get_locks res = [] \<and> (\<forall>f. with_resource q f w = f p res w)"
proof -
  have "create p (dh_os w) =
      (Ret (Some (if is_dir_node (Some n) then DavCollection p [] else DavFile p [])), dh_os w)"
    using assms(2) by (simp add: create_def bindE_def getE_def ret_def exists_ec_def fs_is_directory_def
        or_throw_def is_directory_ec_def)
  then show ?thesis
    using target_reaches [OF assms(1)] assms(1) on_fs_state [of "create p" w]
    by (intro exI [of _ "if is_dir_node (Some n) then DavCollection p [] else DavFile p []"])
       (simp add: with_resource_def bindE_def reaches_def)
qed

text \<open>
  A lock lives as long as the resource object of the request that made it: LOCK answers 200
  and leaves nothing behind, so that a second LOCK, exclusive or not, is granted as well, and
  UNLOCK answers 409 for every token.
\<close>

theorem lock_not_kept:
  assumes "reaches w (req_path q) p" and "status (dh_os w) p = Inr n" and "req_path u = req_path q"
  shows "(\<exists>r. process_lock env q w = (Ret r, w) \<and> resp_status_code r = 200)
    \<and> process_unlock u w = (Ret (answer 409 ''Conflict''), w)"
proof
  have code: "resp_status_code (with_headers hs r) = resp_status_code r" for hs r
    by (induction hs arbitrary: r) (auto simp: with_headers_def set_header_def)
  obtain res where none: "get_locks res = []" and run: "with_resource (req_path q) f w = f p res w" for f
    using with_resource_reached [OF assms(1,2)] by blast
  show "\<exists>r. process_lock env q w = (Ret r, w) \<and> resp_status_code r = 200"
    by (simp add: process_lock_def run bindE_def getE_def ret_def Let_def code answer_def)
  show "process_unlock u w = (Ret (answer 409 ''Conflict''), w)"
    by (simp add: process_unlock_def assms(3) run ret_def none erase_no_locks)
qed

lemma lock_not_kept_witness:
  "\<exists>r. process_lock sample_env (sample_request LOCK ''/a.txt'') sample_handler = (Ret r, sample_handler)
     \<and> process_unlock (sample_request UNLOCK ''/a.txt'' \<lparr>req_lock_token := ''urn:uuid:ff''\<rparr>) sample_handler =
         (Ret (answer 409 ''Conflict''), sample_handler)"
  using lock_not_kept [OF _ sample_status, of "sample_request LOCK ''/a.txt''"
      "sample_request UNLOCK ''/a.txt'' \<lparr>req_lock_token := ''urn:uuid:ff''\<rparr>" sample_env] sample_reaches
  by (auto simp: sample_request_def)

end
