(* ===== verification/DavDocument.thy ===== *)
theory DavDocument
  imports DavProps
begin

text \<open>
  The document a PROPFIND is answered with: an abstract multistatus element, one response for
  each resource the request describes, and the proof that the text of the builder is its
  rendering.
\<close>

section \<open>The abstract document\<close>

definition element :: "string \<Rightarrow> xml list \<Rightarrow> xml" where
  "element n ks = Elem (''D:'' @ n) [] ks"

definition text_element :: "string \<Rightarrow> string \<Rightarrow> xml" where
  "text_element n t = element n [Text t]"

fun property_list :: "winapi \<Rightarrow> os \<Rightarrow> DavResource \<Rightarrow> xml list" where
  "property_list api os (DavFile p ls) =
     [text_element ''getcontentlength'' (dec (get_size os (DavFile p ls))),
      text_element ''getlastmodified'' (date_buf os p),
      text_element ''creationdate'' (date_buf os p),
      text_element ''displayname'' (encodeFilename api (filename p)),
      Leaf ''D:resourcetype'']"
| "property_list api os (DavCollection p ls) =
     [text_element ''creationdate'' ''Thu, 01 Jan 1970 00:00:00 GMT'',
      text_element ''displayname'' (encodeFilename api (filename p)),
      element ''resourcetype'' [Leaf ''D:collection'']]"

definition response_element :: "winapi \<Rightarrow> os \<Rightarrow> string \<times> DavResource \<Rightarrow> xml" where
  "response_element api os hr =
     Elem ''D:response'' dav_xmlns
       [text_element ''href'' (encodeFilename api (fst hr)),
        element ''propstat''
          [element ''prop'' (property_list api os (snd hr)),
           text_element ''status'' ''HTTP/1.1 200 OK'']]"

definition multistatus :: "xml list \<Rightarrow> xml" where
  "multistatus ks = Elem ''D:multistatus'' dav_xmlns ks"

text \<open>
  What a request describes: with depth 0 or 1, or no depth at all, the resource itself, and
  with depth 1 every entry of a collection; with another depth, nothing.
\<close>

definition resource_at :: "os \<Rightarrow> path \<Rightarrow> DavResource option" where
  "resource_at os p =
     (case status os p of
        Inr n \<Rightarrow> Some (if is_dir_node (Some n) then DavCollection p [] else DavFile p [])
      | Inl e \<Rightarrow> None)"

definition described_children :: "os \<Rightarrow> string \<Rightarrow> FileEntry list \<Rightarrow> (string \<times> DavResource) list" where
  "described_children os q es =
     concat (map (\<lambda>e.
       (case resource_at os (fe_path e) of
          Some c \<Rightarrow>
            if filename (fe_path e) \<in> {''.'', ''..''} then []
            else [(child_href q (filename (fe_path e)), c)]
        | None \<Rightarrow> [])) es)"

definition entries_of :: "os \<Rightarrow> path \<Rightarrow> FileEntry list" where
  "entries_of os p = (case fst (read_directory p os) of Ret es \<Rightarrow> es | _ \<Rightarrow> [])"

definition described :: "os \<Rightarrow> HttpRequest \<Rightarrow> path \<Rightarrow> (string \<times> DavResource) list" where
  "described os q p =
     (case resource_at os p of
        None \<Rightarrow> []
      | Some res \<Rightarrow>
          (if req_depth q \<in> {[], ''0'', ''1''} then [(req_path q, res)] else [])
          @ (if req_depth q = ''1'' \<and> get_type res = COLLECTION
             then described_children os (req_path q) (entries_of os p) else []))"

section \<open>Dates need no escaping\<close>

definition calendar :: "os \<Rightarrow> bool" where
  \<comment> \<open>\<open>localtime_s\<close> fills its fields within their ranges\<close>
  "calendar os \<longleftrightarrow> (\<forall>t. tm_wday (local_tm os t) < 7 \<and> tm_mon (local_tm os t) < 12)"

definition plain_text :: "string \<Rightarrow> bool" where
  "plain_text s \<longleftrightarrow> set s \<inter> markup = {} \<and> CHR ''&'' \<notin> set s"

lemma plain_text_simps [simp]:
  "plain_text []" "plain_text (c # s) \<longleftrightarrow> c \<notin> markup \<and> c \<noteq> CHR ''&'' \<and> plain_text s"
  "plain_text (s @ t) \<longleftrightarrow> plain_text s \<and> plain_text t"
  by (auto simp: plain_text_def)

lemma escape_plain [simp]: "plain_text s \<Longrightarrow> escape_xml s = s"
  by (simp add: plain_text_def escape_xml_plain)

lemma plain_dec [simp]: "plain_text (dec n)"
proof -
  have "\<not> is_digit c" if "c \<in> markup \<or> c = CHR ''&''" for c
    using that by (auto simp: markup_def char_class)
  then show ?thesis by (auto simp: plain_text_def dest: dec_digits)
qed

lemma plain_pad [simp]: "plain_text s \<Longrightarrow> plain_text (pad_left (CHR ''0'') n s)"
  by (auto simp: plain_text_def pad_left_def markup_def)

lemma plain_markup [simp]: "c \<notin> {CHR ''<'', CHR ''>'', CHR 0x22, CHR 0x27} \<Longrightarrow> c \<notin> markup"
  by (simp add: markup_def)

lemma plain_names: "d < 7 \<Longrightarrow> plain_text (days ! d)" "m < 12 \<Longrightarrow> plain_text (months ! m)"
proof -
  have "list_all plain_text days" "list_all plain_text months"
    by (simp_all add: days_def months_def)
  then show "d < 7 \<Longrightarrow> plain_text (days ! d)" "m < 12 \<Longrightarrow> plain_text (months ! m)"
    by (simp_all add: list_all_length days_def months_def)
qed

lemma plain_date: "calendar os \<Longrightarrow> plain_text (date_buf os p)"
  by (simp add: date_buf_def getHttpDate_def calendar_def plain_names)

section \<open>The builder renders it\<close>

lemma render_element [simp]:
  "render (element n ks) = ''<D:'' @ n @ ''>'' @ concat (map render ks) @ ''</D:'' @ n @ ''>''"
  "render (text_element n t) = ''<D:'' @ n @ ''>'' @ escape_xml t @ ''</D:'' @ n @ ''>''"
  by (simp_all add: element_def text_element_def)

lemmas builder_defs =
  start_response_def end_response_def start_propstat_def end_propstat_def start_prop_def end_prop_def
  add_status_def add_contentlength_def add_lastmodified_def add_resourcetype_def add_creationdate_def
  add_displayname_def

lemma properties_text:
  "calendar os \<Longrightarrow>
     xml_text (get_properties api os res b) = xml_text b @ concat (map render (property_list api os res))"
  by (cases res) (simp_all add: file_properties_def collection_properties_def builder_defs plain_date escape_char_def)

lemma dec_200: "dec 200 = ''200''"
  by code_simp

lemma response_text:
  assumes "calendar os"
  shows "xml_text (add_response api os href res b) =
    xml_text b @ render (response_element api os (href, res))"
proof -
  have "xml_text (get_properties api os res b') =
      xml_text b' @ concat (map render (property_list api os res))" for b'
    by (rule properties_text [OF assms])
  then show ?thesis
    by (simp add: add_response_def builder_defs response_element_def dav_xmlns_def dec_200 escape_char_def)
qed

lemma create_resource: "create p os = (Ret (resource_at os p), os)"
  by (auto simp: create_def bindE_def getE_def ret_def exists_ec_def fs_is_directory_def or_throw_def
      is_directory_ec_def resource_at_def split: sum.splits)

definition rendered :: "winapi \<Rightarrow> os \<Rightarrow> (string \<times> DavResource) list \<Rightarrow> string" where
  "rendered api os hrs = concat (map (\<lambda>hr. render (response_element api os hr)) hrs)"

lemma rendered_simps [simp]:
  "rendered api os [] = []" "rendered api os (xs @ ys) = rendered api os xs @ rendered api os ys"
  "rendered api os (hr # xs) = render (response_element api os hr) @ rendered api os xs"
  by (simp_all add: rendered_def)

lemma children_text:
  assumes "calendar os"
  shows "\<exists>b. add_children api q es xml os = (Ret b, os)
    \<and> xml_text b = xml_text xml @ rendered api os (described_children os q es)"
proof (induction es arbitrary: xml)
  case Nil
  show ?case by (simp add: ret_def described_children_def)
next
  case (Cons e es)
  show ?case
  proof (cases "filename (fe_path e) \<in> {''.'', ''..''} \<or> resource_at os (fe_path e) = None")
    case True
    then have "add_children api q (e # es) xml os = add_children api q es xml os"
      "described_children os q (e # es) = described_children os q es"
      by (auto simp: bindE_def create_resource described_children_def split: option.splits)
    then show ?thesis using Cons by simp
  next
    case False
    then obtain c where c: "resource_at os (fe_path e) = Some c" and "filename (fe_path e) \<notin> {''.'', ''..''}"
      by blast
    then have "add_children api q (e # es) xml os =
        add_children api q es (add_response api os (child_href q (filename (fe_path e))) c xml) os"
      and "described_children os q (e # es) =
        (child_href q (filename (fe_path e)), c) # described_children os q es"
      by (simp_all add: bindE_def getE_def create_resource described_children_def)
    then show ?thesis
      using Cons [of "add_response api os (child_href q (filename (fe_path e))) c xml"]
        response_text [OF assms] by auto
  qed
qed

definition document :: "winapi \<Rightarrow> os \<Rightarrow> (string \<times> DavResource) list \<Rightarrow> string" where
  "document api os hrs = render (multistatus (map (response_element api os) hrs))"

lemma document_text:
  "document api os hrs =
     xml_text (start_multistatus new_builder) @ rendered api os hrs @ ''</D:multistatus>''"
  by (simp add: document_def multistatus_def dav_xmlns_def start_multistatus_def new_builder_def rendered_def comp_def)

lemma read_collection:
  "resource_at os p = Some res \<Longrightarrow> get_type res = COLLECTION \<Longrightarrow>
     read_directory p os = (Ret (entries_of os p), os)"
  by (auto simp: resource_at_def entries_of_def read_directory_def status_def
      split: sum.splits option.splits if_splits)

lemma propfind_text:
  assumes cal: "calendar os"
  shows "\<exists>b. propfind_xml api q p os = (Ret b, os) \<and> xml_text b = xml_declaration
    @ document api os (described os q p)"
proof -
  let ?x = "start_multistatus (add_declaration new_builder)"
  let ?d = "if req_depth q = [] then ''0'' else req_depth q"
  have begins: "xml_text ?x = xml_declaration @ xml_text (start_multistatus new_builder)"
    by (simp add: start_multistatus_def add_declaration_def new_builder_def xml_declaration_def)
  have ends: "xml_text (end_multistatus y) = xml_text y @ ''</D:multistatus>''" for y
    by (simp add: end_multistatus_def)
  show ?thesis
  proof (cases "resource_at os p")
    case None
    then show ?thesis
      by (simp add: propfind_xml_def Let_def bindE_def create_resource getE_def ret_def
          described_def ends begins document_text)
  next
    case (Some res)
    let ?y = "if ?d = ''0'' \<or> ?d = ''1'' then add_response api os (req_path q) res ?x else ?x"
    have y: "xml_text ?y = xml_text ?x @ rendered api os
        (if req_depth q \<in> {[], ''0'', ''1''} then [(req_path q, res)] else [])"
      by (auto simp: response_text [OF cal])
    show ?thesis
    proof (cases "req_depth q = ''1'' \<and> get_type res = COLLECTION")
      case True
      let ?es = "entries_of os p"
      obtain z where z: "add_children api (req_path q) ?es ?y os = (Ret z, os)"
        "xml_text z = xml_text ?y @ rendered api os (described_children os (req_path q) ?es)"
        using children_text [OF cal] by blast
      have "propfind_xml api q p os = (Ret (end_multistatus z), os)"
        using z(1) True Some read_collection [OF Some]
        by (simp add: propfind_xml_def Let_def bindE_def create_resource getE_def ret_def)
      then show ?thesis
        using z(2) y True Some by (simp add: ends begins document_text described_def)
    next
      case False
      then have "propfind_xml api q p os = (Ret (end_multistatus ?y), os)"
        using Some by (auto simp: propfind_xml_def Let_def bindE_def create_resource getE_def ret_def)
      then show ?thesis
        using y False Some by (auto simp: ends begins document_text described_def)
    qed
  qed
qed

text \<open>
  C5: PROPFIND on a path that exists is always answered 207, changes nothing, and its body is the
  rendering of an abstract document: a multistatus element with one response for each resource
  described, in which every text is escaped and every element is closed.
\<close>

theorem propfind_refines:
  assumes "reaches w (req_path q) p" and "calendar (dh_os w)"
  shows "\<exists>r. process_propfind env q w = (Ret r, w) \<and> resp_status_code r = 207
    \<and> resp_body r = xml_declaration @ render (multistatus
        (map (response_element (de_api env) (dh_os w)) (described (dh_os w) q p)))"
proof -
  obtain b where b: "propfind_xml (de_api env) q p (dh_os w) = (Ret b, dh_os w)"
    and t: "xml_text b = xml_declaration @ render (multistatus
        (map (response_element (de_api env) (dh_os w)) (described (dh_os w) q p)))"
    using propfind_text [OF assms(2)] unfolding document_def by blast
  let ?r = "with_text ''text/xml; charset=utf-8'' (fst (build b)) (answer 207 ''Multi-Status'')"
  have "process_propfind env q w = (Ret ?r, w)"
    using assms(1) target_reaches [OF assms(1)] b
    by (simp add: process_propfind_def bindE_def on_fs_def ret_def reaches_def)
  moreover have "resp_body (with_text u s v) = s" "resp_status_code (with_text u s v) = resp_status_code v" for u s v
    by (simp_all add: with_text_def with_headers_def set_header_def)
  ultimately show ?thesis using t by (simp add: build_def answer_def)
qed

definition list_request :: HttpRequest where
  "list_request = (sample_request PROPFIND ''/'')\<lparr>req_depth := ''1''\<rparr>"

lemma sample_described:
  "map fst (described sample_os list_request (''D:'' @ [BSL] @ ''ftp'')) = [''/'', ''/a.txt'', ''/sub'']"
  by code_simp

lemma propfind_refines_witness:
  "\<exists>r hrs. fst (process_propfind sample_env list_request sample_handler) = Ret r
    \<and> map fst hrs = [''/'', ''/a.txt'', ''/sub'']
    \<and> resp_body r = xml_declaration @ render (multistatus (map (response_element latin_api sample_os) hrs))"
proof -
  have r: "reaches sample_handler (req_path list_request) (''D:'' @ [BSL] @ ''ftp'')" by code_simp
  have os: "dh_os sample_handler = sample_os" and api: "de_api sample_env = latin_api"
    by (simp_all add: sample_handler_def new_handler_def sample_env_def)
  have "calendar (dh_os sample_handler)" by (simp add: calendar_def os sample_os_def)
  from propfind_refines [OF r this, of sample_env, unfolded os api] show ?thesis
    using sample_described by (metis fst_conv)
qed

end
