(* ===== verification/Transfers.thy ===== *)
theory Transfers
  imports FtpConfine
begin

text \<open>
  The commands that open a data connection (LIST, NLST, RETR, STOR), cut where the coroutine waits
  for the network: after the connection is there, after each block sent to it and after each block
  received from it. In between, no other session of the context runs. \<open>execute_list\<close>, \<open>execute_retr\<close>
  and \<open>execute_stor\<close> of \<open>FtpSession\<close> are these pieces run in a row.
\<close>

section \<open>Pieces of a transfer\<close>

datatype transfer_kind = Listing bool | Download | Upload

datatype phase =
    Connected transfer_kind string
  | Sending AsyncFileBuffered nat
  | Receiving AsyncFileBuffered nat

text \<open>What a piece leaves: the coroutine waits in a phase, or the handler has a result.\<close>

datatype progress =
    Waits phase sock FTPSession
  | Finished "unit outcome" FTPSession

definition opening_text :: "transfer_kind \<Rightarrow> string" where
  "opening_text tr =
     (case tr of
        Listing d \<Rightarrow> ''Opening ASCII mode data connection for file list''
      | Download \<Rightarrow> ''Opening BINARY mode data connection for file transfer''
      | Upload \<Rightarrow> ''Opening BINARY mode data connection for file upload'')"

definition open_transfer :: "winapi \<Rightarrow> transfer_kind \<Rightarrow> (FTPSession, sock) eff" where
  "open_transfer api tr =
     bindE (send_response api DataConnectionOpen (opening_text tr)) (\<lambda>_. establish_data_connection)"

definition open_download :: "FTPSessionState \<Rightarrow> string \<Rightarrow> (os \<times> sock, AsyncFileBuffered option) eff" where
  "open_download st name =
     bindE (getE (\<lambda>s. resolve (fst s) (st_current_directory st) (st_root_directory st) name)) (\<lambda>full_path.
     bindE (if full_path = [] then ret False else on_disk (fs_exists full_path)) (\<lambda>there.
     if \<not> there then ret None
     else bindE (on_disk (new_AsyncFileBuffered full_path)) (\<lambda>f. ret (Some f))))"

definition open_upload :: "FTPSessionState \<Rightarrow> string \<Rightarrow> (os \<times> sock, AsyncFileBuffered option) eff" where
  "open_upload st name =
     bindE (getE (\<lambda>s. resolve (fst s) (st_current_directory st) (st_root_directory st) name)) (\<lambda>full_path.
     if full_path = [] then ret None
     else bindE (on_disk (new_AsyncFileBuffered full_path)) (\<lambda>f. ret (Some f)))"

text \<open>One round of the loops of \<open>send_file\<close> and \<open>receive_file\<close>: the next position, or the total.\<close>

definition send_block :: "AsyncFileBuffered \<Rightarrow> nat \<Rightarrow> (os \<times> sock, (AsyncFileBuffered \<times> nat) + nat) eff" where
  "send_block f total_sent s =
     (case s of
        (os, k) \<Rightarrow>
          if total_sent < SIZE_MAX
          then case af_read (min BUFFER_SIZE (SIZE_MAX - total_sent)) f os of
                 (bs, f') \<Rightarrow>
                   if bs = [] then (Ret (Inr total_sent), os, k)
                   else (case send_chunk bs k of
                           (Ret _, k') \<Rightarrow> (Ret (Inl (f', total_sent + length bs)), os, k')
                         | (Exn e, k') \<Rightarrow> (Exn e, os, k')
                         | (Hang, k') \<Rightarrow> (Hang, os, k'))
          else (Ret (Inr total_sent), os, k))"

definition receive_block :: "AsyncFileBuffered \<Rightarrow> nat \<Rightarrow> (os \<times> sock, (AsyncFileBuffered \<times> nat) + nat) eff" where
  "receive_block f total_received s =
     (case s of
        (os, k) \<Rightarrow>
          if total_received < SIZE_MAX
          then case read_some BUFFER_SIZE k of
                 (Ret bs, k') \<Rightarrow>
                   if bs = [] then (Ret (Inr total_received), os, k')
                   else (case af_write bs f os of
                           (n, f', os') \<Rightarrow> (Ret (Inl (f', total_received + n)), os', k'))
               | (Exn e, k') \<Rightarrow> (Exn e, os, k')
               | (Hang, k') \<Rightarrow> (Hang, os, k')
          else (Ret (Inr total_received), os, k))"

section \<open>A command in pieces\<close>

text \<open>The reply at the end of a command: an exception of its handler has become a 550.\<close>

definition send_answer :: "winapi \<Rightarrow> reply \<Rightarrow> (FTPSession, unit) eff" where
  "send_answer api r =
     (case r of
        (code, message) \<Rightarrow>
          bindE (send_response api code message) (\<lambda>_.
          if response_code code = response_code ServiceClosingControl
          then modE (\<lambda>w. w\<lparr>fs_active := False\<rparr>)
          else ret ()))"

definition finished :: "winapi \<Rightarrow> (FTPSession, reply) eff \<Rightarrow> FTPSession \<Rightarrow> progress" where
  "finished api m w = (case bindE (caught m) (send_answer api) w of (r, w') \<Rightarrow> Finished r w')"

text \<open>
  A piece with the data socket: where it does not go on, the socket is closed and the handler goes on
  to its reply.
\<close>

definition piece ::
    "winapi \<Rightarrow> ('a \<Rightarrow> phase + (FTPSession, reply) eff) \<Rightarrow> sock \<Rightarrow> (os \<times> sock, 'a) eff \<Rightarrow> FTPSession \<Rightarrow> progress" where
  "piece api nx k m w =
     (case m (fs_os w, k) of
        (Ret x, os, k') \<Rightarrow>
          (case nx x of
             Inl ph \<Rightarrow> Waits ph k' (w\<lparr>fs_os := os\<rparr>)
           | Inr h \<Rightarrow> finished api h (close_data k' (w\<lparr>fs_os := os\<rparr>)))
      | (Exn e, os, k') \<Rightarrow> finished api (raise e) (close_data k' (w\<lparr>fs_os := os\<rparr>))
      | (Hang, os, k') \<Rightarrow> Finished Hang (close_data k' (w\<lparr>fs_os := os\<rparr>)))"

definition completed :: "nat \<Rightarrow> (FTPSession, reply) eff" where
  "completed bytes =
     bindE (on_state (count_bytes bytes)) (\<lambda>_. ret (FileActionCompleted, transfer_complete bytes))"

fun opened :: "string \<Rightarrow> (AsyncFileBuffered \<Rightarrow> phase) \<Rightarrow> AsyncFileBuffered option \<Rightarrow> phase + (FTPSession, reply) eff" where
  "opened missing begins None = Inr (ret (FileUnavailable, missing))"
| "opened missing begins (Some f) = Inl (begins f)"

fun block_done :: "(AsyncFileBuffered \<Rightarrow> nat \<Rightarrow> phase) \<Rightarrow> (AsyncFileBuffered \<times> nat) + nat \<Rightarrow> phase + (FTPSession, reply) eff" where
  "block_done ph (Inl (f, n)) = Inl (ph f n)"
| "block_done ph (Inr n) = Inr (completed n)"

fun transfer_turn :: "winapi \<Rightarrow> phase \<Rightarrow> sock \<Rightarrow> FTPSession \<Rightarrow> progress" where
  "transfer_turn api (Connected (Listing d) arg) k w =
     piece api (\<lambda>r. Inr (ret r)) k (list_body api (fs_state w) arg d) w"
| "transfer_turn api (Connected Download arg) k w =
     piece api (opened ''File not found'' (\<lambda>f. Sending f 0)) k (open_download (fs_state w) arg) w"
| "transfer_turn api (Connected Upload arg) k w =
     piece api (opened ''Invalid path'' (\<lambda>f. Receiving f 0)) k (open_upload (fs_state w) arg) w"
| "transfer_turn api (Sending f n) k w = piece api (block_done Sending) k (send_block f n) w"
| "transfer_turn api (Receiving f n) k w = piece api (block_done Receiving) k (receive_block f n) w"

text \<open>Which lines open a data connection for the session as it is.\<close>

definition transfer_of :: "string \<Rightarrow> string \<Rightarrow> transfer_kind option" where
  "transfer_of command argument =
     (if command = ''LIST'' then Some (Listing True)
      else if command = ''NLST'' then Some (Listing False)
      else if command = ''RETR'' \<and> argument \<noteq> [] then Some Download
      else if command = ''STOR'' \<and> argument \<noteq> [] then Some Upload
      else None)"

definition transfer_request :: "winapi \<Rightarrow> string \<Rightarrow> FTPSession \<Rightarrow> (transfer_kind \<times> string) option" where
  "transfer_request api line w =
     (case encode_narrow api Char_t Char8_t line of
        Ret localstr \<Rightarrow>
          let trimmed = trim_command localstr;
              parts = parseCmd trimmed (CHR '' '');
              command = (if parts = [] then [] else to_Upper (parts ! 0));
              argument = (if 1 < length parts then parts ! 1 else [])
          in if line = [] \<or> trimmed = [] \<or> \<not> st_authenticated (fs_state w) then None
             else map_option (\<lambda>tr. (tr, argument)) (transfer_of command argument)
      | _ \<Rightarrow> None)"

text \<open>
  The first piece of a turn of the session: a line is read, and the command done, unless it opens a
  data connection and waits on it.
\<close>

definition command_turn :: "winapi \<Rightarrow> FTPSession \<Rightarrow> progress" where
  "command_turn api w =
     (case read_command w of
        (Ret line, w1) \<Rightarrow>
          (case transfer_request api line w1 of
             Some (tr, arg) \<Rightarrow>
               (case open_transfer api tr w1 of
                  (Ret k, w2) \<Rightarrow> Waits (Connected tr arg) k w2
                | (Exn e, w2) \<Rightarrow> finished api (raise e) w2
                | (Hang, w2) \<Rightarrow> Finished Hang w2)
           | None \<Rightarrow>
               (case (if line = [] then ret () else bindE (process_command api line) (send_answer api)) w1 of
                  (r, w2) \<Rightarrow> Finished r w2))
      | (Exn e, w1) \<Rightarrow> Finished (Exn e) w1
      | (Hang, w1) \<Rightarrow> Finished Hang w1)"

section \<open>Pieces run in a row\<close>

fun rank :: "phase \<Rightarrow> nat" where
  "rank (Connected tr arg) = 1"
| "rank (Sending f n) = 0"
| "rank (Receiving f n) = 0"

fun unsent :: "phase \<Rightarrow> nat" where
  "unsent (Sending f n) = SIZE_MAX - n"
| "unsent ph = 0"

definition phase_order :: "((phase \<times> sock) \<times> (phase \<times> sock)) set" where
  "phase_order = measures [rank \<circ> fst, unsent \<circ> fst, pending \<circ> snd]"

lemma wf_phase_order: "wf phase_order"
  by (simp add: phase_order_def)

lemma finished_waits [simp]: "finished api m w \<noteq> Waits ph k w'"
  by (simp add: finished_def split: prod.splits)

lemma piece_waits:
  assumes "piece api nx k m w = Waits ph k' w'"
  obtains x os where "m (fs_os w, k) = (Ret x, os, k')" "nx x = Inl ph" "w' = w\<lparr>fs_os := os\<rparr>"
  using assms by (auto simp: piece_def split: prod.splits outcome.splits sum.splits)

lemma send_block_next:
  "send_block f n (os, k) = (Ret (Inl (f', n')), os', k') \<Longrightarrow> n < n' \<and> n < SIZE_MAX"
  by (auto simp: send_block_def split: prod.splits outcome.splits if_splits)

lemma receive_block_next:
  "receive_block f n (os, k) = (Ret (Inl (f', n')), os', k') \<Longrightarrow> pending k' < pending k"
  by (auto simp: receive_block_def BUFFER_SIZE_def dest: read_some_pending split: prod.splits outcome.splits if_splits)

lemma transfer_turn_falls:
  assumes "transfer_turn api ph k w = Waits ph' k' w'"
  shows "((ph', k'), (ph, k)) \<in> phase_order"
proof (cases ph)
  case (Connected tr arg)
  then have "rank ph' < rank ph"
    using assms by (cases tr) (auto elim!: piece_waits elim: opened.elims)
  then show ?thesis by (simp add: phase_order_def)
next
  case (Sending f n)
  then show ?thesis
    using assms by (auto simp: phase_order_def elim!: piece_waits block_done.elims dest: send_block_next)
next
  case (Receiving f n)
  then show ?thesis
    using assms by (auto simp: phase_order_def elim!: piece_waits block_done.elims dest: receive_block_next)
qed

fun progress_key :: "progress \<Rightarrow> (phase \<times> sock) option" where
  "progress_key (Waits ph k w) = Some (ph, k)"
| "progress_key (Finished r w) = None"

function resume :: "winapi \<Rightarrow> progress \<Rightarrow> unit outcome \<times> FTPSession" where
  "resume api (Finished r w) = (r, w)"
| "resume api (Waits ph k w) = resume api (transfer_turn api ph k w)"
  by pat_completeness auto
termination
proof (relation "inv_image (measures [\<lambda>q. (case q of None \<Rightarrow> 0 | Some x \<Rightarrow> Suc (rank (fst x))),
    \<lambda>q. (case q of None \<Rightarrow> 0 | Some x \<Rightarrow> unsent (fst x)),
    \<lambda>q. (case q of None \<Rightarrow> 0 | Some x \<Rightarrow> pending (snd x))]) (\<lambda>(api, p). progress_key p)")
  fix api ph k w
  show "((api, transfer_turn api ph k w), (api, Waits ph k w)) \<in> inv_image (measures [\<lambda>q. (case q of None \<Rightarrow> 0 | Some x \<Rightarrow> Suc (rank (fst x))),
    \<lambda>q. (case q of None \<Rightarrow> 0 | Some x \<Rightarrow> unsent (fst x)),
    \<lambda>q. (case q of None \<Rightarrow> 0 | Some x \<Rightarrow> pending (snd x))]) (\<lambda>(api, p). progress_key p)"
    using transfer_turn_falls [of api ph k w]
    by (cases "transfer_turn api ph k w") (auto simp: phase_order_def)
qed simp

abbreviation to_reply :: "winapi \<Rightarrow> (FTPSession, reply) eff \<Rightarrow> (FTPSession, unit) eff" where
  "to_reply api m \<equiv> bindE (caught m) (send_answer api)"

lemma resume_finished [simp]: "resume api (finished api m w) = to_reply api m w"
  by (simp add: finished_def split: prod.splits)

lemma to_reply_bind:
  "to_reply api (bindE m g) w =
     (case m w of (Ret x, w') \<Rightarrow> to_reply api (g x) w' | (Exn e, w') \<Rightarrow> to_reply api (raise e) w' | (Hang, w') \<Rightarrow> (Hang, w'))"
  by (simp add: bindE_def caught_def tryE_def raise_def split: prod.splits outcome.splits)

lemma resume_piece:
  "resume api (piece api nx k m w) =
     (case m (fs_os w, k) of
        (Ret x, os, k') \<Rightarrow>
          (case nx x of
             Inl ph \<Rightarrow> resume api (Waits ph k' (w\<lparr>fs_os := os\<rparr>))
           | Inr h \<Rightarrow> to_reply api h (close_data k' (w\<lparr>fs_os := os\<rparr>)))
      | (Exn e, os, k') \<Rightarrow> to_reply api (raise e) (close_data k' (w\<lparr>fs_os := os\<rparr>))
      | (Hang, os, k') \<Rightarrow> (Hang, close_data k' (w\<lparr>fs_os := os\<rparr>)))"
  by (simp add: piece_def split: prod.splits outcome.splits sum.splits del: resume.simps(2))

lemma send_loop_block:
  "send_loop f n SIZE_MAX s =
     (case send_block f n s of
        (Ret (Inl (f', n')), s') \<Rightarrow> send_loop f' n' SIZE_MAX s'
      | (Ret (Inr t), s') \<Rightarrow> (Ret t, s') | (Exn e, s') \<Rightarrow> (Exn e, s') | (Hang, s') \<Rightarrow> (Hang, s'))"
proof (cases "n < SIZE_MAX")
  case True
  then show ?thesis
    by (cases s, simp add: send_block_def, subst send_loop.simps) (simp split: prod.splits outcome.splits)
qed (cases s, simp add: send_block_def send_loop.simps)

lemma receive_loop_block:
  "receive_loop f n SIZE_MAX s =
     (case receive_block f n s of
        (Ret (Inl (f', n')), s') \<Rightarrow> receive_loop f' n' SIZE_MAX s'
      | (Ret (Inr t), s') \<Rightarrow> (Ret t, s') | (Exn e, s') \<Rightarrow> (Exn e, s') | (Hang, s') \<Rightarrow> (Hang, s'))"
proof (cases "n < SIZE_MAX")
  case True
  then show ?thesis
    by (cases s, simp add: receive_block_def, subst receive_loop.simps) (simp split: prod.splits outcome.splits)
qed (cases s, simp add: receive_block_def receive_loop.simps)

text \<open>The rest of a transfer, from a phase on, is the rest of the loop and the reply.\<close>

fun rest :: "winapi \<Rightarrow> phase \<Rightarrow> sock \<Rightarrow> (FTPSession, unit) eff" where
  "rest api (Sending f n) k = to_reply api (bindE (with_data k (send_loop f n SIZE_MAX)) completed)"
| "rest api (Receiving f n) k = to_reply api (bindE (with_data k (receive_loop f n SIZE_MAX)) completed)"
| "rest api (Connected tr arg) k = ret ()"

lemma rest_Sending:
  "rest api (Sending f n) k w =
     (case send_block f n (fs_os w, k) of
        (Ret (Inl (f', n')), os, k') \<Rightarrow> rest api (Sending f' n') k' (w\<lparr>fs_os := os\<rparr>)
      | (Ret (Inr t), os, k') \<Rightarrow> to_reply api (completed t) (close_data k' (w\<lparr>fs_os := os\<rparr>))
      | (Exn e, os, k') \<Rightarrow> to_reply api (raise e) (close_data k' (w\<lparr>fs_os := os\<rparr>))
      | (Hang, os, k') \<Rightarrow> (Hang, close_data k' (w\<lparr>fs_os := os\<rparr>)))"
  unfolding rest.simps to_reply_bind with_data_def send_loop_block [of f n "(fs_os w, k)"]
  by (simp split: prod.splits outcome.splits sum.splits)

lemma rest_Receiving:
  "rest api (Receiving f n) k w =
     (case receive_block f n (fs_os w, k) of
        (Ret (Inl (f', n')), os, k') \<Rightarrow> rest api (Receiving f' n') k' (w\<lparr>fs_os := os\<rparr>)
      | (Ret (Inr t), os, k') \<Rightarrow> to_reply api (completed t) (close_data k' (w\<lparr>fs_os := os\<rparr>))
      | (Exn e, os, k') \<Rightarrow> to_reply api (raise e) (close_data k' (w\<lparr>fs_os := os\<rparr>))
      | (Hang, os, k') \<Rightarrow> (Hang, close_data k' (w\<lparr>fs_os := os\<rparr>)))"
  unfolding rest.simps to_reply_bind with_data_def receive_loop_block [of f n "(fs_os w, k)"]
  by (simp split: prod.splits outcome.splits sum.splits)

lemma round_cases:
  fixes r :: "(('a \<times> 'b) + 'c) outcome"
  obtains (more) f n where "r = Ret (Inl (f, n))" | (total) n where "r = Ret (Inr n)"
  | (throws) e where "r = Exn e" | (hangs) "r = Hang"
  by (metis outcome.exhaust sum.exhaust prod.exhaust)

lemma resume_loop: "rank ph = 0 \<Longrightarrow> resume api (Waits ph k w) = rest api ph k w"
proof (induction "(ph, k)" arbitrary: ph k w rule: wf_induct_rule [OF wf_phase_order])
  case 1
  have ih: "resume api (Waits ph' k' w') = rest api ph' k' w'"
    if "transfer_turn api ph k w = Waits ph' k' w'" "rank ph' = 0" for ph' k' w'
    by (rule 1(1) [OF transfer_turn_falls [OF that(1)] that(2)])
  show ?case
  proof (cases ph)
    case (Sending f n)
    obtain r os k1 where b: "send_block f n (fs_os w, k) = (r, os, k1)" by (cases "send_block f n (fs_os w, k)")
    have "resume api (Waits (Sending f' n') k1 (w\<lparr>fs_os := os\<rparr>)) = rest api (Sending f' n') k1 (w\<lparr>fs_os := os\<rparr>)"
      if "r = Ret (Inl (f', n'))" for f' n'
      by (rule ih) (use that Sending b in \<open>simp_all add: piece_def\<close>)
    then show ?thesis
      unfolding Sending
      by (subst resume.simps(2), subst rest_Sending, cases r rule: round_cases)
         (simp_all only: transfer_turn.simps resume_piece b block_done.simps prod.case outcome.case sum.case)
  next
    case (Receiving f n)
    obtain r os k1 where b: "receive_block f n (fs_os w, k) = (r, os, k1)" by (cases "receive_block f n (fs_os w, k)")
    have "resume api (Waits (Receiving f' n') k1 (w\<lparr>fs_os := os\<rparr>)) = rest api (Receiving f' n') k1 (w\<lparr>fs_os := os\<rparr>)"
      if "r = Ret (Inl (f', n'))" for f' n'
      by (rule ih) (use that Receiving b in \<open>simp_all add: piece_def\<close>)
    then show ?thesis
      unfolding Receiving
      by (subst resume.simps(2), subst rest_Receiving, cases r rule: round_cases)
         (simp_all only: transfer_turn.simps resume_piece b block_done.simps prod.case outcome.case sum.case)
  qed (use 1(2) in simp)
qed

section \<open>The pieces are the command\<close>

fun execute :: "winapi \<Rightarrow> transfer_kind \<Rightarrow> string \<Rightarrow> (FTPSession, reply) eff" where
  "execute api (Listing d) arg = execute_list api arg d"
| "execute api Download arg = execute_retr api arg"
| "execute api Upload arg = execute_stor api arg"

fun after_open :: "winapi \<Rightarrow> transfer_kind \<Rightarrow> string \<Rightarrow> sock \<Rightarrow> (FTPSession, reply) eff" where
  "after_open api (Listing d) arg k = bindE (getE fs_state) (\<lambda>st. with_data k (list_body api st arg d))"
| "after_open api Download arg k =
     bindE (getE fs_state) (\<lambda>st.
     bindE (with_data k (retr_body st arg)) (\<lambda>r.
     case r of None \<Rightarrow> ret (FileUnavailable, ''File not found'') | Some bytes \<Rightarrow> completed bytes))"
| "after_open api Upload arg k =
     bindE (getE fs_state) (\<lambda>st.
     bindE (with_data k (stor_body st arg)) (\<lambda>r.
     case r of None \<Rightarrow> ret (FileUnavailable, ''Invalid path'') | Some bytes \<Rightarrow> completed bytes))"

lemma bindE_assoc: "bindE (bindE m f) g = bindE m (\<lambda>x. bindE (f x) g)"
  by (rule ext) (simp add: bindE_def split: prod.splits outcome.splits)

lemma bindE_ret: "bindE (ret x) f = f x"
  by (rule ext) (simp add: bindE_def ret_def)

lemma execute_open: "execute api tr arg = bindE (open_transfer api tr) (after_open api tr arg)"
  by (rule ext, cases tr;
      simp add: execute_list_def execute_retr_def execute_stor_def open_transfer_def opening_text_def
        bindE_assoc; simp add: bindE_def completed_def split: prod.splits outcome.splits option.splits)

lemma retr_body_pieces:
  "retr_body st name = bindE (open_download st name) (\<lambda>r. case r of
     None \<Rightarrow> ret None | Some f \<Rightarrow> bindE (send_loop f 0 SIZE_MAX) (\<lambda>n. ret (Some n)))"
  unfolding retr_body_def open_download_def bindE_assoc
  by (intro arg_cong2 [where f = bindE] refl ext)
     (simp add: bindE_def ret_def send_file_def seek_if_def liftE_def split: prod.splits outcome.splits)

lemma stor_body_pieces:
  "stor_body st name = bindE (open_upload st name) (\<lambda>r. case r of
     None \<Rightarrow> ret None | Some f \<Rightarrow> bindE (receive_loop f 0 SIZE_MAX) (\<lambda>n. ret (Some n)))"
  unfolding stor_body_def open_upload_def bindE_assoc
  by (intro arg_cong2 [where f = bindE] refl ext)
     (simp add: bindE_def ret_def receive_file_def seek_if_def liftE_def split: prod.splits outcome.splits)

lemma resume_connected: "resume api (Waits (Connected tr arg) k w) = to_reply api (after_open api tr arg k) w"
proof -
  note fin = bindE_def caught_def tryE_def ret_def raise_def getE_def
  show ?thesis
  proof (cases tr)
    case (Listing d)
    then show ?thesis
      by (subst resume.simps(2))
         (simp add: resume_piece with_data_def fin split: prod.splits outcome.splits)
  next
    case Download
    obtain r os k1 where b: "open_download (fs_state w) arg (fs_os w, k) = (r, os, k1)"
      by (cases "open_download (fs_state w) arg (fs_os w, k)")
    have l: "resume api (Waits (Sending f 0) k1 w') = rest api (Sending f 0) k1 w'" for f w'
      by (rule resume_loop) simp
    show ?thesis
      unfolding Download
      by (subst resume.simps(2), subst transfer_turn.simps, subst resume_piece)
         (auto simp: b l retr_body_pieces with_data_def fin simp del: resume.simps(2)
            split: prod.splits outcome.splits option.splits)
  next
    case Upload
    obtain r os k1 where b: "open_upload (fs_state w) arg (fs_os w, k) = (r, os, k1)"
      by (cases "open_upload (fs_state w) arg (fs_os w, k)")
    have l: "resume api (Waits (Receiving f 0) k1 w') = rest api (Receiving f 0) k1 w'" for f w'
      by (rule resume_loop) simp
    show ?thesis
      unfolding Upload
      by (subst resume.simps(2), subst transfer_turn.simps, subst resume_piece)
         (auto simp: b l stor_body_pieces with_data_def fin simp del: resume.simps(2)
            split: prod.splits outcome.splits option.splits)
  qed
qed

lemma transfer_request_execute:
  assumes "transfer_request api line w = Some (tr, arg)"
  shows "line \<noteq> []" and "process_command api line w = caught (execute api tr arg) w"
proof -
  obtain s where s: "encode_narrow api Char_t Char8_t line = Ret s"
    using assms by (auto simp: transfer_request_def split: outcome.splits)
  let ?parts = "parseCmd (trim_command s) (CHR '' '')"
  let ?c = "if ?parts = [] then [] else to_Upper (?parts ! 0)"
  have l: "line \<noteq> []" "trim_command s \<noteq> []" "st_authenticated (fs_state w)"
    and a: "arg = (if 1 < length ?parts then ?parts ! 1 else [])" and t: "transfer_of ?c arg = Some tr"
    using assms s by (auto simp: transfer_request_def Let_def split: if_splits)
  have "\<exists>h. map_of handlers ?c = Some h \<and> h api arg w = execute api tr arg w"
    using t l(3) by (auto simp: transfer_of_def handlers_def handle_list_def handle_nlst_def handle_retr_def
        handle_stor_def need_login_def bindE_def getE_def split: if_splits)
  then show "line \<noteq> []" and "process_command api line w = caught (execute api tr arg) w"
    using l a s by (auto simp: process_command_def bindE_def liftE_def Let_def caught_def tryE_def)
qed

lemma pieces_run: "resume api (command_turn api w) = process_one_command api w"
proof -
  obtain r w1 where rd: "read_command w = (r, w1)" by (cases "read_command w")
  have one: "process_one_command api = bindE read_command (\<lambda>line. if line = [] then ret ()
      else bindE (process_command api line) (send_answer api))"
    unfolding process_one_command_def send_answer_def by (simp add: case_prod_unfold)
  show ?thesis
  proof (cases r)
    case (Ret line)
    show ?thesis
    proof (cases "transfer_request api line w1")
      case None
      then show ?thesis
        using rd Ret by (simp add: one command_turn_def bindE_Ret split: prod.splits)
    next
      case (Some x)
      obtain tr arg where x: "x = (tr, arg)" by (cases x)
      note e = transfer_request_execute [OF Some [unfolded x]]
      obtain a w2 where o: "open_transfer api tr w1 = (a, w2)" by (cases "open_transfer api tr w1")
      have "process_one_command api w = to_reply api (execute api tr arg) w1"
        using rd Ret e by (simp add: one bindE_def)
      also have "\<dots> = (case (a, w2) of (Ret k, w') \<Rightarrow> to_reply api (after_open api tr arg k) w'
          | (Exn e, w') \<Rightarrow> to_reply api (raise e) w' | (Hang, w') \<Rightarrow> (Hang, w'))"
        unfolding execute_open to_reply_bind o ..
      also have "\<dots> = resume api (command_turn api w)"
        using rd Ret Some x o by (cases a) (simp_all add: command_turn_def resume_connected del: resume.simps(2))
      finally show ?thesis ..
    qed
  qed (use rd in \<open>simp_all add: one command_turn_def bindE_def\<close>)
qed

text \<open>
  C11: A command cut at the points where it waits for the network is the whole command: the pieces of
  LIST, NLST, RETR and STOR, run one after another from the line to the reply, leave the session, its
  sockets and the file system as \<open>process_one_command\<close> does, with the same outcome.
\<close>

theorem pieces_are_command: "resume api (command_turn api w) = process_one_command api w"
  by (rule pieces_run)

section \<open>What a piece does to the file system\<close>

text \<open>The file a transfer has open lies in the region.\<close>

definition open_in :: "loc \<Rightarrow> AsyncFileBuffered \<Rightarrow> bool" where
  "open_in r f \<longleftrightarrow> (\<exists>l. nt_fp (af_rawfile f) = Some l \<and> region r l)"

fun phase_inv :: "loc \<Rightarrow> phase \<Rightarrow> bool" where
  "phase_inv r (Receiving f n) \<longleftrightarrow> open_in r f"
| "phase_inv r (Sending f n) \<longleftrightarrow> open_in r f"
| "phase_inv r (Connected tr arg) \<longleftrightarrow> True"

fun progress_inv :: "loc \<Rightarrow> os \<Rightarrow> progress \<Rightarrow> bool" where
  "progress_inv r os0 (Waits ph k w) \<longleftrightarrow> session_inv r os0 w \<and> phase_inv r ph"
| "progress_inv r os0 (Finished x w) \<longleftrightarrow> session_inv r os0 w"

lemma hoare_answer: "hoare (session_inv r os0) P (send_answer api x) (\<lambda>_ _. True)"
  by (cases x) (simp add: send_answer_def hoare_bindE [OF hoare_send] hoare_quit hoare_done)

lemma finished_inv:
  assumes "hoare (session_inv r os0) (\<lambda>_. True) m (\<lambda>_ _. True)" and "session_inv r os0 w"
  shows "progress_inv r os0 (finished api m w)"
proof -
  have "hoare (session_inv r os0) (\<lambda>_. True) (to_reply api m) (\<lambda>_ _. True)"
    unfolding caught_def by (rule hoare_bindE [OF hoare_tryE [OF assms(1) hoare_done] hoare_answer])
  then have "session_inv r os0 (snd (to_reply api m w))"
    using hoareD assms(2) by metis
  then show ?thesis by (simp add: finished_def case_prod_unfold)
qed

lemma close_data_inv: "session_inv r os0 (close_data k w) = session_inv r os0 w"
  by (simp add: close_data_def Let_def)

lemma piece_inv:
  assumes "session_inv r os0 w" and "m (fs_os w, k) = (x, os, k')" and "confined r (fs_os w) os"
    and "\<And>y ph. x = Ret y \<Longrightarrow> nx y = Inl ph \<Longrightarrow> phase_inv r ph"
    and "\<And>y h. x = Ret y \<Longrightarrow> nx y = Inr h \<Longrightarrow> hoare (session_inv r os0) (\<lambda>_. True) h (\<lambda>_ _. True)"
  shows "progress_inv r os0 (piece api nx k m w)"
proof -
  have i: "session_inv r os0 (w\<lparr>fs_os := os\<rparr>)" using inv_os_step [OF assms(1,3)] .
  then have c: "session_inv r os0 (close_data k' (w\<lparr>fs_os := os\<rparr>))" by (simp add: close_data_inv)
  show ?thesis
    using assms(2,4,5) i c
    by (auto simp: piece_def intro!: finished_inv hoare_raise split: outcome.splits sum.splits)
qed

lemma completed_hoare: "hoare (session_inv r os0) P (completed n) (\<lambda>_ _. True)"
  by (auto simp: completed_def count_bytes_def intro!: hoare_done hoare_bindE [OF hoare_state])

lemma opened_region:
  assumes i: "session_inv r os0 w" and o: "new_AsyncFileBuffered p (fs_os w) = (y, os)"
    and p: "p = resolve (fs_os w) (st_current_directory (fs_state w)) (st_root_directory (fs_state w)) name" "p \<noteq> []"
  shows "os = fs_os w" and "y = Ret f \<Longrightarrow> open_in r f"
proof -
  have "region r l" if "follow (fs_os w) p = Inr l" for l
    using resolve_good [OF i p(1) [symmetric] p(2)] follow_solid [OF inv_wf [OF i]] that by (auto simp: good_def)
  then show "os = fs_os w" and "y = Ret f \<Longrightarrow> open_in r f"
    using new_buffered_fp [OF o] unfolding open_in_def by blast+
qed

lemma open_upload_result:
  assumes i: "session_inv r os0 w" and u: "open_upload (fs_state w) name (fs_os w, k) = (x, os, k')"
  shows "os = fs_os w" and "x = Ret (Some f) \<Longrightarrow> open_in r f"
proof -
  let ?p = "resolve (fs_os w) (st_current_directory (fs_state w)) (st_root_directory (fs_state w)) name"
  obtain y os1 where n: "new_AsyncFileBuffered ?p (fs_os w) = (y, os1)" by (cases "new_AsyncFileBuffered ?p (fs_os w)")
  show "os = fs_os w" and "x = Ret (Some f) \<Longrightarrow> open_in r f"
    using u n opened_region [OF i n refl]
    by (cases "?p = []"; cases y; force simp: open_upload_def bindE_def getE_def ret_def on_disk_def)+
qed

lemma same_os_open_download: "preserves same_os (open_download st name)"
  unfolding open_download_def
  by (intro same_os_bindE same_os_basic)
     (simp_all add: same_os_basic same_os_disk same_os_bindE reads_buffered reads_queries)

lemma open_download_result:
  assumes i: "session_inv r os0 w" and u: "open_download (fs_state w) name (fs_os w, k) = (x, os, k')"
  shows "os = fs_os w" and "x = Ret (Some f) \<Longrightarrow> open_in r f"
proof -
  define p where "p = resolve (fs_os w) (st_current_directory (fs_state w)) (st_root_directory (fs_state w)) name"
  obtain y os1 where n: "new_AsyncFileBuffered p (fs_os w) = (y, os1)" by (cases "new_AsyncFileBuffered p (fs_os w)")
  obtain z os2 where e: "fs_exists p (fs_os w) = (z, os2)" by (cases "fs_exists p (fs_os w)")
  have e2: "os2 = fs_os w" by (rule readsD [where m = "fs_exists p", OF reads_queries(1) e])
  show "os = fs_os w"
    using preservesD [OF same_os_open_download, of "(fs_os w, k)" "fs_state w" name] u by (simp add: same_os_def)
  have d: "on_disk (fs_exists p) (fs_os w, k) = (z, fs_os w, k)"
    "on_disk (new_AsyncFileBuffered p) (fs_os w, k) = (y, os1, k)" using e e2 n by (simp_all add: on_disk_def)
  assume x: "x = Ret (Some f)"
  have q: "open_download (fs_state w) name (fs_os w, k) =
      bindE (if p = [] then ret False else on_disk (fs_exists p)) (\<lambda>there.
        if \<not> there then ret None else bindE (on_disk (new_AsyncFileBuffered p)) (\<lambda>f. ret (Some f))) (fs_os w, k)"
    unfolding p_def open_download_def by (simp add: bindE_Ret getE_run)
  have "p \<noteq> []" using u x unfolding q by (auto simp: bindE_def ret_def)
  moreover have "y = Ret f"
    using u x \<open>p \<noteq> []\<close> d unfolding q by (cases z; cases y) (auto simp: bindE_def ret_def split: if_splits)
  ultimately show "open_in r f" using opened_region(2) [OF i n p_def] by blast
qed

lemma send_block_os: "fst (snd (send_block f n s)) = fst s"
  by (cases s) (simp add: send_block_def split: prod.splits outcome.splits)

lemma receive_block_result:
  assumes "wf_os os" and "open_in r f" and "receive_block f n (os, k) = (x, os', k')"
  shows "confined r os os'" and "x = Ret (Inl (f', n')) \<Longrightarrow> open_in r f'"
proof -
  obtain l where l: "nt_fp (af_rawfile f) = Some l" "region r l" using assms(2) by (auto simp: open_in_def)
  have w: "confined r os os1 \<and> nt_fp (af_rawfile f1) = Some l" if "af_write bs f os = (m, f1, os1)" for bs m f1 os1
    using af_write_os [OF l(1) that] confined_set_contents [OF assms(1) l(2)] by auto
  have "(os' = os \<and> (\<forall>y. x \<noteq> Ret (Inl y)))
      \<or> (\<exists>bs m f1. af_write bs f os = (m, f1, os') \<and> x = Ret (Inl (f1, n + m)))"
    using assms(3) by (auto simp: receive_block_def split: prod.splits outcome.splits if_splits)
  then show "confined r os os'" and "x = Ret (Inl (f', n')) \<Longrightarrow> open_in r f'"
    using w l(2) confined_refl [OF assms(1)] open_in_def by (metis, metis outcome.inject(1) sum.inject(1) prod.inject)
qed

lemma send_block_fp:
  "send_block f n (os, k) = (Ret (Inl (f', n')), os', k') \<Longrightarrow> nt_fp (af_rawfile f') = nt_fp (af_rawfile f)"
  by (auto simp: send_block_def dest: af_read_remaining split: prod.splits outcome.splits if_splits)

lemma transfer_turn_inv:
  assumes i: "session_inv r os0 w" and p: "phase_inv r ph"
  shows "progress_inv r os0 (transfer_turn api ph k w)"
proof -
  note rf = confined_refl [OF inv_wf [OF i]]
  have open_inv: "progress_inv r os0 (piece api (opened msg begins) k m w)"
    if m: "m (fs_os w, k) = (x, os, k')" and o: "os = fs_os w"
      and b: "\<And>f. x = Ret (Some f) \<Longrightarrow> phase_inv r (begins f)" for msg begins m x os k'
  proof (rule piece_inv [where m = m and w = w and k = k, OF i m])
    show "confined r (fs_os w) os" using rf o by simp
    show "phase_inv r ph" if "x = Ret y" "opened msg begins y = Inl ph" for y ph
      using that b by (cases y) auto
    show "hoare (session_inv r os0) (\<lambda>_. True) h (\<lambda>_ _. True)" if "x = Ret y" "opened msg begins y = Inr h" for y h
      using that by (cases y) (auto intro: hoare_done)
  qed
  have block_inv: "progress_inv r os0 (piece api (block_done c) k m w)"
    if m: "m (fs_os w, k) = (x, os, k')" and o: "confined r (fs_os w) os"
      and b: "\<And>f n. x = Ret (Inl (f, n)) \<Longrightarrow> phase_inv r (c f n)" for c m x os k'
  proof (rule piece_inv [where m = m and w = w and k = k, OF i m o])
    show "phase_inv r ph" if "x = Ret y" "block_done c y = Inl ph" for y ph
      using that b by (auto elim: block_done.elims)
    show "hoare (session_inv r os0) (\<lambda>_. True) h (\<lambda>_ _. True)" if "x = Ret y" "block_done c y = Inr h" for y h
      using that by (auto elim: block_done.elims intro: completed_hoare)
  qed
  show ?thesis
  proof (cases ph)
    case (Connected tr arg)
    show ?thesis
    proof (cases tr)
      case (Listing d)
      obtain x os k1 where m: "list_body api (fs_state w) arg d (fs_os w, k) = (x, os, k1)"
        by (cases "list_body api (fs_state w) arg d (fs_os w, k)")
      then have "os = fs_os w"
        using preservesD [OF list_body_same, of "(fs_os w, k)" api "fs_state w" arg d] by (simp add: same_os_def)
      then show ?thesis
        unfolding Connected Listing transfer_turn.simps
        by (intro piece_inv [where m = "list_body api (fs_state w) arg d" and w = w and k = k, OF i m]) (auto simp: rf hoare_done)
    next
      case Download
      obtain x os k1 where m: "open_download (fs_state w) arg (fs_os w, k) = (x, os, k1)"
        by (cases "open_download (fs_state w) arg (fs_os w, k)")
      then have "os = fs_os w" "\<And>f. x = Ret (Some f) \<Longrightarrow> phase_inv r (Sending f 0)"
        using open_download_result [OF i m] by simp_all
      then show ?thesis unfolding Connected Download transfer_turn.simps by (intro open_inv [where x = x]) (rule m, blast+)
    next
      case Upload
      obtain x os k1 where m: "open_upload (fs_state w) arg (fs_os w, k) = (x, os, k1)"
        by (cases "open_upload (fs_state w) arg (fs_os w, k)")
      then have "os = fs_os w" "\<And>f. x = Ret (Some f) \<Longrightarrow> phase_inv r (Receiving f 0)"
        using open_upload_result [OF i m] by simp_all
      then show ?thesis unfolding Connected Upload transfer_turn.simps by (intro open_inv [where x = x]) (rule m, blast+)
    qed
  next
    case (Sending f n)
    obtain x os k1 where m: "send_block f n (fs_os w, k) = (x, os, k1)" by (cases "send_block f n (fs_os w, k)")
    then have "confined r (fs_os w) os" using send_block_os [of f n "(fs_os w, k)"] rf by simp
    moreover have "phase_inv r (Sending f' n')" if "x = Ret (Inl (f', n'))" for f' n'
      using send_block_fp m that p Sending by (fastforce simp: open_in_def)
    ultimately show ?thesis
      unfolding Sending transfer_turn.simps by (intro block_inv [where x = x]) (rule m, blast+)
  next
    case (Receiving f n)
    obtain x os k1 where m: "receive_block f n (fs_os w, k) = (x, os, k1)" by (cases "receive_block f n (fs_os w, k)")
    have "open_in r f" using p Receiving by simp
    then have "confined r (fs_os w) os" "\<And>f' n'. x = Ret (Inl (f', n')) \<Longrightarrow> phase_inv r (Receiving f' n')"
      using receive_block_result [OF inv_wf [OF i] _ m] by simp_all
    then show ?thesis
      unfolding Receiving transfer_turn.simps by (intro block_inv [where x = x]) (rule m, blast+)
  qed
qed

lemma hoare_open_transfer: "hoare (session_inv r os0) P (open_transfer api tr) (\<lambda>_ _. True)"
  unfolding open_transfer_def by (intro hoare_bindE [OF hoare_send] hoare_establish)

lemma command_turn_inv:
  assumes i: "session_inv r os0 w" shows "progress_inv r os0 (command_turn api w)"
proof -
  obtain x w1 where rd: "read_command w = (x, w1)" by (cases "read_command w")
  then have i1: "session_inv r os0 w1" using hoareD [OF hoare_read_command i, of "\<lambda>_. True"] by simp
  show ?thesis
  proof (cases x)
    case (Ret line)
    show ?thesis
    proof (cases "transfer_request api line w1")
      case None
      have "hoare (session_inv r os0) (\<lambda>_. True)
          (if line = [] then ret () else bindE (process_command api line) (send_answer api)) (\<lambda>_ _. True)"
        by (simp add: hoare_bindE [OF hoare_process] hoare_answer hoare_done)
      then have "session_inv r os0 (snd ((if line = [] then ret ()
          else bindE (process_command api line) (send_answer api)) w1))"
        using hoareD i1 by metis
      then show ?thesis using rd Ret None by (cases "line = []") (simp_all add: command_turn_def case_prod_unfold)
    next
      case (Some y)
      obtain tr arg where y: "y = (tr, arg)" by (cases y)
      obtain a w2 where o: "open_transfer api tr w1 = (a, w2)" by (cases "open_transfer api tr w1")
      then have "session_inv r os0 w2" using hoareD [OF hoare_open_transfer i1, of "\<lambda>_. True" api tr] by simp
      then show ?thesis
        using rd Ret Some y o
        by (cases a) (simp_all add: command_turn_def finished_inv hoare_raise)
    qed
  qed (use rd i1 in \<open>simp_all add: command_turn_def\<close>)
qed

section \<open>Input on the control connection\<close>

fun progress_session :: "progress \<Rightarrow> FTPSession" where
  "progress_session (Waits ph k w) = w"
| "progress_session (Finished x w) = w"

lemma same_input_answer: "preserves same_input (send_answer api x)"
  unfolding send_answer_def by (cases x) (auto intro!: input_intros)

lemma finished_same_input:
  assumes "preserves same_input m" shows "same_input w (progress_session (finished api m w))"
proof -
  have "preserves same_input (to_reply api m)"
    unfolding caught_def
    by (intro same_input_bindE same_input_answer preserves_tryE [OF assms _ same_input_trans]) (rule same_input_basic)
  then show ?thesis using preservesD by (fastforce simp: finished_def case_prod_unfold)
qed

lemma piece_same_input:
  assumes "\<And>y h. nx y = Inr h \<Longrightarrow> preserves same_input h"
  shows "same_input w (progress_session (piece api nx k m w))"
proof -
  obtain x os k1 where m: "m (fs_os w, k) = (x, os, k1)" by (cases "m (fs_os w, k)")
  let ?v = "close_data k1 (w\<lparr>fs_os := os\<rparr>)"
  have v: "same_input ?v u \<Longrightarrow> same_input w u" for u by (simp add: same_input_def close_data_def Let_def)
  have f: "same_input w (progress_session (finished api h ?v))" if "preserves same_input h" for h
    using v finished_same_input [OF that] by blast
  have "same_input w ?v" "same_input w (w\<lparr>fs_os := os\<rparr>)"
    by (simp_all add: same_input_def close_data_def Let_def)
  then show ?thesis
    using m assms f by (cases x) (auto simp: piece_def same_input_basic split: sum.splits)
qed

lemma same_input_completed: "preserves same_input (completed n)"
  unfolding completed_def by (intro input_intros)

lemma transfer_turn_pending:
  "pending (fs_control (progress_session (transfer_turn api ph k w))) = pending (fs_control w)"
proof -
  have o: "preserves same_input h" if "opened msg begins y = Inr h" for msg begins y h
    using that by (cases y) (auto intro: input_intros)
  have b: "preserves same_input h" if "block_done c y = Inr h" for c y h
    using that by (auto elim!: block_done.elims intro: same_input_completed)
  have "same_input w (progress_session (transfer_turn api ph k w))"
    by (cases "(api, ph, k, w)" rule: transfer_turn.cases)
       (auto intro!: piece_same_input same_input_basic dest: o b)
  then show ?thesis by (simp add: same_input_def pending_def)
qed

lemma command_turn_pending:
  assumes "command_turn api w = p" and "\<And>x v. p = Finished x v \<Longrightarrow> \<exists>u. x = Ret u"
  shows "pending (fs_control (progress_session p)) < pending (fs_control w)"
proof (cases p)
  case (Finished x v)
  then obtain u where "p = Finished (Ret u) v" using assms(2) by blast
  moreover from this have "process_one_command api w = (Ret u, v)"
    using pieces_run [of api w] assms(1) by simp
  ultimately show ?thesis using process_one_pending by simp
next
  case (Waits ph k v)
  then obtain line w1 tr where rd: "read_command w = (Ret line, w1)" and o: "open_transfer api tr w1 = (Ret k, v)"
    using assms(1) by (auto simp: command_turn_def split: prod.splits outcome.splits option.splits)
  have "preserves same_input (open_transfer api tr)"
    unfolding open_transfer_def by (intro same_input_bindE) (auto intro!: input_intros)
  then have "same_input w1 v" using preservesD o by (metis snd_conv)
  then show ?thesis using read_command_pending [OF rd] Waits by (simp add: same_input_def pending_def)
qed

end
