(* ===== verification/Interference.thy ===== *)
theory Interference
  imports Transfers FtpProps
begin

text \<open>
  Transfers while other sessions work on the same files. Between two blocks of a transfer the other
  coroutines may change the file system; here that is the list of file systems its turns find. A
  download sends the file's contents if nobody changes them meanwhile, and a mixture if somebody
  does; uploads to different files do not affect each other, in whatever order their blocks come.
\<close>

section \<open>Turns of one transfer, each on the files as it finds them\<close>

fun turns_under :: "winapi \<Rightarrow> os list \<Rightarrow> progress \<Rightarrow> progress" where
  "turns_under api [] p = p"
| "turns_under api (os # oss) (Finished x w) = Finished x w"
| "turns_under api (os # oss) (Waits ph k w) = turns_under api oss (transfer_turn api ph k (w\<lparr>fs_os := os\<rparr>))"

lemma turns_finished [simp]: "turns_under api oss (finished api m w) = finished api m w"
  by (cases oss) (simp_all add: finished_def case_prod_unfold)

lemma remaining_contents:
  "nt_fp f = Some l \<Longrightarrow> contents os' l = contents os l \<Longrightarrow> remaining f os' = remaining f os"
  by (simp add: remaining_def)

lemma send_block_last:
  "remaining (af_rawfile f) os = [] \<Longrightarrow> send_block f n (os, k) = (Ret (Inr n), os, k)"
  using af_read_remaining [of _ f os]
  by (cases "af_read (min BUFFER_SIZE (SIZE_MAX - n)) f os") (fastforce simp: send_block_def)

lemma send_block_more:
  assumes "no_send_errors k" and r: "remaining (af_rawfile f) os = R" "R \<noteq> []" and n: "n + length R \<le> SIZE_MAX"
  obtains f' k' where
    "send_block f n (os, k) = (Ret (Inl (f', n + length (take BUFFER_SIZE R))), os, k')"
    "no_send_errors k'" "written k' = written k @ take BUFFER_SIZE R"
    "remaining (af_rawfile f') os = drop BUFFER_SIZE R" "nt_fp (af_rawfile f') = nt_fp (af_rawfile f)"
proof -
  let ?c = "min BUFFER_SIZE (SIZE_MAX - n)"
  obtain bs f' where rd: "af_read ?c f os = (bs, f')" by (cases "af_read ?c f os")
  have c: "take ?c R = take BUFFER_SIZE R" "drop ?c R = drop BUFFER_SIZE R"
    using n by (simp_all add: min_def)
  then have bs: "bs = take BUFFER_SIZE R" "remaining (af_rawfile f') os = drop BUFFER_SIZE R"
      "nt_fp (af_rawfile f') = nt_fp (af_rawfile f)"
    using af_read_remaining [OF rd] r by simp_all
  moreover have "bs \<noteq> []" using bs(1) r(2) by (simp add: BUFFER_SIZE_def)
  moreover have "n < SIZE_MAX" using n r(2) by (cases R) simp_all
  moreover obtain k1 where "send_chunk bs k = (Ret (), k1)" "no_send_errors k1" "written k1 = written k @ bs"
    using send_chunk_ok [OF assms(1)] by blast
  ultimately show ?thesis using that [of f' k1] rd by (simp add: send_block_def)
qed

lemma sending_under:
  assumes "no_send_errors k" and "nt_fp (af_rawfile f) = Some l" and "remaining (af_rawfile f) os = R"
    and "n + length R \<le> SIZE_MAX" and "length R \<le> length oss * BUFFER_SIZE"
    and "\<And>os'. os' \<in> set oss \<Longrightarrow> contents os' l = contents os l"
  shows "\<exists>k' os'. os' \<in> insert os (set oss)
    \<and> turns_under api (os # oss) (Waits (Sending f n) k w)
      = finished api (completed (n + length R)) (close_data k' (w\<lparr>fs_os := os'\<rparr>))
    \<and> written k' = written k @ R"
  using assms
proof (induction oss arbitrary: os R f n k w)
  case Nil
  then have "R = []" by simp
  then have "send_block f n (os, k) = (Ret (Inr n), os, k)" using Nil.prems(3) send_block_last by blast
  then show ?case using \<open>R = []\<close> by (auto simp: piece_def)
next
  case (Cons os1 oss)
  show ?case
  proof (cases "R = []")
    case True
    then have "send_block f n (os, k) = (Ret (Inr n), os, k)" using Cons.prems(3) send_block_last by blast
    then show ?thesis using True by (auto simp: piece_def)
  next
    case False
    obtain f1 k1 where b: "send_block f n (os, k) = (Ret (Inl (f1, n + length (take BUFFER_SIZE R))), os, k1)"
      and k1: "no_send_errors k1" "written k1 = written k @ take BUFFER_SIZE R"
      and f1: "remaining (af_rawfile f1) os = drop BUFFER_SIZE R" "nt_fp (af_rawfile f1) = nt_fp (af_rawfile f)"
      using send_block_more [OF Cons.prems(1,3) False Cons.prems(4)] by blast
    let ?n = "n + length (take BUFFER_SIZE R)"
    have len: "?n + length (drop BUFFER_SIZE R) = n + length R"
      by (metis append_take_drop_id length_append add.assoc)
    have c: "contents os1 l = contents os l" using Cons.prems(6) by simp
    have l1: "nt_fp (af_rawfile f1) = Some l" using f1(2) Cons.prems(2) by simp
    have "remaining (af_rawfile f1) os1 = drop BUFFER_SIZE R"
      using remaining_contents [OF l1 c] f1(1) by simp
    moreover have "?n + length (drop BUFFER_SIZE R) \<le> SIZE_MAX" unfolding len by (rule Cons.prems(4))
    moreover have "length (drop BUFFER_SIZE R) \<le> length oss * BUFFER_SIZE" using Cons.prems(5) by simp
    moreover have "contents os' l = contents os1 l" if "os' \<in> set oss" for os' using that c Cons.prems(6) by simp
    ultimately obtain k2 os2 where "os2 \<in> insert os1 (set oss)"
      "turns_under api (os1 # oss) (Waits (Sending f1 ?n) k1 (w\<lparr>fs_os := os\<rparr>))
        = finished api (completed (?n + length (drop BUFFER_SIZE R))) (close_data k2 (w\<lparr>fs_os := os\<rparr>\<lparr>fs_os := os2\<rparr>))"
      "written k2 = written k1 @ drop BUFFER_SIZE R"
      using Cons.IH [OF k1(1) l1, where w = "w\<lparr>fs_os := os\<rparr>"] by metis
    moreover have "turns_under api (os # os1 # oss) (Waits (Sending f n) k w)
        = turns_under api (os1 # oss) (Waits (Sending f1 ?n) k1 (w\<lparr>fs_os := os\<rparr>))"
      using b by (simp add: piece_def)
    ultimately show ?thesis unfolding len k1(2) by auto
  qed
qed

section \<open>Downloads\<close>

lemma connected_download:
  assumes "resolve os (st_current_directory (fs_state w)) (st_root_directory (fs_state w)) name = p" and "p \<noteq> []"
    and "regular_file os p l b"
  shows "transfer_turn api (Connected Download name) k (w\<lparr>fs_os := os\<rparr>)
    = Waits (Sending \<lparr>af_file_size = length b, af_current_offset = 0,
          af_rawfile = \<lparr>nt_fp = Some l, nt_text = True, nt_pos = 0, nt_size = length b\<rparr>\<rparr> 0) k (w\<lparr>fs_os := os\<rparr>)"
proof -
  have "on_disk (fs_exists p) (os, k) = (Ret True, os, k)"
    using assms(3) by (auto simp: regular_file_def on_disk_def fs_exists_def or_throw_def exists_ec_def status_def)
  then show ?thesis
    using assms(1,2) open_buffered [OF assms(3), of k]
    by (simp add: piece_def open_download_def bindE_def getE_def ret_def)
qed

text \<open>
  C13: A download is not disturbed by what other sessions do between its blocks, as long as they leave
  the contents of its file: whatever else the file system is at each turn, the client gets exactly the
  text mode translation of the file as it was opened, and the reply counts it.
\<close>

theorem download_isolated:
  assumes "resolve os1 (st_current_directory (fs_state w)) (st_root_directory (fs_state w)) name = p" and "p \<noteq> []"
    and "regular_file os1 p l b" and "no_send_errors k" and "length (text_in b) \<le> SIZE_MAX"
    and "\<forall>os\<in>set oss. contents os l = b" and "length oss = Suc m" and "length (text_in b) \<le> m * BUFFER_SIZE"
  shows "\<exists>k' os'. os' \<in> set oss
    \<and> turns_under api (os1 # oss) (Waits (Connected Download name) k w)
      = finished api (completed (length (text_in b))) (close_data k' (w\<lparr>fs_os := os'\<rparr>))
    \<and> written k' = written k @ text_in b"
proof -
  obtain os2 rest where oss: "oss = os2 # rest" using assms(7) by (cases oss) simp_all
  let ?f = "\<lparr>af_file_size = length b, af_current_offset = 0,
      af_rawfile = \<lparr>nt_fp = Some l, nt_text = True, nt_pos = 0, nt_size = length b\<rparr>\<rparr>"
  have "remaining (af_rawfile ?f) os2 = text_in b" using assms(6) oss by (simp add: remaining_def)
  then have "\<exists>k' os'. os' \<in> insert os2 (set rest)
      \<and> turns_under api (os2 # rest) (Waits (Sending ?f 0) k (w\<lparr>fs_os := os1\<rparr>))
        = finished api (completed (0 + length (text_in b))) (close_data k' (w\<lparr>fs_os := os1\<rparr>\<lparr>fs_os := os'\<rparr>))
      \<and> written k' = written k @ text_in b"
    using assms(5-8) oss by (intro sending_under [OF assms(4)]) auto
  then show ?thesis using connected_download [OF assms(1-3)] oss by simp
qed


lemma download_isolated_witness:
  "\<exists>k' os'. turns_under latin_api [sample_os, two_files_os, two_files_os]
       (Waits (Connected Download ''a.txt'') idle_sock two_files)
      = finished latin_api (completed 5) (close_data k' (two_files\<lparr>fs_os := os'\<rparr>))
    \<and> written k' = ''hello''"
proof -
  let ?l = "(''D:'', [''ftp'', ''a.txt''])"
  have r: "resolve sample_os (st_current_directory (fs_state two_files)) (st_root_directory (fs_state two_files)) ''a.txt''
      = loc_str ?l"
  proof -
    have "resolve sample_os served served ''a.txt'' = loc_str ?l" by code_simp
    then show ?thesis by (simp add: two_files_def initial_state_def)
  qed
  have "follow sample_os (loc_str ?l) = Inr ?l" by code_simp
  then have f: "regular_file sample_os (loc_str ?l) ?l ''hello''"
    using sample_file by (simp add: regular_file_def)
  have c: "\<forall>os\<in>set [two_files_os, two_files_os]. contents os ?l = ''hello''"
    using lookup_sample_file by (simp add: contents_def two_files_os_def)
  have t: "text_in ''hello'' = ''hello''" by simp
  have "\<exists>k' os'. os' \<in> set [two_files_os, two_files_os]
      \<and> turns_under latin_api [sample_os, two_files_os, two_files_os] (Waits (Connected Download ''a.txt'') idle_sock two_files)
        = finished latin_api (completed (length (text_in ''hello''))) (close_data k' (two_files\<lparr>fs_os := os'\<rparr>))
      \<and> written k' = written idle_sock @ text_in ''hello''"
    by (rule download_isolated [OF r _ f _ _ c, where m = 1])
       (simp_all add: loc_str_def no_send_errors_def idle_sock_def SIZE_MAX_def BUFFER_SIZE_def t)
  moreover have "length (text_in ''hello'') = 5" "written idle_sock = []" by (simp_all add: idle_sock_def)
  ultimately show ?thesis unfolding t by (metis append_Nil)
qed

text \<open>A file without carriage returns and Ctrl-Z is read as it is.\<close>

definition plain_text :: "string \<Rightarrow> bool" where
  "plain_text s \<longleftrightarrow> CR \<notin> set s \<and> CTRL_Z \<notin> set s"

lemma text_in_plain: "plain_text s \<Longrightarrow> text_in s = s"
  by (induction s) (auto simp: plain_text_def)

definition opened_file :: "loc \<Rightarrow> string \<Rightarrow> AsyncFileBuffered" where
  "opened_file l b =
     \<lparr>af_file_size = length b, af_current_offset = 0,
      af_rawfile = \<lparr>nt_fp = Some l, nt_text = True, nt_pos = 0, nt_size = length b\<rparr>\<rparr>"

lemma fread_plain_prefix:
  "n \<le> length s \<Longrightarrow> plain_text (take n s) \<Longrightarrow> fread_text n s = (take n s, n)"
  by (induction n s rule: fread_text.induct) (auto simp: plain_text_def)

lemma read_plain_block:
  assumes "plain_text (take BUFFER_SIZE b)" and "contents os l = b" and "BUFFER_SIZE \<le> length b"
  shows "af_read BUFFER_SIZE (opened_file l b) os = (take BUFFER_SIZE b,
    \<lparr>af_file_size = length b, af_current_offset = BUFFER_SIZE,
      af_rawfile = \<lparr>nt_fp = Some l, nt_text = True, nt_pos = BUFFER_SIZE, nt_size = length b\<rparr>\<rparr>)"
  using assms by (simp add: af_read_def nt_Read_def opened_file_def fread_plain_prefix min_def)

text \<open>
  C14: Nothing keeps the versions of a file apart: if another session replaces the contents of a file
  after the first block of its download, the client gets the first block (64 KiB) of the old contents
  followed by what the text mode makes of the new contents from that offset on, as one completed
  transfer whose reply counts both. This is for old contents of at least one block that have no carriage
  return and no Ctrl-Z in the first, so that text mode leaves the block as it is and the stream has read
  exactly it; the new contents are arbitrary, also shorter than the block, and stay for the rest of the
  transfer; the sends do not fail.
\<close>

theorem download_mixes:
  assumes "contents os1 l = b1" and "plain_text (take BUFFER_SIZE b1)" and "BUFFER_SIZE \<le> length b1"
    and "no_send_errors k" and "later = text_in (drop BUFFER_SIZE b2)" and "BUFFER_SIZE + length later \<le> SIZE_MAX"
    and "\<forall>os\<in>set oss. contents os l = b2" and "length oss = Suc m" and "length later \<le> m * BUFFER_SIZE"
  shows "\<exists>k' os'. turns_under api (os1 # oss) (Waits (Sending (opened_file l b1) 0) k w)
      = finished api (completed (BUFFER_SIZE + length later)) (close_data k' (w\<lparr>fs_os := os'\<rparr>))
    \<and> written k' = written k @ take BUFFER_SIZE b1 @ later"
proof -
  let ?B = BUFFER_SIZE
  let ?f = "\<lparr>af_file_size = length b1, af_current_offset = ?B,
      af_rawfile = \<lparr>nt_fp = Some l, nt_text = True, nt_pos = ?B, nt_size = length b1\<rparr>\<rparr>"
  obtain os2 oss2 where oss: "oss = os2 # oss2" using assms(8) by (cases oss) simp_all
  obtain k1 where k1: "send_chunk (take ?B b1) k = (Ret (), k1)" "no_send_errors k1" "written k1 = written k @ take ?B b1"
    using send_chunk_ok [OF assms(4)] by blast
  have B: "min ?B (SIZE_MAX - 0) = ?B" "0 < SIZE_MAX" "0 < ?B" by (simp_all add: BUFFER_SIZE_def SIZE_MAX_def)
  have ne: "take ?B b1 \<noteq> []" using assms(3) B(3) by auto
  have b: "send_block (opened_file l b1) 0 (os1, k) = (Ret (Inl (?f, ?B)), os1, k1)"
    using read_plain_block [OF assms(2,1,3)] k1(1) B ne assms(3) by (simp add: send_block_def)
  have "remaining (af_rawfile ?f) os2 = later" using assms(5,7) oss by (simp add: remaining_def)
  then have "\<exists>k' os'. os' \<in> insert os2 (set oss2)
      \<and> turns_under api (os2 # oss2) (Waits (Sending ?f ?B) k1 (w\<lparr>fs_os := os1\<rparr>))
        = finished api (completed (?B + length later)) (close_data k' (w\<lparr>fs_os := os1\<rparr>\<lparr>fs_os := os'\<rparr>))
      \<and> written k' = written k1 @ later"
    using assms(6-9) oss by (intro sending_under [OF k1(2)]) auto
  then show ?thesis using b k1(3) oss by (auto simp: piece_def)
qed

definition one_file_os :: "string \<Rightarrow> os" where
  "one_file_os b = put_node (''D:'', [''ftp'', ''a.txt'']) (RegFile plain_attr b) sample_os"

lemma download_mixes_witness:
  "\<exists>k' os'. turns_under latin_api
       [one_file_os (replicate BUFFER_SIZE (CHR ''a'')), one_file_os (replicate (2 * BUFFER_SIZE) (CHR ''b'')),
        one_file_os (replicate (2 * BUFFER_SIZE) (CHR ''b''))]
       (Waits (Sending (opened_file (''D:'', [''ftp'', ''a.txt'']) (replicate BUFFER_SIZE (CHR ''a''))) 0) idle_sock two_files)
      = finished latin_api (completed (2 * BUFFER_SIZE)) (close_data k' (two_files\<lparr>fs_os := os'\<rparr>))
    \<and> written k' = replicate BUFFER_SIZE (CHR ''a'') @ replicate BUFFER_SIZE (CHR ''b'')"
proof -
  let ?l = "(''D:'', [''ftp'', ''a.txt''])" and ?a = "replicate BUFFER_SIZE (CHR ''a'')"
  let ?b = "replicate (2 * BUFFER_SIZE) (CHR ''b'')"
  have c: "contents (one_file_os b) ?l = b" for b by (simp add: one_file_os_def contents_def)
  have p: "plain_text (replicate n x)" if "x \<noteq> CR" "x \<noteq> CTRL_Z" for n x using that by (simp add: plain_text_def)
  have d: "text_in (replicate n (CHR ''b'')) = replicate n (CHR ''b'')" for n
    by (rule text_in_plain [OF p]) simp_all
  have "\<exists>k' os'. turns_under latin_api [one_file_os ?a, one_file_os ?b, one_file_os ?b]
       (Waits (Sending (opened_file ?l ?a) 0) idle_sock two_files)
      = finished latin_api (completed (BUFFER_SIZE + length (replicate BUFFER_SIZE (CHR ''b''))))
          (close_data k' (two_files\<lparr>fs_os := os'\<rparr>))
    \<and> written k' = written idle_sock @ take BUFFER_SIZE ?a @ replicate BUFFER_SIZE (CHR ''b'')"
    by (rule download_mixes [where m = 1 and ?b1.0 = ?a and ?b2.0 = ?b])
       (simp_all add: p c d no_send_errors_def idle_sock_def, simp_all add: SIZE_MAX_def BUFFER_SIZE_def)
  then show ?thesis by (simp add: idle_sock_def mult_2)
qed

section \<open>Uploads\<close>

text \<open>A piece of a transfer changes no file but the one its upload has open.\<close>

text \<open>What a block of an upload does, apart from where it finds the file's contents.\<close>

lemma receive_block_form:
  assumes "nt_fp (af_rawfile f) = Some l"
  shows "\<exists>x k' g. \<forall>os. receive_block f n (os, k)
    = (x, (case g of None \<Rightarrow> os | Some h \<Rightarrow> set_contents l (h (contents os l)) os), k')"
proof -
  obtain r k1 where rd: "read_some BUFFER_SIZE k = (r, k1)" by (cases "read_some BUFFER_SIZE k")
  show ?thesis
  proof (cases "n < SIZE_MAX \<and> (\<exists>bs. r = Ret bs \<and> bs \<noteq> [])")
    case True
    then obtain bs where bs: "r = Ret bs" "bs \<noteq> []" by blast
    obtain f' where "\<forall>os. af_write bs f os = (length bs, f', set_contents l
        (overwrite (nt_pos (af_rawfile f)) (if nt_text (af_rawfile f) then text_out bs else bs) (contents os l)) os)"
      using assms by (simp add: af_write_def nt_Write_def Let_def)
    then have "\<forall>os. receive_block f n (os, k) = (Ret (Inl (f', n + length bs)),
        (case Some (overwrite (nt_pos (af_rawfile f)) (if nt_text (af_rawfile f) then text_out bs else bs)) of
           None \<Rightarrow> os | Some h \<Rightarrow> set_contents l (h (contents os l)) os), k1)"
      using True rd bs by (simp add: receive_block_def)
    then show ?thesis by blast
  next
    case False
    have "\<exists>x k'. \<forall>os. receive_block f n (os, k) = (x, os, k')"
      using False rd by (cases r) (auto simp: receive_block_def)
    then obtain x k' where "\<forall>os. receive_block f n (os, k) = (x, (case None of None \<Rightarrow> os
        | Some h \<Rightarrow> set_contents l (h (contents os l)) os), k')" by auto
    then show ?thesis by blast
  qed
qed

lemma update_swap_existing:
  "k \<noteq> k' \<Longrightarrow> k \<in> fst ` set al \<Longrightarrow> k' \<in> fst ` set al \<Longrightarrow>
     AList.update k v (AList.update k' v' al) = AList.update k' v' (AList.update k v al)"
proof (induction al)
  case (Cons a al)
  have "AList.update k v (AList.update k' v' al) = AList.update k' v' (AList.update k v al)"
    if "fst a \<noteq> k" "fst a \<noteq> k'" using that Cons by auto
  then show ?case using Cons.prems(1) by (cases a) auto
qed simp

lemma set_contents_other: "l \<noteq> l' \<Longrightarrow> lookup (set_contents l c os) l' = lookup os l'"
  by (auto simp: set_contents_def split: option.splits node.splits)

lemma set_contents_swap:
  assumes "l \<noteq> l'"
  shows "set_contents l c (set_contents l' c' os) = set_contents l' c' (set_contents l c os)"
proof -
  have "lookup os m \<noteq> None \<Longrightarrow> m \<in> fst ` set (nodes os)" for m
    by (metis lookup_def map_of_eq_None_iff)
  then have "put_node l x (put_node l' x' os) = put_node l' x' (put_node l x os)"
    if "lookup os l \<noteq> None" "lookup os l' \<noteq> None" for x x'
    using that update_swap_existing [OF assms, of "nodes os"] by (simp add: put_node_def)
  moreover have "lookup (put_node l x os) l' = lookup os l'" "lookup (put_node l' x os) l = lookup os l" for x
    using assms by simp_all
  moreover have "now (put_node m x os) = now os" for m x by (simp add: put_node_def)
  ultimately show ?thesis
    by (auto simp: set_contents_def split: option.splits node.splits)
qed

text \<open>
  C15: Uploads to different files do not affect each other: two blocks that arrive for two sessions can
  be written in either order, with the same results for both sessions and the same file system.
\<close>

theorem uploads_commute:
  assumes "nt_fp (af_rawfile f1) = Some l1" and "nt_fp (af_rawfile f2) = Some l2" and "l1 \<noteq> l2"
    and "receive_block f1 n1 (os, k1) = (x1, os1, k1')" and "receive_block f2 n2 (os1, k2) = (x2, os2, k2')"
  shows "\<exists>os1'. receive_block f2 n2 (os, k2) = (x2, os1', k2') \<and> receive_block f1 n1 (os1', k1) = (x1, os2, k1')"
proof -
  obtain y1 j1 g1 where b1: "\<And>os. receive_block f1 n1 (os, k1)
      = (y1, (case g1 of None \<Rightarrow> os | Some h \<Rightarrow> set_contents l1 (h (contents os l1)) os), j1)"
    using receive_block_form [OF assms(1)] by blast
  obtain y2 j2 g2 where b2: "\<And>os. receive_block f2 n2 (os, k2)
      = (y2, (case g2 of None \<Rightarrow> os | Some h \<Rightarrow> set_contents l2 (h (contents os l2)) os), j2)"
    using receive_block_form [OF assms(2)] by blast
  have c: "contents (set_contents l1 c os) l2 = contents os l2" "contents (set_contents l2 c os) l1 = contents os l1" for c os
    using set_contents_other assms(3) by (metis contents_def)+
  show ?thesis
    using assms(4,5) unfolding b1 b2
    by (cases g1; cases g2) (auto simp: c set_contents_swap [OF assms(3)])
qed

lemma upload_block:
  assumes "lookup os l = Some (RegFile a b)"
  shows "receive_block (opened_file l b) 0 (os, upload_sock)
    = (Ret (Inl (\<lparr>af_file_size = max (length b) 2, af_current_offset = 2,
          af_rawfile = \<lparr>nt_fp = Some l, nt_text = True, nt_pos = 2, nt_size = length b\<rparr>\<rparr>, 2)),
       set_contents l (overwrite 0 ''ab'' b) os, upload_sock\<lparr>to_read := [Inl (System_error ''End of file'')]\<rparr>)"
  using assms
  by (simp add: receive_block_def read_some_def upload_sock_def af_write_def nt_Write_def opened_file_def
      contents_def text_out_def idle_sock_def SIZE_MAX_def BUFFER_SIZE_def)

lemma uploads_commute_witness:
  "let f1 = opened_file (''D:'', [''ftp'', ''a.txt'']) ''hello''; f2 = opened_file (''D:'', [''ftp'', ''b.txt'']) ''old'';
       (x1, os1, k1) = receive_block f1 0 (two_files_os, upload_sock);
       (x2, os2, k2) = receive_block f2 0 (os1, upload_sock)
   in \<exists>os1'. receive_block f2 0 (two_files_os, upload_sock) = (x2, os1', k2)
      \<and> receive_block f1 0 (os1', upload_sock) = (x1, os2, k1)
      \<and> contents os2 (''D:'', [''ftp'', ''a.txt'']) = ''abllo'' \<and> contents os2 (''D:'', [''ftp'', ''b.txt'']) = ''abd''"
proof -
  let ?a = "(''D:'', [''ftp'', ''a.txt''])" and ?b = "(''D:'', [''ftp'', ''b.txt''])"
  let ?f1 = "opened_file ?a ''hello''" and ?f2 = "opened_file ?b ''old''"
  have l: "lookup two_files_os ?a = Some (RegFile plain_attr ''hello'')" "lookup two_files_os ?b = Some (RegFile plain_attr ''old'')"
    using lookup_sample_file by (simp_all add: two_files_os_def)
  have o: "overwrite 0 ''ab'' ''hello'' = ''abllo''" "overwrite 0 ''ab'' ''old'' = ''abd''"
    by (simp_all add: overwrite_def)
  let ?os1 = "set_contents ?a ''abllo'' two_files_os"
  let ?os2 = "set_contents ?b ''abd'' ?os1"
  have l1: "lookup ?os1 ?b = Some (RegFile plain_attr ''old'')" using l(2) set_contents_other [of ?a ?b] by simp
  note b1 = upload_block [OF l(1), unfolded o] and b2 = upload_block [OF l1, unfolded o]
  have f: "nt_fp (af_rawfile (opened_file m c)) = Some m" for m c by (simp add: opened_file_def)
  have "contents ?os1 ?a = ''abllo''" using l(1) by (simp add: contents_def set_contents_def)
  moreover have "contents ?os2 ?a = contents ?os1 ?a" using set_contents_other [of ?b ?a "''abd''" ?os1] by (simp add: contents_def)
  moreover have "contents ?os2 ?b = ''abd''" using l1 by (simp add: contents_def set_contents_def)
  ultimately show ?thesis
    using uploads_commute [OF f f _ b1 b2] by (simp only: Let_def b1 b2 prod.case) simp
qed

end
