(* ===== verification/IoPool.thy ===== *)
theory IoPool
  imports Prelude
begin

text \<open>
  \<open>core/io_context_pool.hpp\<close>: the pool of event loops, first as the calls of one thread and
  then with the steps of several threads in \<open>get_io_context\<close> interleaved. An event loop is
  known by its number; what it runs is not modelled here.
\<close>

section \<open>The pool\<close>

type_synonym io_context = nat

record IOContextPool =
  io_contexts :: "io_context list"
  works :: "io_context list"
  next_io_context :: nat
  stopped :: "io_context list"

definition add_context :: "io_context \<Rightarrow> IOContextPool \<Rightarrow> IOContextPool" where
  "add_context i p = p\<lparr>io_contexts := io_contexts p @ [i], works := works p @ [i]\<rparr>"

definition new_pool :: "nat \<Rightarrow> IOContextPool outcome" where
  "new_pool pool_size =
     (if pool_size = 0 then Exn (Invalid_argument ''Pool size must be positive'')
      else Ret (fold add_context [0..<pool_size]
             \<lparr>io_contexts = [], works = [], next_io_context = 0, stopped = []\<rparr>))"

definition get_io_context :: "(IOContextPool, io_context) eff" where
  "get_io_context p =
     (let ctx = io_contexts p ! next_io_context p; n = next_io_context p + 1
      in (Ret ctx, p\<lparr>next_io_context := (if n \<ge> length (io_contexts p) then 0 else n)\<rparr>))"

definition get_io_context_at :: "nat \<Rightarrow> IOContextPool \<Rightarrow> io_context" where
  "get_io_context_at index p = io_contexts p ! (index mod length (io_contexts p))"

text \<open>
  \<open>run\<close> joins one thread for each context; \<open>run_context\<close> says how the loop of a context ends.
  An exception ends its thread and is only logged.
\<close>

definition pool_run :: "(io_context \<Rightarrow> unit outcome) \<Rightarrow> (IOContextPool, unit) eff" where
  "pool_run run_context p =
     (if list_ex (\<lambda>c. run_context c = Hang) (io_contexts p) then (Hang, p) else (Ret (), p))"

definition pool_stop :: "IOContextPool \<Rightarrow> IOContextPool" where
  "pool_stop p = p\<lparr>works := [], stopped := stopped p @ io_contexts p\<rparr>"

definition pool_size :: "IOContextPool \<Rightarrow> nat" where
  "pool_size p = length (io_contexts p)"

lemma fold_add_context:
  "io_contexts (fold add_context is p) = io_contexts p @ is"
  "next_io_context (fold add_context is p) = next_io_context p"
  "stopped (fold add_context is p) = stopped p"
  by (induction "is" arbitrary: p) (simp_all add: add_context_def)

lemma new_pool_contexts:
  assumes "new_pool n = Ret p"
  shows "io_contexts p = [0..<n]" "next_io_context p = 0" "stopped p = []" "0 < n"
  using assms by (auto simp: new_pool_def fold_add_context split: if_splits)

section \<open>Several threads\<close>

text \<open>
  A thread in \<open>get_io_context\<close> adds one to the counter and uses its old value as index,
  compares the counter with the size, and stores zero in it: three atomic steps on the counter,
  between which other threads run.
\<close>

datatype pool_pc = Outside | Fetched | Wraps

record pool_race =
  counter :: nat
  pcs :: "nat \<Rightarrow> pool_pc"
  used :: "nat list"

inductive pool_step :: "nat \<Rightarrow> nat \<Rightarrow> pool_race \<Rightarrow> pool_race \<Rightarrow> bool" for capacity threads where
  fetch: "t < threads \<Longrightarrow> pcs s t = Outside \<Longrightarrow>
    pool_step capacity threads s
      (s\<lparr>counter := counter s + 1, pcs := (pcs s)(t := Fetched), used := used s @ [counter s]\<rparr>)"
| leave: "pcs s t = Fetched \<Longrightarrow> counter s < capacity \<Longrightarrow>
    pool_step capacity threads s (s\<lparr>pcs := (pcs s)(t := Outside)\<rparr>)"
| wrap: "pcs s t = Fetched \<Longrightarrow> capacity \<le> counter s \<Longrightarrow>
    pool_step capacity threads s (s\<lparr>pcs := (pcs s)(t := Wraps)\<rparr>)"
| reset: "pcs s t = Wraps \<Longrightarrow>
    pool_step capacity threads s (s\<lparr>counter := 0, pcs := (pcs s)(t := Outside)\<rparr>)"

definition fresh_pool :: pool_race where
  "fresh_pool = \<lparr>counter = 0, pcs = (\<lambda>_. Outside), used = []\<rparr>"

inductive pool_reachable :: "nat \<Rightarrow> nat \<Rightarrow> pool_race \<Rightarrow> bool" for capacity threads where
  start: "pool_reachable capacity threads fresh_pool"
| step: "pool_reachable capacity threads s \<Longrightarrow> pool_step capacity threads s t \<Longrightarrow>
    pool_reachable capacity threads t"

text \<open>With one thread: the indices used so far are the round robin.\<close>

definition round_robin :: "nat \<Rightarrow> nat list \<Rightarrow> bool" where
  "round_robin capacity us \<longleftrightarrow> us = map (\<lambda>k. k mod capacity) [0..<length us]"

lemma round_robin_snoc:
  "round_robin capacity us \<Longrightarrow> round_robin capacity (us @ [length us mod capacity])"
  by (simp add: round_robin_def)

definition alone :: "nat \<Rightarrow> pool_race \<Rightarrow> bool" where
  "alone capacity s \<longleftrightarrow> round_robin capacity (used s) \<and> (\<forall>t. t \<noteq> 0 \<longrightarrow> pcs s t = Outside)
     \<and> (case pcs s 0 of
          Outside \<Rightarrow> counter s = length (used s) mod capacity
        | Fetched \<Rightarrow> used s \<noteq> [] \<and> counter s = Suc ((length (used s) - 1) mod capacity)
        | Wraps \<Rightarrow> length (used s) mod capacity = 0)"

lemma suc_wraps: "0 < n \<Longrightarrow> m \<noteq> 0 \<Longrightarrow>
    m mod n = (if n \<le> Suc ((m - 1) mod n) then 0 else Suc ((m - 1) mod n))"
  using mod_Suc [of "m - 1" n] by (cases m) (auto simp: le_Suc_eq dest: mod_less_divisor [of n "m - 1"])

lemma alone_only: "alone capacity s \<Longrightarrow> pcs s t \<noteq> Outside \<Longrightarrow> t = 0"
  by (auto simp: alone_def)

lemma alone_step:
  assumes "pool_step capacity 1 s s'" and "0 < capacity" and "alone capacity s"
  shows "alone capacity s'"
  using assms(1)
proof (cases rule: pool_step.cases)
  case (fetch t)
  then have "counter s = length (used s) mod capacity" using assms(3) by (simp add: alone_def)
  then show ?thesis using assms(3) fetch round_robin_snoc by (simp add: alone_def)
next
  case (leave t)
  then have "t = 0" using alone_only [OF assms(3)] by simp
  then show ?thesis using assms(2,3) leave suc_wraps [of capacity "length (used s)"] by (simp add: alone_def)
next
  case (wrap t)
  then have "t = 0" using alone_only [OF assms(3)] by simp
  then show ?thesis using assms(2,3) wrap suc_wraps [of capacity "length (used s)"] by (simp add: alone_def)
next
  case (reset t)
  then have "t = 0" using alone_only [OF assms(3)] by simp
  then show ?thesis using assms(2,3) reset by (simp add: alone_def)
qed

lemma alone_fresh: "alone capacity fresh_pool"
  by (simp add: alone_def fresh_pool_def round_robin_def)

lemma reachable_alone: "pool_reachable capacity 1 s \<Longrightarrow> 0 < capacity \<Longrightarrow> alone capacity s"
  by (induction rule: pool_reachable.induct)
     (auto intro: alone_fresh alone_step)

text \<open>With two: the second thread fetches between the first one's fetch and its reset.\<close>

lemma reachable_quiet:
  "k < capacity \<Longrightarrow> 0 < threads \<Longrightarrow>
     \<exists>us. pool_reachable capacity threads \<lparr>counter = k, pcs = (\<lambda>_. Outside), used = us\<rparr>"
proof (induction k)
  case 0
  show ?case using pool_reachable.start [of capacity threads] by (auto simp: fresh_pool_def)
next
  case (Suc k)
  then obtain us where r: "pool_reachable capacity threads \<lparr>counter = k, pcs = (\<lambda>_. Outside), used = us\<rparr>"
    by auto
  let ?s = "\<lparr>counter = Suc k, pcs = (\<lambda>_. Outside)(0 := Fetched), used = us @ [k]\<rparr>"
  have "pool_reachable capacity threads ?s"
    using pool_reachable.step [OF r fetch [of 0]] Suc(3) by simp
  from pool_reachable.step [OF this leave [of _ 0]] Suc(2) show ?case
    by (auto simp: fun_upd_idem)
qed

lemma reachable_overrun:
  assumes "0 < capacity" shows "\<exists>s. pool_reachable capacity 2 s \<and> capacity \<in> set (used s)"
proof -
  obtain n where n: "capacity = Suc n" using assms by (cases capacity) auto
  obtain us where r: "pool_reachable capacity 2 \<lparr>counter = n, pcs = (\<lambda>_. Outside), used = us\<rparr>"
    using reachable_quiet [of n capacity 2] n by auto
  let ?s = "\<lparr>counter = capacity, pcs = (\<lambda>_. Outside)(0 := Fetched), used = us @ [n]\<rparr>"
  have "pool_reachable capacity 2 ?s" using pool_reachable.step [OF r fetch [of 0]] n by simp
  from pool_reachable.step [OF this fetch [of 1]] show ?thesis by fastforce
qed

text \<open>A call that no other thread interrupts is a run of these steps.\<close>

abbreviation idle :: "nat \<Rightarrow> nat list \<Rightarrow> pool_race" where
  "idle n us \<equiv> \<lparr>counter = n, pcs = (\<lambda>_. Outside), used = us\<rparr>"

lemma call_is_steps:
  assumes "length (io_contexts p) = capacity"
  shows "(pool_step capacity 1)\<^sup>*\<^sup>* (idle (next_io_context p) us)
    (idle (next_io_context (snd (get_io_context p))) (us @ [next_io_context p]))"
proof -
  let ?n = "next_io_context p"
  let ?f = "\<lparr>counter = Suc ?n, pcs = (\<lambda>_. Outside)(0 := Fetched), used = us @ [?n]\<rparr>"
  have f: "pool_step capacity 1 (idle ?n us) ?f"
    using fetch [of 0 1 "idle ?n us" capacity] by simp
  show ?thesis
  proof (cases "Suc ?n < capacity")
    case True
    have "pool_step capacity 1 ?f (idle (Suc ?n) (us @ [?n]))"
      using leave [of ?f 0 capacity 1] True by (simp add: fun_upd_idem)
    then show ?thesis using f True assms by (simp add: get_io_context_def Let_def)
  next
    case False
    let ?w = "?f\<lparr>pcs := (\<lambda>_. Outside)(0 := Wraps)\<rparr>"
    have "pool_step capacity 1 ?f ?w" using wrap [of ?f 0 capacity 1] False by simp
    moreover have "pool_step capacity 1 ?w (idle 0 (us @ [?n]))"
      using reset [of ?w 0 capacity 1] by (simp add: fun_upd_idem)
    ultimately show ?thesis using f False assms by (simp add: get_io_context_def Let_def)
  qed
qed

text \<open>
  C29: Called from one thread, \<open>get_io_context\<close> hands the contexts out in turn and its index is
  always within the pool. Called from two threads it can index past the end of the pool, for
  every size, although the counter is atomic: the program only calls it from its main thread.
  A call of the sequential model is an uninterrupted run of the steps.
\<close>

theorem pool_turns:
  assumes "0 < capacity"
  shows "(\<forall>s. pool_reachable capacity 1 s \<longrightarrow>
      used s = map (\<lambda>k. k mod capacity) [0..<length (used s)])
    \<and> (\<exists>s. pool_reachable capacity 2 s \<and> capacity \<in> set (used s))
    \<and> (\<forall>p us. length (io_contexts p) = capacity \<longrightarrow>
        (pool_step capacity 1)\<^sup>*\<^sup>* (idle (next_io_context p) us)
          (idle (next_io_context (snd (get_io_context p))) (us @ [next_io_context p])))"
  using reachable_alone [OF _ assms] reachable_overrun [OF assms] call_is_steps
  by (simp add: alone_def round_robin_def)

lemma pool_turns_witness: "\<exists>s. pool_reachable 4 2 s \<and> 4 \<in> set (used s)"
  using pool_turns [of 4] by simp

end
