(* ===== verification/ServerMain.thy ===== *)
theory ServerMain
  imports IoPool FtpConfine DavConfine
begin

text \<open>
  \<open>main.cpp\<close>: the command line, the start of the server, and the two accept loops, whose
  connections are the sessions of \<open>FtpCommands\<close> and the handlers of \<open>DavHandler\<close>. Connections are
  served one after another here; each runs to its end in the turn of the loop that accepted it
  (\<open>ServerSteps\<close> runs them in turns).
\<close>

section \<open>The command line\<close>

record ServerConfig =
  bind_address :: string
  ftp_port :: "16 word"
  webdav_port :: "16 word"
  root_directory :: path
  io_pool_size :: nat
  use_tls :: bool
  cert_file :: string
  key_file :: string

definition default_config :: ServerConfig where
  "default_config =
     \<lparr>bind_address = ''0.0.0.0'', ftp_port = 21, webdav_port = 8080, root_directory = ''d:'',
      io_pool_size = 4, use_tls = False, cert_file = [], key_file = []\<rparr>"

definition usage :: "string \<Rightarrow> string" where
  "usage program =
     ''Usage: '' @ program @ '' [options]'' @ [LF, LF]
     @ ''Options:'' @ [LF]
     @ ''  -a, --address <addr>  Bind address (default: 0.0.0.0)'' @ [LF]
     @ ''  -p, --port <port>     FTP port (default: 21)'' @ [LF]
     @ ''  -w, --webdav-port <port>  WebDAV port (default: 8080)'' @ [LF]
     @ ''  -r, --root <dir>     Root directory (default: /var/ftpd/root)'' @ [LF]
     @ ''  -t, --threads <n>    IO thread pool size (default: 4)'' @ [LF]
     @ ''  -h, --help           Show this help'' @ [LF]"

definition is_option :: "string \<Rightarrow> string \<Rightarrow> string \<Rightarrow> bool" where
  "is_option arg s l \<longleftrightarrow> arg = s \<or> arg = l"

text \<open>
  What the arguments come to: the help text, or a configuration. A port is the number cut to 16
  bits; an option without its value, and any other argument, is skipped.
\<close>

function parse_args :: "string \<Rightarrow> string list \<Rightarrow> ServerConfig \<Rightarrow> (string + ServerConfig) outcome" where
  "parse_args program [] config = Ret (Inr config)"
| "parse_args program (arg # rest) config =
     (if is_option arg ''-h'' ''--help'' then Ret (Inl (usage program))
      else if is_option arg ''-a'' ''--address'' \<and> rest \<noteq> []
      then parse_args program (tl rest) (config\<lparr>bind_address := hd rest\<rparr>)
      else if is_option arg ''-p'' ''--port'' \<and> rest \<noteq> []
      then (case stoul (hd rest) of
              Ret n \<Rightarrow> parse_args program (tl rest) (config\<lparr>ftp_port := of_nat n\<rparr>)
            | Exn e \<Rightarrow> Exn e | Hang \<Rightarrow> Hang)
      else if is_option arg ''-w'' ''--webdav-port'' \<and> rest \<noteq> []
      then (case stoul (hd rest) of
              Ret n \<Rightarrow> parse_args program (tl rest) (config\<lparr>webdav_port := of_nat n\<rparr>)
            | Exn e \<Rightarrow> Exn e | Hang \<Rightarrow> Hang)
      else if is_option arg ''-r'' ''--root'' \<and> rest \<noteq> []
      then parse_args program (tl rest) (config\<lparr>root_directory := hd rest\<rparr>)
      else if is_option arg ''-t'' ''--threads'' \<and> rest \<noteq> []
      then (case stoul (hd rest) of
              Ret n \<Rightarrow> parse_args program (tl rest) (config\<lparr>io_pool_size := n\<rparr>)
            | Exn e \<Rightarrow> Exn e | Hang \<Rightarrow> Hang)
      else parse_args program rest config)"
  by pat_completeness auto
termination
  by (relation "measure (\<lambda>(program, args, config). length args)") auto

declare parse_args.simps [simp del]

section \<open>The server\<close>

text \<open>
  What the server takes from outside: the conversion API, the network of the data channels, what
  the WebDAV handlers need, whether an address can be listened on, and whether a socket still
  has its peer, and how the loop of a context ends.
\<close>

record server_env =
  se_api :: winapi
  se_net :: net
  se_dav :: dav_env
  se_listen :: "string \<Rightarrow> 16 word \<Rightarrow> unit outcome"
  se_peer :: "sock \<Rightarrow> string outcome"

record Server =
  sv_config :: ServerConfig
  io_pool :: IOContextPool
  fs_executor :: io_context
  ftp_acceptor :: "io_context option"
  webdav_acceptor :: "io_context option"
  signals :: "io_context option"
  g_stop :: bool
  sv_os :: os
  served_on :: "(bool \<times> io_context) list"
  sv_log :: "string list"

definition new_server :: "ServerConfig \<Rightarrow> os \<Rightarrow> Server outcome" where
  "new_server config os =
     (case new_pool (io_pool_size config) of
        Ret pool \<Rightarrow>
          (case get_io_context pool of
             (Ret ctx, pool') \<Rightarrow>
               Ret \<lparr>sv_config = config, io_pool = pool', fs_executor = ctx, ftp_acceptor = None,
                    webdav_acceptor = None, signals = None, g_stop = False, sv_os = os,
                    served_on = [], sv_log = []\<rparr>
           | (Exn e, pool') \<Rightarrow> Exn e
           | (Hang, pool') \<Rightarrow> Hang)
      | Exn e \<Rightarrow> Exn e
      | Hang \<Rightarrow> Hang)"

definition log_line :: "string \<Rightarrow> (Server, unit) eff" where
  "log_line m = modE (\<lambda>s. s\<lparr>sv_log := sv_log s @ [m]\<rparr>)"

definition on_pool :: "(IOContextPool, 'a) eff \<Rightarrow> (Server, 'a) eff" where
  "on_pool m s = (case m (io_pool s) of (r, p) \<Rightarrow> (r, s\<lparr>io_pool := p\<rparr>))"

text \<open>An acceptor: opened, bound and listening on a context.\<close>

definition listen_on ::
    "server_env \<Rightarrow> string \<Rightarrow> (ServerConfig \<Rightarrow> 16 word) \<Rightarrow> (io_context \<Rightarrow> Server \<Rightarrow> Server) \<Rightarrow> nat
       \<Rightarrow> (Server, unit) eff" where
  "listen_on env name port keep index =
     bindE (modE (\<lambda>s. keep (get_io_context_at index (io_pool s)) s)) (\<lambda>_.
     bindE (getE sv_config) (\<lambda>config.
     bindE (liftE (se_listen env (bind_address config) (port config))) (\<lambda>_.
     log_line (name @ '' server listening on '' @ bind_address config @ '':'' @ dec (unat (port config))))))"

definition open_acceptors :: "server_env \<Rightarrow> (Server, unit) eff" where
  "open_acceptors env =
     bindE (listen_on env ''FTP'' ftp_port (\<lambda>ctx s. s\<lparr>ftp_acceptor := Some ctx\<rparr>) 0) (\<lambda>_.
     listen_on env ''WebDAV'' webdav_port (\<lambda>ctx s. s\<lparr>webdav_acceptor := Some ctx\<rparr>) 1)"

text \<open>\<open>Server::start\<close> up to \<open>run\<close>; the result says whether the accept loops were started.\<close>

definition start_server :: "server_env \<Rightarrow> (Server, bool) eff" where
  "start_server env =
     bindE (getE sv_config) (\<lambda>config.
     bindE (log_line ''Starting FTP/WebDAV Server...'') (\<lambda>_.
     bindE (log_line (''Root directory: '' @ root_directory config)) (\<lambda>_.
     bindE (log_line (''IO pool size: '' @ dec (io_pool_size config))) (\<lambda>_.
     bindE (\<lambda>s. case fs_create_directories (sv_os s) (root_directory config) of
                  (ec, os) \<Rightarrow> (Ret ec, s\<lparr>sv_os := os\<rparr>)) (\<lambda>ec.
     case ec of
       Some e \<Rightarrow>
         bindE (getE (\<lambda>s. err_text (sv_os s) e)) (\<lambda>m.
         bindE (log_line (''Failed to create root directory: '' @ m)) (\<lambda>_. ret False))
     | None \<Rightarrow>
         bindE (tryE (bindE (open_acceptors env) (\<lambda>_. ret True))
                  (\<lambda>e. bindE (log_line (''Failed to start servers: '' @ what_of e)) (\<lambda>_. ret False)))
           (\<lambda>listening.
            if \<not> listening then ret False
            else
              bindE (on_pool get_io_context) (\<lambda>ctx.
              bindE (modE (\<lambda>s. s\<lparr>signals := Some ctx\<rparr>)) (\<lambda>_. ret True))))))))"

definition stop_server :: "Server \<Rightarrow> Server" where
  "stop_server s = s\<lparr>g_stop := True, io_pool := pool_stop (io_pool s)\<rparr>"

section \<open>Connections\<close>

text \<open>
  A detached coroutine: what it throws is dropped. The constructor of a session runs before its
  first command, and \<open>remote_endpoint\<close> before that.
\<close>

definition handle_ftp_connection :: "server_env \<Rightarrow> sock \<Rightarrow> Server \<Rightarrow> Server" where
  "handle_ftp_connection env k s =
     (case se_peer env k of
        Ret peer \<Rightarrow>
          (case new_FTPSession k (se_net env) (root_directory (sv_config s)) (sv_os s) of
             (Ret w, os) \<Rightarrow> s\<lparr>sv_os := fs_os (snd (start (se_api env) w))\<rparr>
           | (r, os) \<Rightarrow> s\<lparr>sv_os := os\<rparr>)
      | _ \<Rightarrow> s)"

definition handle_webdav_connection :: "server_env \<Rightarrow> sock \<Rightarrow> Server \<Rightarrow> Server" where
  "handle_webdav_connection env k s =
     (case se_peer env k of
        Ret peer \<Rightarrow>
          s\<lparr>sv_os := dh_os (snd (handle_request (se_dav env)
               (new_handler k (sv_os s) (root_directory (sv_config s)))))\<rparr>
      | _ \<Rightarrow> s)"

text \<open>
  One turn of an accept loop: a connection or an error of \<open>async_accept\<close>. The connection is
  served on the executor of its socket, which is the acceptor's. After a stop the acceptor's
  context runs nothing more.
\<close>

definition accept_turn :: "server_env \<Rightarrow> bool \<Rightarrow> io_context \<Rightarrow> exn + sock \<Rightarrow> Server \<Rightarrow> Server" where
  "accept_turn env is_ftp ctx r s =
     (if g_stop s \<or> ctx \<in> set (stopped (io_pool s)) then s
      else
        (case r of
           Inl e \<Rightarrow>
             s\<lparr>sv_log := sv_log s @
                 [(if is_ftp then ''FTP'' else ''WebDAV'') @ '' accept error: '' @ what_of e]\<rparr>
         | Inr k \<Rightarrow>
             (if is_ftp then handle_ftp_connection env k else handle_webdav_connection env k)
               (s\<lparr>served_on := served_on s @ [(is_ftp, ctx)]\<rparr>)))"

text \<open>What reaches the server: results of the two acceptors, and signals.\<close>

datatype arrival = Ftp_arrival "exn + sock" | Dav_arrival "exn + sock" | Signal nat

fun arrive :: "server_env \<Rightarrow> arrival \<Rightarrow> Server \<Rightarrow> Server" where
  "arrive env (Ftp_arrival r) s =
     (case ftp_acceptor s of Some ctx \<Rightarrow> accept_turn env True ctx r s | None \<Rightarrow> s)"
| "arrive env (Dav_arrival r) s =
     (case webdav_acceptor s of Some ctx \<Rightarrow> accept_turn env False ctx r s | None \<Rightarrow> s)"
| "arrive env (Signal n) s =
     (if g_stop s then s
      else stop_server (s\<lparr>sv_log := sv_log s @
             [''Received signal '' @ dec n @ '', shutting down...'']\<rparr>))"

fun serve_all :: "server_env \<Rightarrow> arrival list \<Rightarrow> Server \<Rightarrow> Server" where
  "serve_all env [] s = s"
| "serve_all env (a # as) s = serve_all env as (arrive env a s)"

text \<open>\<open>main\<close>: exceptions of the command line and of the constructor end the process.\<close>

definition main_program ::
    "server_env \<Rightarrow> string \<Rightarrow> string list \<Rightarrow> arrival list \<Rightarrow> os \<Rightarrow> (string + Server) outcome" where
  "main_program env program args arrivals os =
     (case parse_args program args default_config of
        Exn e \<Rightarrow> Exn e
      | Hang \<Rightarrow> Hang
      | Ret (Inl help) \<Rightarrow> Ret (Inl help)
      | Ret (Inr config) \<Rightarrow>
          (case new_server config os of
             Exn e \<Rightarrow> Exn e
           | Hang \<Rightarrow> Hang
           | Ret s \<Rightarrow>
               (case start_server env s of
                  (Exn e, s') \<Rightarrow> Exn e
                | (Hang, s') \<Rightarrow> Hang
                | (Ret True, s') \<Rightarrow> Ret (Inr (serve_all env arrivals s'))
                | (Ret False, s') \<Rightarrow> Ret (Inr s'))))"

section \<open>Files outside the root\<close>

definition kept :: "loc \<Rightarrow> os \<Rightarrow> os \<Rightarrow> bool" where
  "kept r os0 os \<longleftrightarrow> wf_os os \<and> link_free r os \<and> plain_os os \<and> same_cwd os0 os
     \<and> (\<forall>l. \<not> region r l \<longrightarrow> lookup os l = lookup os0 l)"

lemma kept_confined: "kept r os0 os \<Longrightarrow> confined r os os' \<Longrightarrow> kept r os0 os'"
  unfolding kept_def confined_def plain_os_def same_cwd_def using link_free_mono by (elim conjE, intro conjI; metis)

lemma kept_contained: "kept r os0 os \<Longrightarrow> contained r os os' \<Longrightarrow> kept r os0 os'"
  unfolding kept_def contained_def same_cwd_def using link_free_mono by (elim conjE, intro conjI; metis)

definition server_inv :: "loc \<Rightarrow> os \<Rightarrow> Server \<Rightarrow> bool" where
  "server_inv r os0 s \<longleftrightarrow> kept r os0 (sv_os s) \<and> valid_loc r
     \<and> full_loc (sv_os s) (root_directory (sv_config s)) = r"

lemma kept_root: "kept r os0 os \<Longrightarrow> full_loc os p = full_loc os0 p"
  by (simp add: kept_def full_loc_cwd)

text \<open>A root directory that no link leads through is resolved to its own location.\<close>

lemma new_session_root:
  assumes k: "kept r os0 os" and f: "full_loc os root = r" and n: "new_FTPSession k n root os = (x, os')"
  shows "os' = os" and "x = Ret w \<Longrightarrow> session_inv r os w \<and> fs_os w = os"
proof -
  show "os' = os"
    using n by (auto simp: new_FTPSession_def bindE_def fs_canonical_def or_throw_def split: sum.splits)
  show "session_inv r os w \<and> fs_os w = os" if x: "x = Ret w"
  proof -
    have wf: "wf_os os" and nl: "linkless os r" using k by (simp_all add: kept_def link_free_def)
    obtain r' where r': "follow os root = Inr r'" and i: "session_inv r' os w"
      using new_session_inv [OF wf] n x by blast
    have "r' = r" using r' f nl follow_loc_linkless by (auto simp: follow_def split: if_splits)
    moreover have "fs_os w = os"
      using n x by (auto simp: new_FTPSession_def bindE_def fs_canonical_def or_throw_def split: sum.splits)
    ultimately show ?thesis using i by simp
  qed
qed

lemma server_inv_files: "server_inv r os0 s \<Longrightarrow> kept r os0 os \<Longrightarrow> server_inv r os0 (s\<lparr>sv_os := os\<rparr>)"
  using kept_root [of r os0 "sv_os s"] kept_root [of r os0 os] by (simp add: server_inv_def)

lemma ftp_connection_inv:
  assumes "server_inv r os0 s" shows "server_inv r os0 (handle_ftp_connection env k s)"
proof -
  let ?os = "sv_os s" and ?root = "root_directory (sv_config s)"
  have s: "kept r os0 ?os" "valid_loc r" "full_loc ?os ?root = r"
    using assms by (simp_all add: server_inv_def)
  obtain x os where n: "new_FTPSession k (se_net env) ?root ?os = (x, os)"
    by (cases "new_FTPSession k (se_net env) ?root ?os")
  have "kept r os0 (fs_os (snd (start (se_api env) w)))" if x: "x = Ret w" for w
  proof -
    have i: "session_inv r ?os w" using new_session_root [OF s(1,3) n] x by blast
    then show ?thesis
      using kept_confined [OF s(1)] start_inv [OF i, of "se_api env"] by (simp add: session_inv_def)
  qed
  then show ?thesis
    using assms n new_session_root(1) [OF s(1,3) n] server_inv_files [OF assms] s(1)
    by (auto simp: handle_ftp_connection_def split: outcome.splits)
qed

lemma dav_connection_inv:
  assumes "server_inv r os0 s" shows "server_inv r os0 (handle_webdav_connection env k s)"
proof -
  let ?w = "new_handler k (sv_os s) (root_directory (sv_config s))"
  have s: "kept r os0 (sv_os s)" "valid_loc r" "full_loc (sv_os s) (root_directory (sv_config s)) = r"
    using assms by (simp_all add: server_inv_def)
  have "dav_inv r (sv_os s) ?w"
    using s contained_refl by (simp add: dav_inv_def new_handler_def kept_def)
  then have "kept r os0 (dh_os (snd (handle_request (se_dav env) ?w)))"
    using handle_loop_inv kept_contained [OF s(1)] by (fastforce simp: handle_request_def dav_inv_def)
  then show ?thesis
    using assms server_inv_files [OF assms] by (auto simp: handle_webdav_connection_def split: outcome.splits)
qed

lemma server_inv_start:
  assumes "wf_os (sv_os s)" and "follow (sv_os s) (root_directory (sv_config s)) = Inr r"
    and "full_loc (sv_os s) (root_directory (sv_config s)) = r"
    and "link_free r (sv_os s)" and "plain_os (sv_os s)"
  shows "server_inv r (sv_os s) s"
  using assms solid_valid [OF assms(1) follow_result_solid [OF assms(2)]] by (simp add: server_inv_def kept_def)

lemma server_inv_other [simp]:
  "server_inv r os0 (s\<lparr>sv_log := l\<rparr>) = server_inv r os0 s"
  "server_inv r os0 (s\<lparr>served_on := v\<rparr>) = server_inv r os0 s"
  "server_inv r os0 (stop_server s) = server_inv r os0 s"
  by (simp_all add: server_inv_def stop_server_def)

lemma connection_frame [simp]:
  "served_on (handle_ftp_connection env k s) = served_on s"
  "ftp_acceptor (handle_ftp_connection env k s) = ftp_acceptor s"
  "webdav_acceptor (handle_ftp_connection env k s) = webdav_acceptor s"
  "served_on (handle_webdav_connection env k s) = served_on s"
  "ftp_acceptor (handle_webdav_connection env k s) = ftp_acceptor s"
  "webdav_acceptor (handle_webdav_connection env k s) = webdav_acceptor s"
  "sv_config (handle_ftp_connection env k s) = sv_config s"
  "sv_config (handle_webdav_connection env k s) = sv_config s"
  by (simp_all add: handle_ftp_connection_def handle_webdav_connection_def split: outcome.splits prod.splits)

text \<open>
  What an accept loop relies on in the coroutine it starts for a connection: that it keeps the
  invariant of the files, and leaves the acceptors and the record of connections alone.
\<close>

locale connection_handler =
  fixes handle :: "sock \<Rightarrow> Server \<Rightarrow> Server"
  assumes keeps: "server_inv r os0 s \<Longrightarrow> server_inv r os0 (handle k s)"
    and frame: "served_on (handle k s) = served_on s" "ftp_acceptor (handle k s) = ftp_acceptor s"
      "webdav_acceptor (handle k s) = webdav_acceptor s" "sv_config (handle k s) = sv_config s"
begin

lemma turn_keeps:
  "server_inv r os0 s \<Longrightarrow>
     server_inv r os0 (if b then s
       else case x of Inl e \<Rightarrow> s\<lparr>sv_log := f e\<rparr> | Inr k \<Rightarrow> handle k (s\<lparr>served_on := v\<rparr>))"
  by (auto intro: keeps split: sum.splits)

lemma turn_frame:
  assumes "t = (if b then s
    else case x of Inl e \<Rightarrow> s\<lparr>sv_log := f e\<rparr> | Inr k \<Rightarrow> handle k (s\<lparr>served_on := v\<rparr>))"
  shows "ftp_acceptor t = ftp_acceptor s \<and> webdav_acceptor t = webdav_acceptor s
    \<and> sv_config t = sv_config s \<and> served_on t \<in> {served_on s, v}"
  unfolding assms by (simp add: frame split: sum.splits)

end

interpretation ftp_conn: connection_handler "handle_ftp_connection env" for env
  by unfold_locales (auto intro: ftp_connection_inv)

interpretation dav_conn: connection_handler "handle_webdav_connection env" for env
  by unfold_locales (auto intro: dav_connection_inv)

lemma turn_by_handler:
  "accept_turn env True c x s =
     (if g_stop s \<or> c \<in> set (stopped (io_pool s)) then s
      else case x of
             Inl e \<Rightarrow> s\<lparr>sv_log := sv_log s @ [''FTP'' @ '' accept error: '' @ what_of e]\<rparr>
           | Inr k \<Rightarrow> handle_ftp_connection env k (s\<lparr>served_on := served_on s @ [(True, c)]\<rparr>))"
  "accept_turn env False c x s =
     (if g_stop s \<or> c \<in> set (stopped (io_pool s)) then s
      else case x of
             Inl e \<Rightarrow> s\<lparr>sv_log := sv_log s @ [''WebDAV'' @ '' accept error: '' @ what_of e]\<rparr>
           | Inr k \<Rightarrow> handle_webdav_connection env k (s\<lparr>served_on := served_on s @ [(False, c)]\<rparr>))"
  by (simp_all add: accept_turn_def split: sum.splits)

lemma turn_inv: "server_inv r os0 s \<Longrightarrow> server_inv r os0 (accept_turn env f c x s)"
proof -
  assume i: "server_inv r os0 s"
  have "server_inv r os0 (accept_turn env True c x s)"
    unfolding turn_by_handler by (rule ftp_conn.turn_keeps [OF i])
  moreover have "server_inv r os0 (accept_turn env False c x s)"
    unfolding turn_by_handler by (rule dav_conn.turn_keeps [OF i])
  ultimately show ?thesis by (cases f) simp_all
qed

lemma turn_unchanged:
  "ftp_acceptor (accept_turn env f c x s) = ftp_acceptor s
   \<and> webdav_acceptor (accept_turn env f c x s) = webdav_acceptor s
   \<and> sv_config (accept_turn env f c x s) = sv_config s
   \<and> served_on (accept_turn env f c x s) \<in> {served_on s, served_on s @ [(f, c)]}"
  using ftp_conn.turn_frame [OF turn_by_handler(1), of env c x s]
    dav_conn.turn_frame [OF turn_by_handler(2), of env c x s]
  by (cases f) simp_all

lemma arrive_inv: "server_inv r os0 s \<Longrightarrow> server_inv r os0 (arrive env a s)"
  by (cases a) (auto intro: turn_inv split: option.splits)

lemma serve_all_inv: "server_inv r os0 s \<Longrightarrow> server_inv r os0 (serve_all env as s)"
  by (induction "as" arbitrary: s) (auto intro: arrive_inv)

text \<open>
  Whatever clients send over any sequence of FTP and WebDAV connections, served one after
  another: the file system stays well formed, and every location that is neither in the root
  directory nor beside it under a name extending the root's is unchanged, provided that no
  symbolic link lies in that region or above it and no name has a colon.
\<close>

theorem server_confined:
  assumes "wf_os (sv_os s)" and "follow (sv_os s) (root_directory (sv_config s)) = Inr r"
    and "full_loc (sv_os s) (root_directory (sv_config s)) = r"
    and "link_free r (sv_os s)" and "plain_os (sv_os s)"
  shows "wf_os (sv_os (serve_all env as s))
    \<and> (\<forall>l. \<not> below r l \<and> \<not> beside r l \<longrightarrow> lookup (sv_os (serve_all env as s)) l = lookup (sv_os s) l)"
proof -
  have "server_inv r (sv_os s) s" using assms by (intro server_inv_start)
  then have "server_inv r (sv_os s) (serve_all env as s)" by (rule serve_all_inv)
  then show ?thesis by (simp add: server_inv_def kept_def region_def)
qed

definition sample_server_env :: server_env where
  "sample_server_env =
     \<lparr>se_api = latin_api, se_net = open_net, se_dav = sample_env, se_listen = (\<lambda>a p. Ret ()),
      se_peer = (\<lambda>k. Ret ''127.0.0.1'')\<rparr>"

definition sample_server :: Server where
  "sample_server =
     \<lparr>sv_config = default_config\<lparr>root_directory := served\<rparr>,
      io_pool = \<lparr>io_contexts = [0..<4], works = [0..<4], next_io_context = 2, stopped = []\<rparr>,
      fs_executor = 0, ftp_acceptor = Some 0, webdav_acceptor = Some 1, signals = Some 1,
      g_stop = False, sv_os = sample_os, served_on = [], sv_log = []\<rparr>"

definition two_clients :: "arrival list" where
  "two_clients =
     [Ftp_arrival (Inr (client_sock [Inr (''USER a'' @ crlf), Inr (''PASS b'' @ crlf), Inr (''DELE .'' @ crlf)])),
      Dav_arrival (Inr (client_sock [Inr (''DELETE / HTTP/1.1'' @ blank_line)]))]"

lemma sample_root:
  "follow sample_os (root_directory (sv_config sample_server)) = Inr (''D:'', [''ftp''])"
  "full_loc sample_os (root_directory (sv_config sample_server)) = (''D:'', [''ftp''])"
  by code_simp+

lemma server_confined_witness:
  "lookup (sv_os (serve_all sample_server_env two_clients sample_server)) (''D:'', []) =
     Some (Directory plain_attr)"
proof -
  have os: "sv_os sample_server = sample_os" by (simp add: sample_server_def)
  have "lookup sample_os (''D:'', []) = Some (Directory plain_attr)"
    by (simp add: lookup_def sample_os_def)
  then show ?thesis
    using server_confined [of sample_server "(''D:'', [''ftp''])" sample_server_env two_clients]
      wf_sample_os sample_link_free sample_plain sample_root
    by (simp add: os below_def beside_def name_extends_def)
qed

section \<open>Where connections are served\<close>

definition acceptor_of :: "Server \<Rightarrow> bool \<Rightarrow> io_context option" where
  "acceptor_of s is_ftp = (if is_ftp then ftp_acceptor s else webdav_acceptor s)"

definition on_acceptors :: "Server \<Rightarrow> bool" where
  "on_acceptors s \<longleftrightarrow> list_all (\<lambda>(f, c). acceptor_of s f = Some c) (served_on s)"

lemma stop_frame [simp]:
  "served_on (stop_server s) = served_on s" "ftp_acceptor (stop_server s) = ftp_acceptor s"
  "webdav_acceptor (stop_server s) = webdav_acceptor s" "sv_config (stop_server s) = sv_config s"
  by (simp_all add: stop_server_def)

definition same_acceptors :: "Server \<Rightarrow> Server \<Rightarrow> bool" where
  "same_acceptors s t \<longleftrightarrow> ftp_acceptor t = ftp_acceptor s \<and> webdav_acceptor t = webdav_acceptor s
     \<and> sv_config t = sv_config s"

lemma turn_acceptors:
  assumes "acceptor_of s f = Some c" and "on_acceptors s"
  shows "on_acceptors (accept_turn env f c x s) \<and> same_acceptors s (accept_turn env f c x s)"
proof -
  let ?t = "accept_turn env f c x s"
  have "same_acceptors s ?t" and "served_on ?t = served_on s \<or> served_on ?t = served_on s @ [(f, c)]"
    using turn_unchanged [of env f c x s] by (simp_all add: same_acceptors_def)
  moreover from this(1) have "acceptor_of ?t = acceptor_of s"
    by (simp add: same_acceptors_def acceptor_of_def fun_eq_iff)
  ultimately show ?thesis using assms by (auto simp: on_acceptors_def)
qed

lemma acceptor_stop: "acceptor_of (stop_server (s\<lparr>sv_log := l\<rparr>)) = acceptor_of s"
  by (simp add: acceptor_of_def fun_eq_iff)

lemma arrive_acceptors:
  "on_acceptors s \<Longrightarrow> on_acceptors (arrive env a s) \<and> same_acceptors s (arrive env a s)"
proof (cases a)
  case (Ftp_arrival r)
  assume o: "on_acceptors s"
  then show ?thesis
    using turn_acceptors [of s True _ env r] Ftp_arrival
    by (auto simp: acceptor_of_def same_acceptors_def split: option.splits)
next
  case (Dav_arrival r)
  assume o: "on_acceptors s"
  then show ?thesis
    using turn_acceptors [of s False _ env r] Dav_arrival
    by (auto simp: acceptor_of_def same_acceptors_def split: option.splits)
next
  case (Signal n)
  assume o: "on_acceptors s"
  then show ?thesis
    using Signal acceptor_stop by (simp add: on_acceptors_def same_acceptors_def)
qed

lemma serve_acceptors:
  "on_acceptors s \<Longrightarrow> on_acceptors (serve_all env as s) \<and> same_acceptors s (serve_all env as s)"
proof (induction "as" arbitrary: s)
  case (Cons a "as")
  then show ?case using arrive_acceptors [of s env a] Cons(1) [of "arrive env a s"]
    by (simp add: same_acceptors_def)
qed (simp add: same_acceptors_def)

definition listening :: "nat \<Rightarrow> Server \<Rightarrow> Server \<Rightarrow> bool" where
  "listening n s t \<longleftrightarrow> sv_config t = sv_config s \<and> served_on t = served_on s
     \<and> ftp_acceptor t = Some 0 \<and> webdav_acceptor t = Some (1 mod n)"

lemma open_acceptors_listening:
  assumes "open_acceptors env s = (Ret u, t)" and "io_contexts (io_pool s) = [0..<n]" and "0 < n"
  shows "listening n s t"
proof -
  have at: "get_io_context_at 0 (io_pool s) = 0" "get_io_context_at (Suc 0) (io_pool s) = 1 mod n"
    using assms(2,3) by (simp_all add: get_io_context_at_def)
  show ?thesis
    using assms(1)
    by (cases "se_listen env (bind_address (sv_config s)) (ServerConfig.ftp_port (sv_config s))";
        cases "se_listen env (bind_address (sv_config s)) (ServerConfig.webdav_port (sv_config s))")
       (auto simp: open_acceptors_def listen_on_def log_line_def eff_simps bindE_def listening_def at)
qed

lemma started_listening:
  assumes "start_server env s = (Ret True, t)" and "io_contexts (io_pool s) = [0..<n]" and "0 < n"
  shows "listening n s t"
proof -
  obtain ec os where mk: "fs_create_directories (sv_os s) (root_directory (sv_config s)) = (ec, os)"
    by (cases "fs_create_directories (sv_os s) (root_directory (sv_config s))")
  define ls where "ls = [''Starting FTP/WebDAV Server...'', ''Root directory: '' @ root_directory (sv_config s),
    ''IO pool size: '' @ dec (io_pool_size (sv_config s))]"
  let ?s = "s\<lparr>sv_log := sv_log s @ ls, sv_os := os\<rparr>"
  obtain r u where o: "open_acceptors env ?s = (r, u)" by (cases "open_acceptors env ?s")
  have "ec = None \<and> r = Ret () \<and>
      t = u\<lparr>io_pool := snd (get_io_context (io_pool u)), signals := Some (io_contexts (io_pool u) ! next_io_context (io_pool u))\<rparr>"
    using assms(1) mk o
    by (cases ec; cases r)
       (simp_all add: start_server_def bindE_def getE_def log_line_def modE_def ret_def tryE_def ls_def
         on_pool_def get_io_context_def Let_def)
  moreover from this have "listening n ?s u"
    using open_acceptors_listening [of env ?s "()" u n] o assms(2,3) by simp
  ultimately show ?thesis by (simp add: listening_def)
qed

definition none_served :: "Server \<Rightarrow> Server \<Rightarrow> bool" where
  "none_served s t \<longleftrightarrow> served_on t = served_on s"

lemma none_served_trans: "none_served a b \<Longrightarrow> none_served b c \<Longrightarrow> none_served a c"
  by (simp add: none_served_def)

lemmas none_served_bindE = preserves_bindE [OF _ _ none_served_trans]

lemma none_served_basic:
  "preserves none_served (ret x)" "preserves none_served (getE f)" "preserves none_served (liftE r)"
  "preserves none_served (log_line m)" "preserves none_served (on_pool q)"
  by (simp_all add: preserves_def none_served_def eff_simps log_line_def on_pool_def split: prod.splits)

lemma none_served_modE: "(\<And>s. served_on (f s) = served_on s) \<Longrightarrow> preserves none_served (modE f)"
  by (simp add: preserves_def none_served_def eff_simps)

lemma none_served_tryE:
  "preserves none_served m \<Longrightarrow> (\<And>e. preserves none_served (h e)) \<Longrightarrow> preserves none_served (tryE m h)"
  unfolding preserves_def none_served_def tryE_def
  by (auto split: prod.splits outcome.splits) (metis snd_conv)+

lemma none_served_create: "preserves none_served (\<lambda>s. case f s of (ec, os) \<Rightarrow> (Ret ec, s\<lparr>sv_os := os\<rparr>))"
  by (simp add: preserves_def none_served_def split: prod.splits)

lemma start_serves_none: "preserves none_served (start_server env)"
  unfolding start_server_def open_acceptors_def listen_on_def
  by (auto intro!: none_served_bindE none_served_basic none_served_modE none_served_tryE none_served_create
      split: option.splits)

text \<open>
  C30: Connections are not spread over the pool: an FTP connection is always served on context 0
  and a WebDAV connection on context 1 (0 in a pool of one), whatever the size of the pool,
  because a socket stays on the context of its acceptor.
\<close>

theorem connections_contexts:
  assumes "main_program env program args arrivals os = Ret (Inr s)" and "(is_ftp, ctx) \<in> set (served_on s)"
  shows "ctx = (if is_ftp then 0 else 1 mod io_pool_size (sv_config s))"
proof -
  obtain config where pa: "parse_args program args default_config = Ret (Inr config)"
    using assms(1) by (auto simp: main_program_def split: outcome.splits sum.splits)
  obtain s0 where n: "new_server config os = Ret s0"
    using assms(1) pa by (auto simp: main_program_def split: outcome.splits)
  obtain pool where p: "new_pool (io_pool_size config) = Ret pool"
    using n by (auto simp: new_server_def split: outcome.splits)
  note c = new_pool_contexts [OF p]
  have s0: "sv_config s0 = config" "io_contexts (io_pool s0) = [0..<io_pool_size config]" "served_on s0 = []"
    using n p c(1) by (auto simp: new_server_def get_io_context_def Let_def)
  obtain r s1 where st: "start_server env s0 = (r, s1)" by (cases "start_server env s0")
  show ?thesis
  proof (cases "r = Ret True")
    case True
    then have s: "s = serve_all env arrivals s1" and l: "listening (io_pool_size config) s0 s1"
      using assms(1) pa n st started_listening [OF _ s0(2) c(4)] by (simp_all add: main_program_def)
    have "on_acceptors s1" using l s0(3) by (simp add: on_acceptors_def listening_def)
    then have "on_acceptors s \<and> same_acceptors s1 s" unfolding s by (rule serve_acceptors)
    moreover from this have "acceptor_of s is_ftp = Some ctx"
      using assms(2) by (auto simp: on_acceptors_def list_all_iff)
    ultimately show ?thesis
      using l s0(1) by (simp add: same_acceptors_def listening_def acceptor_of_def split: if_splits)
  next
    case False
    then have "s = s1" "r = Ret False"
      using assms(1) pa n st by (auto simp: main_program_def split: outcome.splits bool.splits)
    then have "served_on s = []"
      using preservesD [OF start_serves_none, of s0 env] s0(3) st by (simp add: none_served_def)
    then show ?thesis using assms(2) by simp
  qed
qed


definition quiet_env :: server_env where
  \<comment> \<open>every peer is gone again before its session starts\<close>
  "quiet_env = sample_server_env\<lparr>se_peer := (\<lambda>k. Exn (System_error ''remote_endpoint''))\<rparr>"

lemma quiet_connections [simp]:
  "handle_ftp_connection quiet_env k s = s" "handle_webdav_connection quiet_env k s = s"
  "se_listen quiet_env a p = Ret ()"
  by (simp_all add: handle_ftp_connection_def handle_webdav_connection_def quiet_env_def
      sample_server_env_def)

lemma create_served: "fs_create_directories sample_os served = (None, sample_os)"
proof -
  have "served = loc_str (''D:'', [''ftp''])" by code_simp
  then have "snd (fs_create_directories sample_os served) = sample_os"
    using create_existing [OF wf_sample_os follow_result_solid [OF follow_served]] by simp
  moreover have "fst (fs_create_directories sample_os served) = None" by code_simp
  ultimately show ?thesis by (simp add: prod_eq_iff)
qed

lemma root_argument:
  "parse_args program [''-r'', root] config = Ret (Inr (config\<lparr>root_directory := root\<rparr>))"
  by (simp add: parse_args.simps is_option_def)

lemma connections_contexts_witness:
  "\<exists>s. main_program quiet_env ''netFiles'' [''-r'', served] two_clients sample_os = Ret (Inr s)
     \<and> (False, 1) \<in> set (served_on s) \<and> (\<forall>c. (False, c) \<in> set (served_on s) \<longrightarrow> c = 1)"
proof -
  let ?m = "main_program quiet_env ''netFiles'' [''-r'', served] two_clients sample_os"
  have four: "[0..<4] = [0, 1, 2, 3::nat]" by code_simp
  have "\<exists>s. ?m = Ret (Inr s) \<and> served_on s = [(True, 0), (False, 1)] \<and> io_pool_size (sv_config s) = 4"
    by (simp add: main_program_def root_argument new_server_def new_pool_def default_config_def four add_context_def
        get_io_context_def Let_def start_server_def bindE_def getE_def log_line_def modE_def create_served
        tryE_def open_acceptors_def listen_on_def get_io_context_at_def liftE_def ret_def on_pool_def
        two_clients_def accept_turn_def)
  then obtain s where s: "?m = Ret (Inr s)" "served_on s = [(True, 0), (False, 1)]"
    "io_pool_size (sv_config s) = 4" by blast
  have "c = 1" if "(False, c) \<in> set (served_on s)" for c
    using connections_contexts [OF s(1) that] s(3) by simp
  then show ?thesis using s by auto
qed

end
