(* ===== verification/DavPieces.thy ===== *)
theory DavPieces
  imports DavConfine
begin

text \<open>
  A WebDAV request, cut where the coroutine waits for the network with files still to be read: GET
  sends the head, and only then reads the body. Every other method does all its work on the files
  before it sends. \<open>one_request\<close> of \<open>DavHandler\<close> is these pieces run in a row.
\<close>

section \<open>Pieces of a request\<close>

definition serve_answer :: "dav_env \<Rightarrow> HttpRequest \<Rightarrow> HttpResponse \<Rightarrow> (DavRequestHandler, bool) eff" where
  "serve_answer env request response =
     bindE (send_text (generate_response (de_order env) response)) (\<lambda>_.
     ret (req_version request \<noteq> HTTP10))"

text \<open>\<open>process_get\<close> up to the head, with what the rest needs, or with the answer when there is no resource.\<close>

definition get_begin ::
    "dav_env \<Rightarrow> HttpRequest \<Rightarrow> (DavRequestHandler, HttpResponse + (DavResource \<times> HttpResponse)) eff" where
  "get_begin env request =
     bindE (request_target (req_path request)) (\<lambda>path.
     if path = [] then ret (Inl not_found_response)
     else
       bindE (on_fs (create path)) (\<lambda>resource.
       case resource of
         None \<Rightarrow> ret (Inl not_found_response)
       | Some res \<Rightarrow>
           bindE (getE (\<lambda>w. head_response (dh_os w) res)) (\<lambda>response.
           bindE (send_text (generate_response (de_order env) response)) (\<lambda>_.
           ret (Inr (res, response))))))"

definition get_end ::
    "dav_env \<Rightarrow> HttpRequest \<Rightarrow> DavResource \<Rightarrow> HttpResponse \<Rightarrow> (DavRequestHandler, bool) eff" where
  "get_end env request res response =
     bindE (on_fs (res_get res [])) (\<lambda>body.
     bindE (send_text body) (\<lambda>_.
     serve_answer env request response))"

datatype dav_progress =
    Dav_waits HttpRequest DavResource HttpResponse DavRequestHandler
  | Dav_finished "bool outcome" DavRequestHandler

definition dav_done :: "bool outcome \<times> DavRequestHandler \<Rightarrow> dav_progress" where
  "dav_done x = Dav_finished (fst x) (snd x)"

definition request_turn :: "dav_env \<Rightarrow> DavRequestHandler \<Rightarrow> dav_progress" where
  "request_turn env w =
     (case on_conn (parse_request (de_api env) (de_method env) (de_version env)) w of
        (Ret (Inr request), w1) \<Rightarrow>
          if req_method request = GET
          then (case get_begin env request w1 of
                  (Ret (Inr (res, response)), w2) \<Rightarrow> Dav_waits request res response w2
                | (Ret (Inl response), w2) \<Rightarrow> dav_done (serve_answer env request response w2)
                | (Exn e, w2) \<Rightarrow> Dav_finished (Exn e) w2
                | (Hang, w2) \<Rightarrow> Dav_finished Hang w2)
          else dav_done (serve env request w1)
      | (Ret (Inl e), w1) \<Rightarrow> Dav_finished (Ret False) w1
      | (Exn e, w1) \<Rightarrow> Dav_finished (Exn e) w1
      | (Hang, w1) \<Rightarrow> Dav_finished Hang w1)"

fun dav_resume :: "dav_env \<Rightarrow> dav_progress \<Rightarrow> bool outcome \<times> DavRequestHandler" where
  "dav_resume env (Dav_waits request res response w) = get_end env request res response w"
| "dav_resume env (Dav_finished r w) = (r, w)"

lemma dav_resume_done [simp]: "dav_resume env (dav_done x) = x"
  by (simp add: dav_done_def)

lemma serve_get:
  assumes "req_method request = GET"
  shows "serve env request w = dav_resume env
    (case get_begin env request w of
       (Ret (Inr (res, response)), w2) \<Rightarrow> Dav_waits request res response w2
     | (Ret (Inl response), w2) \<Rightarrow> dav_done (serve_answer env request response w2)
     | (Exn e, w2) \<Rightarrow> Dav_finished (Exn e) w2
     | (Hang, w2) \<Rightarrow> Dav_finished Hang w2)"
  using assms
  by (auto simp: serve_def dispatch_def process_get_def get_begin_def get_end_def with_resource_def
      serve_answer_def [symmetric] bindE_def ret_def split: prod.splits outcome.splits option.splits)

lemma dav_pieces_run: "dav_resume env (request_turn env w) = one_request env w"
proof -
  obtain r w1 where p: "on_conn (parse_request (de_api env) (de_method env) (de_version env)) w = (r, w1)"
    by (cases "on_conn (parse_request (de_api env) (de_method env) (de_version env)) w")
  show ?thesis
  proof (cases r)
    case (Ret x)
    show ?thesis
    proof (cases x)
      case (Inr request)
      show ?thesis
      proof (cases "req_method request = GET")
        case True
        have "one_request env w = serve env request w1"
          using p Ret Inr by (simp add: one_request_def bindE_def)
        then show ?thesis
          using p Ret Inr True by (simp add: request_turn_def serve_get [OF True])
      next
        case False
        then show ?thesis using p Ret Inr by (simp add: request_turn_def one_request_def bindE_def)
      qed
    qed (use p Ret in \<open>simp add: request_turn_def one_request_def bindE_def ret_def\<close>)
  qed (use p in \<open>simp_all add: request_turn_def one_request_def bindE_def\<close>)
qed

section \<open>What a piece reads and changes\<close>

fun dav_session :: "dav_progress \<Rightarrow> DavRequestHandler" where
  "dav_session (Dav_waits request res response w) = w"
| "dav_session (Dav_finished r w) = w"

lemma same_script_serve_answer: "preserves same_script (serve_answer env request response)"
  unfolding serve_answer_def by (intro script_intros)

lemma same_script_get:
  "preserves same_script (get_begin env request)" "preserves same_script (get_end env request res response)"
  unfolding get_begin_def get_end_def
  by (auto intro!: script_intros same_script_serve_answer split: option.splits)

lemma handler_pending_script: "same_script w w' \<Longrightarrow> handler_pending w' = handler_pending w"
  by (simp add: same_script_def pending_def)

lemma request_turn_pending:
  assumes "request_turn env w = p" and "\<And>x v. p = Dav_finished x v \<Longrightarrow> \<exists>b. x = Ret b"
  shows "handler_pending (dav_session p) < handler_pending w"
proof (cases p)
  case (Dav_finished x v)
  then obtain b where "p = Dav_finished (Ret b) v" using assms(2) by blast
  moreover from this have "one_request env w = (Ret b, v)"
    using dav_pieces_run [of env w] assms(1) by simp
  ultimately show ?thesis using one_request_pending by simp
next
  case (Dav_waits request res response v)
  then obtain w1 where p: "on_conn (parse_request (de_api env) (de_method env) (de_version env)) w = (Ret (Inr request), w1)"
    and g: "get_begin env request w1 = (Ret (Inr (res, response)), v)"
    using assms(1) by (auto simp: request_turn_def dav_done_def split: prod.splits outcome.splits sum.splits if_splits)
  have "handler_pending w1 < handler_pending w"
    using p by (auto simp: on_conn_def dest: parse_request_pending split: prod.splits)
  moreover have "same_script w1 v" using preservesD [OF same_script_get(1), of w1 env request] g by simp
  ultimately show ?thesis using Dav_waits handler_pending_script by simp
qed

lemma request_turn_root: "dh_root (dav_session (request_turn env w)) = dh_root w"
proof (cases "request_turn env w")
  case (Dav_finished r v)
  then have "one_request env w = (r, v)" using dav_pieces_run [of env w] by simp
  then show ?thesis using one_request_root [of env w] Dav_finished by simp
next
  case (Dav_waits request res response v)
  then have "one_request env w = get_end env request res response v" using dav_pieces_run [of env w] by simp
  then have "same_script v (snd (one_request env w))" using preservesD [OF same_script_get(2)] by metis
  then show ?thesis using one_request_root [of env w] Dav_waits by (simp add: same_script_def)
qed

lemma dav_hoare_end: "hoare (dav_inv r os0) P (get_end env request res response) (\<lambda>_ _. True)"
  unfolding get_end_def serve_answer_def
  by (intro hoare_bindE [OF dav_hoare_reads [OF reads_res_get]] hoare_bindE [OF dav_hoare_send] hoare_done TrueI)

lemma dav_hoare_begin: "hoare (dav_inv r os0) P (get_begin env request) (\<lambda>_ _. True)"
  unfolding get_begin_def
proof (rule hoare_bindE [OF dav_hoare_target])
  fix p
  have "hoare (dav_inv r os0) Q (case x of
         None \<Rightarrow> ret (Inl not_found_response)
       | Some res \<Rightarrow>
           bindE (getE (\<lambda>w. head_response (dh_os w) res)) (\<lambda>response.
           bindE (send_text (generate_response (de_order env) response)) (\<lambda>_.
           ret (Inr (res, response))))) (\<lambda>_ _. True)" for x Q
    by (cases x) (auto intro!: hoare_done hoare_bindE [OF hoare_getE] hoare_bindE [OF dav_hoare_send])
  then show "hoare (dav_inv r os0) (\<lambda>w. P w \<and> (p \<noteq> [] \<longrightarrow> good r (dh_os w) p))
     (if p = [] then ret (Inl not_found_response)
     else
       bindE (on_fs (create p)) (\<lambda>resource.
       case resource of
         None \<Rightarrow> ret (Inl not_found_response)
       | Some res \<Rightarrow>
           bindE (getE (\<lambda>w. head_response (dh_os w) res)) (\<lambda>response.
           bindE (send_text (generate_response (de_order env) response)) (\<lambda>_.
           ret (Inr (res, response)))))) (\<lambda>_ _. True)"
    by (cases "p = []") (auto intro: hoare_done intro!: hoare_bindE [OF dav_hoare_create])
qed

lemma request_turn_inv:
  assumes "dav_inv r os0 w" shows "dav_inv r os0 (dav_session (request_turn env w))"
proof (cases "request_turn env w")
  case (Dav_finished x v)
  then have "one_request env w = (x, v)" using dav_pieces_run [of env w] by simp
  then show ?thesis using hoareD [OF dav_hoare_one [where P = "\<lambda>_. True"] assms, of env] Dav_finished by simp
next
  case (Dav_waits request res response v)
  then obtain w1 where p: "on_conn (parse_request (de_api env) (de_method env) (de_version env)) w = (Ret (Inr request), w1)"
    and g: "get_begin env request w1 = (Ret (Inr (res, response)), v)"
    by (auto simp: request_turn_def dav_done_def split: prod.splits outcome.splits sum.splits if_splits)
  have "dav_inv r os0 w1" using p assms by (auto simp: on_conn_def dav_inv_def split: prod.splits)
  then show ?thesis
    using hoareD [OF dav_hoare_begin [where P = "\<lambda>_. True"], of r os0 w1 env request] g Dav_waits by simp
qed


end
