(* ===== verification/ServerSteps.thy ===== *)
theory ServerSteps
  imports ServerMain Interference FtpDialogue DavPieces "HOL-Library.Multiset"
begin

text \<open>
  The connections of the server together: the coroutines that the accept loops have started run in
  turns, in any order, on one file system. A turn is the greeting of an FTP session, one of its
  commands, one piece of a transfer (\<open>Transfers\<close>: a listing, or one block sent or received), one
  request of a WebDAV connection, or the body of a GET whose head is out (\<open>DavPieces\<close>). \<open>ServerMain\<close> runs each connection to its end where it is accepted;
  here that is one schedule among others.
\<close>

section \<open>Coroutines\<close>

text \<open>
  What a coroutine does next. The file system in the session or the handler is the one of its last
  turn; each turn starts from the shared one. A coroutine that has returned, thrown or waits for
  ever is gone.
\<close>

datatype task =
    Ftp_greeting FTPSession
  | Ftp_command FTPSession
  | Ftp_transfer phase sock FTPSession
  | Dav_request DavRequestHandler
  | Dav_body HttpRequest DavResource HttpResponse DavRequestHandler

fun after_piece :: "progress \<Rightarrow> os \<times> task option" where
  "after_piece (Waits ph k w) = (fs_os w, Some (Ftp_transfer ph k w))"
| "after_piece (Finished (Ret u) w) = (fs_os w, Some (Ftp_command w))"
| "after_piece (Finished (Exn e) w) = (fs_os w, None)"
| "after_piece (Finished Hang w) = (fs_os w, None)"

fun after_dav :: "dav_progress \<Rightarrow> os \<times> task option" where
  "after_dav (Dav_waits request res response w) = (dh_os w, Some (Dav_body request res response w))"
| "after_dav (Dav_finished (Ret b) w) = (dh_os w, if b then Some (Dav_request w) else None)"
| "after_dav (Dav_finished (Exn e) w) = (dh_os w, None)"
| "after_dav (Dav_finished Hang w) = (dh_os w, None)"

fun task_turn :: "server_env \<Rightarrow> os \<Rightarrow> task \<Rightarrow> os \<times> task option" where
  "task_turn env os (Ftp_greeting w) =
     (case send_response (se_api env) ServiceReady ''FTP Server ready'' (w\<lparr>fs_os := os\<rparr>) of
        (Ret _, w') \<Rightarrow> (fs_os w', Some (Ftp_command w'))
      | (_, w') \<Rightarrow> (fs_os w', None))"
| "task_turn env os (Ftp_command w) =
     (if fs_active w then after_piece (command_turn (se_api env) (w\<lparr>fs_os := os\<rparr>)) else (os, None))"
| "task_turn env os (Ftp_transfer ph k w) =
     after_piece (transfer_turn (se_api env) ph k (w\<lparr>fs_os := os\<rparr>))"
| "task_turn env os (Dav_request w) =
     after_dav (request_turn (se_dav env) (w\<lparr>dh_os := os\<rparr>))"
| "task_turn env os (Dav_body request res response w) =
     after_dav (dav_done (get_end (se_dav env) request res response (w\<lparr>dh_os := os\<rparr>)))"

record Running =
  rn_server :: Server
  rn_tasks :: "(io_context \<times> task) list"

section \<open>Accepting\<close>

definition with_os :: "os \<Rightarrow> Running \<Rightarrow> Running" where
  "with_os os rn = rn\<lparr>rn_server := (rn_server rn)\<lparr>sv_os := os\<rparr>\<rparr>"

definition add_task :: "io_context \<Rightarrow> task \<Rightarrow> Running \<Rightarrow> Running" where
  "add_task ctx t rn = rn\<lparr>rn_tasks := rn_tasks rn @ [(ctx, t)]\<rparr>"

text \<open>
  \<open>handle_ftp_connection\<close> and \<open>handle_webdav_connection\<close> up to the loop of the session or the handler.
\<close>

definition spawn :: "server_env \<Rightarrow> bool \<Rightarrow> io_context \<Rightarrow> sock \<Rightarrow> Running \<Rightarrow> Running" where
  "spawn env is_ftp ctx k rn =
     (let s = rn_server rn; root = root_directory (sv_config s)
      in case se_peer env k of
           Ret peer \<Rightarrow>
             if is_ftp
             then (case new_FTPSession k (se_net env) root (sv_os s) of
                     (Ret w, os) \<Rightarrow> add_task ctx (Ftp_greeting w) (with_os os rn)
                   | (_, os) \<Rightarrow> with_os os rn)
             else add_task ctx (Dav_request (new_handler k (sv_os s) root)) rn
         | _ \<Rightarrow> rn)"

definition accept_task :: "server_env \<Rightarrow> bool \<Rightarrow> io_context \<Rightarrow> exn + sock \<Rightarrow> Running \<Rightarrow> Running" where
  "accept_task env is_ftp ctx r rn =
     (let s = rn_server rn
      in if g_stop s \<or> ctx \<in> set (stopped (io_pool s)) then rn
         else
           (case r of
              Inl e \<Rightarrow> rn\<lparr>rn_server := accept_turn env is_ftp ctx r s\<rparr>
            | Inr k \<Rightarrow>
                spawn env is_ftp ctx k (rn\<lparr>rn_server := s\<lparr>served_on := served_on s @ [(is_ftp, ctx)]\<rparr>\<rparr>)))"

fun arrive_task :: "server_env \<Rightarrow> arrival \<Rightarrow> Running \<Rightarrow> Running" where
  "arrive_task env (Ftp_arrival r) rn =
     (case ftp_acceptor (rn_server rn) of Some ctx \<Rightarrow> accept_task env True ctx r rn | None \<Rightarrow> rn)"
| "arrive_task env (Dav_arrival r) rn =
     (case webdav_acceptor (rn_server rn) of Some ctx \<Rightarrow> accept_task env False ctx r rn | None \<Rightarrow> rn)"
| "arrive_task env (Signal n) rn = rn\<lparr>rn_server := arrive env (Signal n) (rn_server rn)\<rparr>"

section \<open>Steps\<close>

text \<open>A context runs its coroutines until it is stopped.\<close>

inductive turn_step :: "server_env \<Rightarrow> Running \<Rightarrow> Running \<Rightarrow> bool" for env where
  goes_on:
    "rn_tasks rn = ts @ (ctx, t) # us \<Longrightarrow> ctx \<notin> set (stopped (io_pool (rn_server rn))) \<Longrightarrow>
     task_turn env (sv_os (rn_server rn)) t = (os, Some t') \<Longrightarrow>
     turn_step env rn ((with_os os rn)\<lparr>rn_tasks := ts @ (ctx, t') # us\<rparr>)"
| ends:
    "rn_tasks rn = ts @ (ctx, t) # us \<Longrightarrow> ctx \<notin> set (stopped (io_pool (rn_server rn))) \<Longrightarrow>
     task_turn env (sv_os (rn_server rn)) t = (os, None) \<Longrightarrow>
     turn_step env rn ((with_os os rn)\<lparr>rn_tasks := ts @ us\<rparr>)"

inductive server_step :: "server_env \<Rightarrow> Running \<Rightarrow> Running \<Rightarrow> bool" for env where
  arrives: "server_step env rn (arrive_task env a rn)"
| turn: "turn_step env rn rn' \<Longrightarrow> server_step env rn rn'"

inductive_cases turn_stepE: "turn_step env rn rn'"
inductive_cases server_stepE: "server_step env rn rn'"

inductive reachable :: "server_env \<Rightarrow> Running \<Rightarrow> Running \<Rightarrow> bool" for env start where
  refl: "reachable env start start"
| step: "reachable env start rn \<Longrightarrow> server_step env rn rn' \<Longrightarrow> reachable env start rn'"

lemma reachable_trans: "reachable env b c \<Longrightarrow> reachable env a b \<Longrightarrow> reachable env a c"
  by (induction rule: reachable.induct) (auto intro: reachable.step)

lemma with_os_simps [simp]:
  "rn_tasks (with_os os rn) = rn_tasks rn" "rn_server (with_os os rn) = (rn_server rn)\<lparr>sv_os := os\<rparr>"
  "rn_tasks (add_task ctx t rn) = rn_tasks rn @ [(ctx, t)]" "rn_server (add_task ctx t rn) = rn_server rn"
  by (simp_all add: with_os_def add_task_def)

section \<open>Every schedule ends\<close>

text \<open>
  What a coroutine has left is ordered by the input that has arrived on its connection, then by where
  it stands in a command, then by the bytes a download may still send or the input on the data
  connection of an upload.
\<close>

fun input_left :: "task \<Rightarrow> nat" where
  "input_left (Ftp_greeting w) = pending (fs_control w)"
| "input_left (Ftp_command w) = pending (fs_control w)"
| "input_left (Ftp_transfer ph k w) = pending (fs_control w)"
| "input_left (Dav_request w) = handler_pending w"
| "input_left (Dav_body request res response w) = handler_pending w"

fun stage :: "task \<Rightarrow> nat" where
  "stage (Ftp_greeting w) = 3"
| "stage (Ftp_transfer ph k w) = Suc (rank ph)"
| "stage (Dav_body request res response w) = 1"
| "stage t = 0"

fun transfer_left :: "task \<Rightarrow> nat" where
  "transfer_left (Ftp_transfer ph k w) = unsent ph"
| "transfer_left t = 0"

fun data_left :: "task \<Rightarrow> nat" where
  "data_left (Ftp_transfer ph k w) = pending k"
| "data_left t = 0"

definition task_order :: "(task \<times> task) set" where
  "task_order = measures [input_left, stage, transfer_left, data_left]"

lemma wf_task_order: "wf task_order"
  by (simp add: task_order_def)

lemma send_pending: "pending (fs_control (snd (send_response api c m w))) = pending (fs_control w)"
  using preservesD [OF same_input_send, of w api c m] by (simp add: same_input_def pending_def)

lemma turn_left: "task_turn env os t = (os', Some t') \<Longrightarrow> (t', t) \<in> task_order"
proof (cases t)
  case (Ftp_greeting w)
  then show "task_turn env os t = (os', Some t') \<Longrightarrow> ?thesis"
    using send_pending [of "se_api env" ServiceReady "''FTP Server ready''" "w\<lparr>fs_os := os\<rparr>"]
    by (auto simp: task_order_def split: prod.splits outcome.splits)
next
  case (Ftp_command w)
  then show "task_turn env os t = (os', Some t') \<Longrightarrow> ?thesis"
    using command_turn_pending [of "se_api env" "w\<lparr>fs_os := os\<rparr>"]
    by (auto simp: task_order_def elim!: after_piece.elims split: if_splits)
next
  case (Ftp_transfer ph k w)
  then show "task_turn env os t = (os', Some t') \<Longrightarrow> ?thesis"
    using transfer_turn_pending [of "se_api env" ph k "w\<lparr>fs_os := os\<rparr>"] transfer_turn_falls
    by (fastforce simp: task_order_def phase_order_def elim!: after_piece.elims)
next
  case (Dav_request w)
  then show "task_turn env os t = (os', Some t') \<Longrightarrow> ?thesis"
    using request_turn_pending [of "se_dav env" "w\<lparr>dh_os := os\<rparr>"]
    by (auto simp: task_order_def elim!: after_dav.elims split: if_splits)
next
  case (Dav_body request res response w)
  let ?x = "get_end (se_dav env) request res response (w\<lparr>dh_os := os\<rparr>)"
  have "same_script (w\<lparr>dh_os := os\<rparr>) (snd ?x)" by (rule preservesD [OF same_script_get(2)])
  then have "handler_pending (snd ?x) = handler_pending w" using handler_pending_script by fastforce
  then show "task_turn env os t = (os', Some t') \<Longrightarrow> ?thesis"
    using Dav_body by (auto simp: task_order_def dav_done_def elim!: after_dav.elims split: if_splits)
qed

definition work :: "Running \<Rightarrow> task multiset" where
  "work rn = mset (map snd (rn_tasks rn))"

lemma turn_step_work: "turn_step env rn rn' \<Longrightarrow> (work rn', work rn) \<in> mult task_order"
proof (erule turn_stepE)
  fix ts ctx t us os t'
  assume "rn' = (with_os os rn)\<lparr>rn_tasks := ts @ (ctx, t') # us\<rparr>" and "rn_tasks rn = ts @ (ctx, t) # us"
    and "task_turn env (sv_os (rn_server rn)) t = (os, Some t')"
  then have "(t', t) \<in> task_order" and w: "work rn' = mset (map snd (ts @ us)) + {#t'#}"
    "work rn = mset (map snd (ts @ us)) + {#t#}" using turn_left by (simp_all add: work_def)
  then show ?thesis unfolding w by (intro one_step_implies_mult) auto
next
  fix ts ctx t us os
  assume "rn' = (with_os os rn)\<lparr>rn_tasks := ts @ us\<rparr>" and "rn_tasks rn = ts @ (ctx, t) # us"
  then have w: "work rn' = mset (map snd (ts @ us)) + {#}" "work rn = mset (map snd (ts @ us)) + {#t#}"
    by (simp_all add: work_def)
  then show ?thesis unfolding w by (intro one_step_implies_mult) auto
qed

text \<open>
  C9: No schedule runs for ever on the connections accepted so far: whatever the order of the
  turns, there are no infinite sequences of them. A turn takes input that has arrived from its
  connection, or goes on with a command, or sends some of the bytes that a download may send, also
  when the file grows meanwhile. A turn that waits for ever, for input that does not come or in a copy
  that does not end, counts as the last one of its connection.
\<close>

theorem turns_end: "wfP (\<lambda>rn' rn. turn_step env rn rn')"
proof -
  have "wf (inv_image (mult task_order) work)" using wf_mult [OF wf_task_order] by (rule wf_inv_image)
  then have "wf {(rn', rn). turn_step env rn rn'}"
    by (rule wf_subset) (use turn_step_work in auto)
  then show ?thesis by (simp add: wfp_def)
qed

section \<open>Files outside the root\<close>

fun task_inv :: "loc \<Rightarrow> os \<Rightarrow> task \<Rightarrow> bool" where
  "task_inv r os (Ftp_greeting w) \<longleftrightarrow>
     st_root_directory (fs_state w) = loc_str r \<and> remembered r os (st_rename_from_path (fs_state w))"
| "task_inv r os (Ftp_command w) \<longleftrightarrow>
     st_root_directory (fs_state w) = loc_str r \<and> remembered r os (st_rename_from_path (fs_state w))"
| "task_inv r os (Ftp_transfer ph k w) \<longleftrightarrow>
     st_root_directory (fs_state w) = loc_str r \<and> remembered r os (st_rename_from_path (fs_state w)) \<and> phase_inv r ph"
| "task_inv r os (Dav_request w) \<longleftrightarrow> full_loc os (dh_root w) = r"
| "task_inv r os (Dav_body request res response w) \<longleftrightarrow> full_loc os (dh_root w) = r"

definition running_inv :: "loc \<Rightarrow> os \<Rightarrow> Running \<Rightarrow> bool" where
  "running_inv r os0 rn \<longleftrightarrow> server_inv r os0 (rn_server rn)
     \<and> list_all (\<lambda>(ctx, t). task_inv r (sv_os (rn_server rn)) t) (rn_tasks rn)"

text \<open>What other coroutines do to the files keeps the invariant of one that waits.\<close>

lemma task_inv_mono: "task_inv r os t \<Longrightarrow> no_new_links os os' \<Longrightarrow> same_cwd os os' \<Longrightarrow> task_inv r os' t"
  by (cases t) (auto simp: full_loc_cwd intro: remembered_mono)

text \<open>What one turn does, for a task that waits in a state that others have changed since.\<close>

definition turned :: "loc \<Rightarrow> os \<Rightarrow> os \<Rightarrow> os \<times> task option \<Rightarrow> bool" where
  "turned r os0 os res \<longleftrightarrow> kept r os0 (fst res) \<and> no_new_links os (fst res) \<and> same_cwd os (fst res)
     \<and> pred_option (task_inv r (fst res)) (snd res)"

lemma ftp_turned:
  assumes k: "kept r os0 os" and i: "session_inv r os (snd x)"
    and e: "res = (fs_os (snd x), case fst x of Ret u \<Rightarrow> Some (Ftp_command (snd x)) | _ \<Rightarrow> None)"
  shows "turned r os0 os res"
proof -
  have c: "confined r os (fs_os (snd x))" using i by (simp add: session_inv_def)
  then show ?thesis
    using i kept_confined [OF k c] unfolding e turned_def
    by (cases "fst x") (simp_all add: session_inv_def confined_def)
qed

lemma piece_turned:
  assumes k: "kept r os0 os" and i: "progress_inv r os p"
  shows "turned r os0 os (after_piece p)"
proof -
  obtain w where w: "fst (after_piece p) = fs_os w" "session_inv r os w"
    using i by (cases p rule: after_piece.cases) auto
  then have "confined r os (fs_os w)" by (simp add: session_inv_def)
  then show ?thesis
    using i w(1) kept_confined [OF k] unfolding turned_def
    by (cases p rule: after_piece.cases) (simp_all add: session_inv_def confined_def)
qed

lemma dav_turned:
  assumes k: "kept r os0 os" and i: "dav_inv r os (dav_session p)"
  shows "turned r os0 os (after_dav p)"
proof -
  have c: "contained r os (dh_os (dav_session p))" using i by (simp add: dav_inv_def)
  then show ?thesis
    using kept_contained [OF k c] i unfolding turned_def
    by (cases p rule: after_dav.cases) (simp_all add: contained_def dav_inv_def)
qed

lemma turn_turned:
  assumes k: "kept r os0 os" and v: "valid_loc r" and t: "task_inv r os t"
  shows "turned r os0 os (task_turn env os t)"
proof -
  have os: "wf_os os" "linkless os r" "link_free r os" "plain_os os"
    using k by (simp_all add: kept_def link_free_def)
  have session: "session_inv r os (w\<lparr>fs_os := os\<rparr>)"
    if "st_root_directory (fs_state w) = loc_str r" "remembered r os (st_rename_from_path (fs_state w))" for w
    using os v that confined_refl by (simp add: session_inv_def)
  show ?thesis
  proof (cases t)
    case (Ftp_greeting w)
    let ?x = "send_response (se_api env) ServiceReady ''FTP Server ready'' (w\<lparr>fs_os := os\<rparr>)"
    have "session_inv r os (snd ?x)"
      using hoareD [OF hoare_send [where P = "\<lambda>_. True"] session [of w]] t Ftp_greeting by simp
    then have "turned r os0 os (fs_os (snd ?x), case fst ?x of Ret u \<Rightarrow> Some (Ftp_command (snd ?x)) | _ \<Rightarrow> None)"
      by (intro ftp_turned [OF k]) auto
    then show ?thesis using Ftp_greeting by (auto split: prod.splits outcome.splits)
  next
    case (Ftp_command w)
    have "turned r os0 os (after_piece (command_turn (se_api env) (w\<lparr>fs_os := os\<rparr>)))"
      using t Ftp_command by (intro piece_turned [OF k] command_turn_inv session) auto
    then show ?thesis using k Ftp_command by (simp add: turned_def no_new_links_def)
  next
    case (Ftp_transfer ph d w)
    then have "progress_inv r os (transfer_turn (se_api env) ph d (w\<lparr>fs_os := os\<rparr>))"
      using t by (intro transfer_turn_inv session) auto
    then show ?thesis using piece_turned [OF k] Ftp_transfer by simp
  next
    case (Dav_request w)
    let ?w = "w\<lparr>dh_os := os\<rparr>"
    have "dav_inv r os (dav_session (request_turn (se_dav env) ?w))"
      using os v t Dav_request contained_refl
      by (intro request_turn_inv) (simp add: dav_inv_def)
    then show ?thesis using dav_turned [OF k, of "request_turn (se_dav env) ?w"] Dav_request by simp
  next
    case (Dav_body request res response w)
    let ?w = "w\<lparr>dh_os := os\<rparr>" and ?x = "get_end (se_dav env) request res response (w\<lparr>dh_os := os\<rparr>)"
    have "dav_inv r os ?w" using os v t Dav_body contained_refl by (simp add: dav_inv_def)
    then have "dav_inv r os (snd ?x)" using hoareD [OF dav_hoare_end [where P = "\<lambda>_. True"]] by blast
    then show ?thesis using dav_turned [OF k, of "dav_done ?x"] Dav_body by (simp add: dav_done_def)
  qed
qed

lemma task_turned_steps:
  assumes i: "running_inv r os0 rn" and ts: "rn_tasks rn = ts @ (ctx, t) # us"
    and tt: "task_turn env (sv_os (rn_server rn)) t = (os, mt)"
  shows "running_inv r os0 ((with_os os rn)\<lparr>rn_tasks := ts @ (case mt of Some t' \<Rightarrow> [(ctx, t')] | None \<Rightarrow> []) @ us\<rparr>)"
proof -
  let ?os = "sv_os (rn_server rn)"
  have s: "kept r os0 ?os" "valid_loc r" "full_loc ?os (root_directory (sv_config (rn_server rn))) = r" "task_inv r ?os t"
    "list_all (\<lambda>(ctx, t). task_inv r ?os t) (ts @ us)"
    using i ts by (auto simp: running_inv_def server_inv_def)
  have srv: "server_inv r os0 (rn_server rn)" using i by (simp add: running_inv_def)
  have td: "turned r os0 ?os (os, mt)" using turn_turned [OF s(1,2,4), of env] tt by simp
  then have "list_all (\<lambda>(ctx, t). task_inv r os t) (ts @ us)"
    using s(5) task_inv_mono by (fastforce simp: turned_def list_all_iff)
  then show ?thesis
    using td server_inv_files [OF srv] by (cases mt) (simp_all add: running_inv_def turned_def)
qed

lemma spawn_inv:
  assumes i: "running_inv r os0 rn" shows "running_inv r os0 (spawn env f ctx k rn)"
proof -
  let ?os = "sv_os (rn_server rn)" and ?root = "root_directory (sv_config (rn_server rn))"
  have s: "kept r os0 ?os" "full_loc ?os ?root = r" using i by (simp_all add: running_inv_def server_inv_def)
  obtain x os where n: "new_FTPSession k (se_net env) ?root ?os = (x, os)"
    by (cases "new_FTPSession k (se_net env) ?root ?os")
  have "task_inv r ?os (Ftp_greeting w)" if x: "x = Ret w" for w
    using new_session_root(2) [OF s n x] by (auto simp: session_inv_def)
  then show ?thesis
    using i n new_session_root(1) [OF s n] s(2)
    by (auto simp: spawn_def Let_def running_inv_def server_inv_def new_handler_def split: outcome.splits)
qed

lemma running_inv_server:
  "server_inv r os0 (f (rn_server rn)) \<Longrightarrow> sv_os (f (rn_server rn)) = sv_os (rn_server rn) \<Longrightarrow>
     running_inv r os0 rn \<Longrightarrow> running_inv r os0 (rn\<lparr>rn_server := f (rn_server rn)\<rparr>)"
  by (simp add: running_inv_def)

lemma accept_inv: "running_inv r os0 rn \<Longrightarrow> running_inv r os0 (accept_task env f ctx x rn)"
proof -
  assume i: "running_inv r os0 rn"
  then have s: "server_inv r os0 (rn_server rn)" by (simp add: running_inv_def)
  have e: "sv_os (accept_turn env f ctx (Inl e) s) = sv_os s" for e s
    by (simp add: accept_turn_def)
  have "running_inv r os0 (rn\<lparr>rn_server := (rn_server rn)\<lparr>served_on := v\<rparr>\<rparr>)" for v
    using i by (simp add: running_inv_def)
  then show ?thesis
    using i s e running_inv_server [of r os0 "accept_turn env f ctx x" rn] turn_inv [OF s]
    by (auto simp: accept_task_def Let_def intro: spawn_inv split: sum.splits)
qed

lemma step_inv: "server_step env rn rn' \<Longrightarrow> running_inv r os0 rn \<Longrightarrow> running_inv r os0 rn'"
proof (erule server_stepE)
  fix a
  assume i: "running_inv r os0 rn" and a: "rn' = arrive_task env a rn"
  have "running_inv r os0 (arrive_task env (Signal n) rn)" for n
    using i by (simp add: running_inv_def stop_server_def server_inv_def)
  then show "running_inv r os0 rn'"
    unfolding a using i by (cases a) (auto intro: accept_inv split: option.splits)
next
  assume i: "running_inv r os0 rn" and "turn_step env rn rn'"
  then show "running_inv r os0 rn'"
    using task_turned_steps [OF i] by (elim turn_stepE) fastforce+
qed

lemma reachable_inv: "reachable env rn0 rn \<Longrightarrow> running_inv r os0 rn0 \<Longrightarrow> running_inv r os0 rn"
  by (induction rule: reachable.induct) (auto intro: step_inv)

text \<open>
  C3: However the connections of the two servers interleave, command by command, block by block of
  their transfers and request by request, and whatever their clients send: the file system stays well
  formed, and every location that is neither in the root directory nor beside it under a name extending
  the root's is unchanged. The configured root directory exists and its text, relative or not, leads to
  it through no symbolic link; at the start no link lies in that region or above it, and no name has a
  colon, which Windows ensures.
\<close>

theorem interleaved_confined:
  assumes "reachable env \<lparr>rn_server = s, rn_tasks = []\<rparr> rn"
    and "wf_os (sv_os s)" and "follow (sv_os s) (root_directory (sv_config s)) = Inr r"
    and "full_loc (sv_os s) (root_directory (sv_config s)) = r"
    and "link_free r (sv_os s)" and "plain_os (sv_os s)"
  shows "wf_os (sv_os (rn_server rn))
    \<and> (\<forall>l. \<not> below r l \<and> \<not> beside r l \<longrightarrow> lookup (sv_os (rn_server rn)) l = lookup (sv_os s) l)"
proof -
  have "running_inv r (sv_os s) \<lparr>rn_server = s, rn_tasks = []\<rparr>"
    using server_inv_start [OF assms(2-6)] by (simp add: running_inv_def)
  then have "running_inv r (sv_os s) rn" by (rule reachable_inv [OF assms(1)])
  then show ?thesis by (simp add: running_inv_def server_inv_def kept_def region_def)
qed

lemma some_turn:
  assumes "rn_tasks rn = ts @ (ctx, t) # us" and "ctx \<notin> set (stopped (io_pool (rn_server rn)))"
  obtains rn' where "turn_step env rn rn'" "\<exists>vs. rn_tasks rn' = ts @ vs @ us"
proof (cases "snd (task_turn env (sv_os (rn_server rn)) t)")
  case None
  then show ?thesis
    using that [OF turn_step.ends [OF assms]] by (metis append_Nil prod.collapse select_convs(2) surjective update_convs(2))
next
  case (Some t')
  then show ?thesis
    using that [OF turn_step.goes_on [OF assms]]
    by (metis append_Cons append_Nil prod.collapse select_convs(2) surjective update_convs(2))
qed

definition ftp_client :: sock where
  "ftp_client = idle_sock\<lparr>to_read := [Inr (''USER a'' @ crlf), Inr (''PASS b'' @ crlf), Inr (''DELE .'' @ crlf)]\<rparr>"

definition dav_client :: sock where
  "dav_client = client_sock [Inr (''DELETE / HTTP/1.1'' @ blank_line)]"

text \<open>Both clients are connected, and the WebDAV request is served between the turns of the session.\<close>

lemma two_connected:
  "\<exists>w d s. reachable sample_server_env \<lparr>rn_server = sample_server, rn_tasks = []\<rparr>
     \<lparr>rn_server = s, rn_tasks = [(0, Ftp_greeting w), (1, Dav_request d)]\<rparr> \<and> stopped (io_pool s) = []"
proof -
  let ?rn = "\<lparr>rn_server = sample_server, rn_tasks = []\<rparr>"
  obtain w where w: "new_FTPSession ftp_client open_net served sample_os = (Ret w, sample_os)"
    using new_sample_session unfolding ftp_client_def by blast
  let ?b = "arrive_task sample_server_env (Dav_arrival (Inr dav_client))
    (arrive_task sample_server_env (Ftp_arrival (Inr ftp_client)) ?rn)"
  have "reachable sample_server_env ?rn ?b"
    by (blast intro: reachable.intros server_step.arrives)
  moreover have "\<exists>d s. ?b = \<lparr>rn_server = s, rn_tasks = [(0, Ftp_greeting w), (1, Dav_request d)]\<rparr>
      \<and> stopped (io_pool s) = []"
    using w by (simp add: accept_task_def spawn_def sample_server_def sample_server_env_def Let_def add_task_def with_os_def)
  ultimately show ?thesis by metis
qed

lemma interleaved_confined_witness:
  "\<exists>rn. reachable sample_server_env \<lparr>rn_server = sample_server, rn_tasks = []\<rparr> rn
     \<and> (\<exists>w us. rn_tasks rn = (0, Ftp_greeting w) # us)
     \<and> lookup (sv_os (rn_server rn)) (''D:'', []) = Some (Directory plain_attr)"
proof -
  obtain w d s where c: "reachable sample_server_env \<lparr>rn_server = sample_server, rn_tasks = []\<rparr>
      \<lparr>rn_server = s, rn_tasks = [(0, Ftp_greeting w), (1, Dav_request d)]\<rparr>" "stopped (io_pool s) = []"
    using two_connected by blast
  obtain rn where t: "turn_step sample_server_env
      \<lparr>rn_server = s, rn_tasks = [(0, Ftp_greeting w), (1, Dav_request d)]\<rparr> rn"
      "\<exists>vs. rn_tasks rn = [(0, Ftp_greeting w)] @ vs @ []"
    by (rule some_turn [of "\<lparr>rn_server = s, rn_tasks = [(0, Ftp_greeting w), (1, Dav_request d)]\<rparr>"
        "[(0, Ftp_greeting w)]" 1 "Dav_request d" "[]"]) (simp_all add: c(2))
  have rn: "reachable sample_server_env \<lparr>rn_server = sample_server, rn_tasks = []\<rparr> rn"
    using c(1) t(1) by (blast intro: reachable.step server_step.turn)
  have os: "sv_os sample_server = sample_os" by (simp add: sample_server_def)
  have "lookup sample_os (''D:'', []) = Some (Directory plain_attr)"
    by (simp add: lookup_def sample_os_def)
  then have "lookup (sv_os (rn_server rn)) (''D:'', []) = Some (Directory plain_attr)"
    using interleaved_confined [OF rn, of "(''D:'', [''ftp''])"] wf_sample_os sample_link_free sample_plain sample_root
    by (simp add: os below_def beside_def name_extends_def)
  then show ?thesis using rn t(2) by auto
qed

text \<open>What the coroutine has open.\<close>

fun opens_in :: "loc \<Rightarrow> task \<Rightarrow> bool" where
  "opens_in r (Ftp_transfer (Sending f n) k w) \<longleftrightarrow> (\<exists>l. nt_fp (af_rawfile f) = Some l \<and> (below r l \<or> beside r l))"
| "opens_in r (Ftp_transfer (Receiving f n) k w) \<longleftrightarrow> (\<exists>l. nt_fp (af_rawfile f) = Some l \<and> (below r l \<or> beside r l))"
| "opens_in r t \<longleftrightarrow> True"

lemma task_opens: "task_inv r os t \<Longrightarrow> opens_in r t"
  by (cases "(r, t)" rule: opens_in.cases) (simp_all add: open_in_def region_def)

section \<open>One connection after another\<close>

lemma step_one: "turn_step env rn rn' \<Longrightarrow> reachable env rn' rn'' \<Longrightarrow> reachable env rn rn''"
  by (rule reachable_trans, assumption) (blast intro: reachable.intros server_step.turn)

definition alone :: "Server \<Rightarrow> os \<Rightarrow> (io_context \<times> task) list \<Rightarrow> Running" where
  "alone s os ts = \<lparr>rn_server = s\<lparr>sv_os := os\<rparr>, rn_tasks = ts\<rparr>"

lemma alone_turn:
  assumes "ctx \<notin> set (stopped (io_pool s))" and "task_turn env os t = (os', mt)"
    and "reachable env (alone s os' (case mt of Some t' \<Rightarrow> [(ctx, t')] | None \<Rightarrow> [])) rn"
  shows "reachable env (alone s os [(ctx, t)]) rn"
proof (cases mt)
  case None
  have "turn_step env (alone s os [(ctx, t)]) ((with_os os' (alone s os [(ctx, t)]))\<lparr>rn_tasks := [] @ []\<rparr>)"
    by (rule turn_step.ends [where t = t and ctx = ctx]) (use assms None in \<open>simp_all add: alone_def\<close>)
  then show ?thesis using assms(3) None step_one by (fastforce simp: alone_def with_os_def)
next
  case (Some t')
  have "turn_step env (alone s os [(ctx, t)]) ((with_os os' (alone s os [(ctx, t)]))\<lparr>rn_tasks := [] @ (ctx, t') # []\<rparr>)"
    by (rule turn_step.goes_on [where t = t and ctx = ctx]) (use assms Some in \<open>simp_all add: alone_def\<close>)
  then show ?thesis using assms(3) Some step_one by (fastforce simp: alone_def with_os_def)
qed

text \<open>
  What the loops of the two servers have in common: \<open>one\<close> is one turn on a session or handler that
  holds the shared files, with whether the loop goes on, and \<open>run\<close> the whole loop. The contract is
  that the turns of the coroutine come to \<open>one\<close>, that \<open>run\<close> repeats it, and that a measure falls.
\<close>

locale conversation =
  fixes env :: server_env and one :: "'s \<Rightarrow> bool outcome \<times> 's" and run :: "'s \<Rightarrow> unit outcome \<times> 's"
    and files :: "'s \<Rightarrow> os" and put :: "os \<Rightarrow> 's \<Rightarrow> 's" and wrap :: "'s \<Rightarrow> task" and mu :: "'s \<Rightarrow> nat"
  assumes turns: "ctx \<notin> set (stopped (io_pool s)) \<Longrightarrow>
      reachable env (alone s os [(ctx, wrap w)])
        (alone s (files (snd (one (put os w))))
          (if fst (one (put os w)) = Ret True then [(ctx, wrap (snd (one (put os w))))] else []))"
    and run: "snd (run w) = (if fst (one w) = Ret True then snd (run (snd (one w))) else snd (one w))"
    and put_files: "put (files w) w = w"
    and falls: "one w = (Ret True, w') \<Longrightarrow> mu w' < mu w"
begin

lemma runs_alone:
  assumes "ctx \<notin> set (stopped (io_pool s))"
  shows "reachable env (alone s os [(ctx, wrap w)]) (alone s (files (snd (run (put os w)))) [])"
proof -
  have "reachable env (alone s os [(ctx, wrap w)]) (alone s (files (snd (run v))) [])" if "put os w = v" for v
    using that
  proof (induction "mu v" arbitrary: os w v rule: less_induct)
    case less
    obtain r v1 where o: "one v = (r, v1)" by (cases "one v")
    note t = turns [OF assms, of os w]
    show ?case
    proof (cases "r = Ret True")
      case True
      have "reachable env (alone s (files v1) [(ctx, wrap v1)]) (alone s (files (snd (run v1))) [])"
        using less(1) [OF falls put_files] o True by blast
      then show ?thesis using True o less(2) t run [of v] by (auto intro: reachable_trans)
    next
      case False
      then show ?thesis using o less(2) t run [of v] by simp
    qed
  qed
  then show ?thesis by blast
qed

end

definition ftp_one :: "winapi \<Rightarrow> FTPSession \<Rightarrow> bool outcome \<times> FTPSession" where
  "ftp_one api w =
     (if fs_active w
      then (case process_one_command api w of
              (Ret _, w') \<Rightarrow> (Ret True, w') | (Exn e, w') \<Rightarrow> (Exn e, w') | (Hang, w') \<Rightarrow> (Hang, w'))
      else (Ret False, w))"

lemma resume_alone:
  assumes c: "ctx \<notin> set (stopped (io_pool s))"
  shows "resume (se_api env) p = (x, v) \<Longrightarrow>
    reachable env (alone s (fst (after_piece p)) (case snd (after_piece p) of Some t \<Rightarrow> [(ctx, t)] | None \<Rightarrow> []))
      (alone s (fs_os v) (case x of Ret u \<Rightarrow> [(ctx, Ftp_command v)] | _ \<Rightarrow> []))"
proof (induction "se_api env" p rule: resume.induct)
  case (1 y w)
  then show ?case by (cases y) (auto simp: reachable.refl)
next
  case (2 ph k w)
  have w: "w\<lparr>fs_os := fs_os w\<rparr> = w" by simp
  show ?case
    using 2 w by (auto intro!: alone_turn [OF c, where os' = "fst (after_piece (transfer_turn (se_api env) ph k w))"
          and mt = "snd (after_piece (transfer_turn (se_api env) ph k w))"])
qed

lemma ftp_turns:
  assumes c: "ctx \<notin> set (stopped (io_pool s))"
  shows "reachable env (alone s os [(ctx, Ftp_command w)])
    (alone s (fs_os (snd (ftp_one (se_api env) (w\<lparr>fs_os := os\<rparr>))))
      (if fst (ftp_one (se_api env) (w\<lparr>fs_os := os\<rparr>)) = Ret True
       then [(ctx, Ftp_command (snd (ftp_one (se_api env) (w\<lparr>fs_os := os\<rparr>))))] else []))"
proof (cases "fs_active w")
  case True
  let ?w = "w\<lparr>fs_os := os\<rparr>" and ?p = "command_turn (se_api env) (w\<lparr>fs_os := os\<rparr>)"
  obtain x v where x: "resume (se_api env) ?p = (x, v)" by (cases "resume (se_api env) ?p")
  then have "process_one_command (se_api env) ?w = (x, v)" by (simp add: pieces_run)
  moreover have "reachable env (alone s os [(ctx, Ftp_command w)])
      (alone s (fs_os v) (case x of Ret u \<Rightarrow> [(ctx, Ftp_command v)] | _ \<Rightarrow> []))"
    by (rule alone_turn [OF c _ resume_alone [OF c x]]) (simp add: True)
  ultimately show ?thesis using True by (cases x) (simp_all add: ftp_one_def)
next
  case False
  then show ?thesis by (intro alone_turn [OF c, where os' = os and mt = None]) (simp_all add: ftp_one_def reachable.refl)
qed

lemma dav_turns:
  assumes c: "ctx \<notin> set (stopped (io_pool s))"
  shows "reachable env (alone s os [(ctx, Dav_request w)])
    (alone s (dh_os (snd (one_request (se_dav env) (w\<lparr>dh_os := os\<rparr>))))
      (if fst (one_request (se_dav env) (w\<lparr>dh_os := os\<rparr>)) = Ret True
       then [(ctx, Dav_request (snd (one_request (se_dav env) (w\<lparr>dh_os := os\<rparr>))))] else []))"
proof -
  let ?w = "w\<lparr>dh_os := os\<rparr>" and ?p = "request_turn (se_dav env) (w\<lparr>dh_os := os\<rparr>)"
  obtain x v where x: "dav_resume (se_dav env) ?p = (x, v)" by (cases "dav_resume (se_dav env) ?p")
  then have one: "one_request (se_dav env) ?w = (x, v)" by (simp add: dav_pieces_run)
  let ?last = "alone s (dh_os v) (if x = Ret True then [(ctx, Dav_request v)] else [])"
  have fin: "reachable env (alone s (fst (after_dav (Dav_finished x v)))
      (case snd (after_dav (Dav_finished x v)) of Some t \<Rightarrow> [(ctx, t)] | None \<Rightarrow> [])) ?last"
    by (cases x) (auto simp: reachable.refl)
  have r: "reachable env (alone s (fst (after_dav ?p)) (case snd (after_dav ?p) of Some t \<Rightarrow> [(ctx, t)] | None \<Rightarrow> [])) ?last"
  proof (cases ?p)
    case (Dav_finished y u)
    then show ?thesis using fin x by simp
  next
    case (Dav_waits request res response u)
    have "u\<lparr>dh_os := dh_os u\<rparr> = u" by simp
    then have t: "task_turn env (dh_os u) (Dav_body request res response u) = after_dav (Dav_finished x v)"
      using x Dav_waits by (simp add: dav_done_def)
    show ?thesis
      using alone_turn [OF c, where os' = "fst (after_dav (Dav_finished x v))" and mt = "snd (after_dav (Dav_finished x v))"]
        t fin Dav_waits by simp
  qed
  show ?thesis
    unfolding one fst_conv snd_conv by (rule alone_turn [OF c _ r]) simp
qed

interpretation ftp_loop: conversation env "ftp_one (se_api env)" "session_loop (se_api env)" fs_os
  "\<lambda>os w. w\<lparr>fs_os := os\<rparr>" Ftp_command "\<lambda>w. pending (fs_control w)" for env
proof
  show "reachable env (alone s os [(ctx, Ftp_command w)])
      (alone s (fs_os (snd (ftp_one (se_api env) (w\<lparr>fs_os := os\<rparr>))))
        (if fst (ftp_one (se_api env) (w\<lparr>fs_os := os\<rparr>)) = Ret True
         then [(ctx, Ftp_command (snd (ftp_one (se_api env) (w\<lparr>fs_os := os\<rparr>))))] else []))"
    if "ctx \<notin> set (stopped (io_pool s))" for ctx s os w
    by (rule ftp_turns [OF that])
next
  fix w :: FTPSession
  show "snd (session_loop (se_api env) w)
    = (if fst (ftp_one (se_api env) w) = Ret True
       then snd (session_loop (se_api env) (snd (ftp_one (se_api env) w))) else snd (ftp_one (se_api env) w))"
    by (subst session_loop.simps) (simp add: ftp_one_def split: prod.splits outcome.splits)
qed (auto simp: ftp_one_def dest: process_one_pending split: prod.splits outcome.splits if_splits)

interpretation dav_loop: conversation env "one_request (se_dav env)" "handle_loop (se_dav env)" dh_os
  "\<lambda>os w. w\<lparr>dh_os := os\<rparr>" Dav_request handler_pending for env
proof
  fix w :: DavRequestHandler
  show "snd (handle_loop (se_dav env) w)
    = (if fst (one_request (se_dav env) w) = Ret True
       then snd (handle_loop (se_dav env) (snd (one_request (se_dav env) w))) else snd (one_request (se_dav env) w))"
    by (subst handle_loop.simps) (simp split: prod.splits outcome.splits)
qed (simp_all add: dav_turns one_request_pending)

lemma greeting_alone:
  assumes "ctx \<notin> set (stopped (io_pool s))" and "fs_os w = os"
  shows "reachable env (alone s os [(ctx, Ftp_greeting w)]) (alone s (fs_os (snd (start (se_api env) w))) [])"
proof -
  obtain x w1 where x: "send_response (se_api env) ServiceReady ''FTP Server ready'' w = (x, w1)"
    by (cases "send_response (se_api env) ServiceReady ''FTP Server ready'' w")
  have w: "w\<lparr>fs_os := os\<rparr> = w" using assms(2) by auto
  have t: "task_turn env os (Ftp_greeting w) = (fs_os w1, case x of Ret u \<Rightarrow> Some (Ftp_command w1) | _ \<Rightarrow> None)"
    using x w by (simp split: outcome.splits)
  have "reachable env (alone s (fs_os w1) [(ctx, Ftp_command w1)]) (alone s (fs_os (snd (session_loop (se_api env) w1))) [])"
    using ftp_loop.runs_alone [OF assms(1), of env "fs_os w1" w1] by simp
  then show ?thesis
    using x by (intro alone_turn [OF assms(1) t]) (cases x; simp add: start_def bindE_def reachable.refl)
qed

lemma arrive_alone:
  "reachable env \<lparr>rn_server = s, rn_tasks = []\<rparr> \<lparr>rn_server = arrive env a s, rn_tasks = []\<rparr>"
proof -
  let ?rn = "\<lparr>rn_server = s, rn_tasks = []\<rparr>"
  have first: "reachable env ?rn (arrive_task env a ?rn)"
    by (blast intro: reachable.intros server_step.arrives)
  have turn: "reachable env (accept_task env f ctx x ?rn) \<lparr>rn_server = accept_turn env f ctx x s, rn_tasks = []\<rparr>"
    for f ctx x
  proof (cases "g_stop s \<or> ctx \<in> set (stopped (io_pool s)) \<or> isl x")
    case True
    then show ?thesis
      by (cases x) (auto simp: accept_task_def accept_turn_def Let_def reachable.refl)
  next
    case False
    then obtain k where k: "x = Inr k" and c: "\<not> g_stop s" "ctx \<notin> set (stopped (io_pool s))" by (cases x) auto
    let ?s = "s\<lparr>served_on := served_on s @ [(f, ctx)]\<rparr>"
    have root: "root_directory (sv_config ?s) = root_directory (sv_config s)" by simp
    have same: "alone ?s (sv_os s) ts = \<lparr>rn_server = ?s, rn_tasks = ts\<rparr>" for ts by (simp add: alone_def)
    obtain y os where n: "new_FTPSession k (se_net env) (root_directory (sv_config s)) (sv_os s) = (y, os)"
      by (cases "new_FTPSession k (se_net env) (root_directory (sv_config s)) (sv_os s)")
    then have os: "os = sv_os s" "\<And>w. y = Ret w \<Longrightarrow> fs_os w = sv_os s"
      by (auto simp: new_FTPSession_def bindE_def fs_canonical_def or_throw_def split: sum.splits)
    have g: "reachable env \<lparr>rn_server = ?s, rn_tasks = [(ctx, Ftp_greeting w)]\<rparr>
        \<lparr>rn_server = ?s\<lparr>sv_os := fs_os (snd (start (se_api env) w))\<rparr>, rn_tasks = []\<rparr>" if "y = Ret w" for w
      using greeting_alone [of ctx ?s w "sv_os s" env] c(2) os(2) [OF that] by (simp add: alone_def)
    have d: "reachable env \<lparr>rn_server = ?s, rn_tasks = [(ctx, Dav_request w)]\<rparr>
        \<lparr>rn_server = ?s\<lparr>sv_os := dh_os (snd (handle_request (se_dav env) w))\<rparr>, rn_tasks = []\<rparr>"
      if "dh_os w = sv_os s" for w :: DavRequestHandler
    proof -
      have "w\<lparr>dh_os := sv_os s\<rparr> = w" by (simp add: that [symmetric])
      then show ?thesis
        using dav_loop.runs_alone [of ctx ?s env "sv_os s" w] c(2) by (simp add: alone_def handle_request_def)
    qed
    show ?thesis
      using c k n os g d
      by (cases y) (auto simp: accept_task_def accept_turn_def spawn_def Let_def add_task_def with_os_def
          handle_ftp_connection_def handle_webdav_connection_def new_handler_def reachable.refl split: outcome.splits)
  qed
  have "reachable env (arrive_task env a ?rn) \<lparr>rn_server = arrive env a s, rn_tasks = []\<rparr>"
    by (cases a) (auto simp: turn reachable.refl split: option.splits)
  then show ?thesis using first by (rule reachable_trans)
qed

lemma serve_all_alone:
  "reachable env \<lparr>rn_server = s, rn_tasks = []\<rparr> \<lparr>rn_server = serve_all env as s, rn_tasks = []\<rparr>"
proof (induction "as" arbitrary: s)
  case (Cons a "as")
  then show ?case using arrive_alone reachable_trans by fastforce
qed (simp add: reachable.refl)

text \<open>
  C10: Serving the connections one after another is one of the schedules: what \<open>serve_all\<close> makes of the
  server and its files can be reached in steps, with every coroutine finished at the end.
\<close>

theorem serve_all_is_schedule:
  "reachable env \<lparr>rn_server = s, rn_tasks = []\<rparr> \<lparr>rn_server = serve_all env as s, rn_tasks = []\<rparr>"
  by (rule serve_all_alone)

section \<open>A download under way\<close>

lemma one_turn:
  assumes "process_one_command (se_api env) a = (Ret (), b)" and "fs_active a" and "ctx \<notin> set (stopped (io_pool s))"
  shows "reachable env (alone s (fs_os a) [(ctx, Ftp_command a)]) (alone s (fs_os b) [(ctx, Ftp_command b)])"
proof -
  have "a\<lparr>fs_os := fs_os a\<rparr> = a" by simp
  moreover have "ftp_one (se_api env) a = (Ret True, b)" using assms(1,2) by (simp add: ftp_one_def)
  ultimately show ?thesis using ftp_turns [OF assms(3), of env "fs_os a" a] by simp
qed

text \<open>The turn that reads RETR ends when the data connection is there.\<close>

lemma retr_waits:
  assumes api: "ascii_api api" and q: "quiet (fs_control w)" and n: "plain_line name" "length name < 900"
    and s: "st_authenticated (fs_state w)" "st_data_conn_type (fs_state w) = ACTIVE"
    and a: "address_error (dm_net (fs_manager w)) (st_data_conn_host (fs_state w)) = None"
    and o: "outgoing (dm_net (fs_manager w)) = Inr k # ks"
  shows "\<exists>rs out'. command_turn api (talk w (client_lines ((''RETR '' @ name) # ls)) out)
    = Waits (Connected Download name) k (talk (connected_to ks w) rs out')"
proof -
  let ?line = "''RETR'' @ CHR '' '' # name" and ?rs = "client_lines ls"
  let ?t = "''150 Opening BINARY mode data connection for file transfer'' @ crlf"
  have v: "is_ascii_text ''RETR''" "CHR '' '' \<notin> set ''RETR''" "to_Upper ''RETR'' = ''RETR''" by (code_simp, simp, code_simp)
  have l: "plain_line ?line" by (rule plain_line_verb [OF n(1) v(1)]) (use n(2) in simp_all)
  then have "read_command (talk w (Inr (?line @ crlf) # ?rs) out) = (Ret ?line, talk w ?rs out)"
    by (intro read_line) (simp_all add: plain_line_def)
  moreover have "transfer_request api ?line (talk w ?rs out) = Some (Download, name)"
  proof -
    have "encode_narrow api Char_t Char8_t ?line = Ret ?line" and "trim_command ?line = ?line"
      using l encode_narrow_ascii(1) [OF api] trim_plain by (auto simp: plain_line_def)
    moreover have "parseCmd ?line (CHR '' '') = [''RETR'', name]" by (rule parseCmd_word [OF v(2)])
    moreover have "name \<noteq> []" using n(1) by (simp add: plain_line_def)
    ultimately show ?thesis using s(1) v(3) by (simp add: transfer_request_def transfer_of_def Let_def)
  qed
  moreover have "open_transfer api Download (talk w ?rs out) = (Ret k, talk (connected_to ks w) ?rs (out @ ?t))"
  proof -
    have t: "response_text DataConnectionOpen (opening_text Download) = ?t" "is_ascii_text ?t"
      unfolding opening_text_def by code_simp+
    show ?thesis
      using reply_sent [OF api t q, of ?rs out] establish_active [OF s(2) a o]
      by (simp only: open_transfer_def bindE_def prod.case outcome.case)
  qed
  ultimately show ?thesis by (auto simp: command_turn_def)
qed

text \<open>A client that logs in, announces a port and asks for a file, and a network that connects to it.\<close>

definition retr_lines :: "string list" where
  "retr_lines = [''USER '' @ ''a'', ''PASS '' @ ''b'', ''PORT '' @ port_argument [127, 0, 0, 1] 20001, ''RETR '' @ ''a.txt'']"

definition retr_client :: sock where
  "retr_client = idle_sock\<lparr>to_read := client_lines retr_lines\<rparr>"

definition active_env :: server_env where
  "active_env = sample_server_env\<lparr>se_net := open_net\<lparr>outgoing := [Inr idle_sock]\<rparr>\<rparr>"

definition retr_session :: FTPSession where
  "retr_session = (sample_session [])\<lparr>fs_control := retr_client,
     fs_manager := new_manager (open_net\<lparr>outgoing := [Inr idle_sock]\<rparr>)\<rparr>"

definition retr_ready :: FTPSession where
  "retr_ready = active_at (join ''.'' (map dec [127, 0, 0, 1])) 20001 (logged_in ''a'' retr_session)"

definition retr_server :: "task \<Rightarrow> Running" where
  "retr_server t = alone (sample_server\<lparr>served_on := [(True, 0)]\<rparr>) sample_os [(0, t)]"

lemma retr_session_simps [simp]:
  "fs_os retr_session = sample_os" "fs_active retr_session" "fs_buffer retr_session = []"
  "quiet (fs_control retr_session)" "written (fs_control retr_session) = []"
  "to_read (fs_control retr_session) = client_lines retr_lines"
  by (simp_all add: retr_session_def sample_session_def retr_client_def idle_sock_def quiet_def)

lemma retr_ready_simps [simp]:
  "fs_os retr_ready = sample_os" "fs_active retr_ready" "quiet (fs_control retr_ready)"
  "st_authenticated (fs_state retr_ready)" "st_data_conn_type (fs_state retr_ready) = ACTIVE"
  "address_error (dm_net (fs_manager retr_ready)) (st_data_conn_host (fs_state retr_ready)) = None"
  "outgoing (dm_net (fs_manager retr_ready)) = [Inr idle_sock]"
  by (simp_all add: retr_ready_def) (simp_all add: active_at_def logged_in_def retr_session_def new_manager_def open_net_def)

lemma active_env_api [simp]: "se_api active_env = latin_api"
  by (simp add: active_env_def sample_server_env_def)

lemma retr_turn:
  assumes "task_turn active_env sample_os t = (sample_os, Some t')"
  shows "reachable active_env (retr_server t) (retr_server t')"
  unfolding retr_server_def by (rule alone_turn [OF _ assms]) (simp_all add: sample_server_def reachable.refl)

lemma retr_command:
  assumes "process_one_command latin_api a = (Ret (), b)" "fs_active a" "fs_os a = sample_os" "fs_os b = sample_os"
  shows "reachable active_env (retr_server (Ftp_command a)) (retr_server (Ftp_command b))"
  using one_turn [of active_env a b 0 "sample_server\<lparr>served_on := [(True, 0)]\<rparr>"] assms
  by (simp add: retr_server_def sample_server_def)

lemma talk_files: "fs_os v = os \<Longrightarrow> (talk v rs out)\<lparr>fs_os := os\<rparr> = talk v rs out"
  by (cases v) (simp add: talk_def)

lemma retr_greeted:
  "reachable active_env \<lparr>rn_server = sample_server, rn_tasks = []\<rparr>
     (retr_server (Ftp_command (talk retr_session (client_lines retr_lines) greeting)))"
proof -
  let ?rn = "\<lparr>rn_server = sample_server, rn_tasks = []\<rparr>"
  have "now sample_os = 0" by (simp add: sample_os_def)
  then have "new_FTPSession retr_client (se_net active_env) served sample_os = (Ret retr_session, sample_os)"
    by (simp add: new_FTPSession_def fs_canonical_def or_throw_def canonical_def follow_served bindE_def
        sample_session_def retr_session_def active_env_def)
  then have "arrive_task active_env (Ftp_arrival (Inr retr_client)) ?rn = retr_server (Ftp_greeting retr_session)"
    by (simp add: accept_task_def spawn_def sample_server_def sample_server_env_def active_env_def Let_def add_task_def
        with_os_def alone_def retr_server_def)
  then have "reachable active_env ?rn (retr_server (Ftp_greeting retr_session))"
    by (metis reachable.intros server_step.arrives)
  moreover have w: "retr_session\<lparr>fs_os := sample_os\<rparr> = retr_session"
    by (metis (full_types) retr_session_simps(1) FTPSession.surjective FTPSession.update_convs(6))
  have "task_turn active_env sample_os (Ftp_greeting retr_session)
      = (sample_os, Some (Ftp_command (talk retr_session (client_lines retr_lines) greeting)))"
    unfolding task_turn.simps w using greeting_sent [OF ascii_latin_api, of retr_session retr_lines] by simp
  ultimately show ?thesis using retr_turn by (blast intro: reachable_trans)
qed

text \<open>USER, PASS and PORT.\<close>

lemma retr_announced:
  "\<exists>out. reachable active_env \<lparr>rn_server = sample_server, rn_tasks = []\<rparr>
     (retr_server (Ftp_command (talk retr_ready (client_lines [''RETR '' @ ''a.txt'']) out)))"
proof -
  let ?n = "named ''a'' retr_session" and ?i = "logged_in ''a'' retr_session"
  let ?port = "''PORT '' @ port_argument [127, 0, 0, 1] 20001" and ?retr = "''RETR '' @ ''a.txt''" and ?pass = "''PASS '' @ ''b''"
  let ?o2 = "greeting @ ''331 User name OK, more password required'' @ crlf"
  let ?o3 = "?o2 @ ''230 Login successful'' @ crlf"
  let ?o4 = "?o3 @ ''200 PORT command successful'' @ crlf"
  let ?at = "\<lambda>w ls out. retr_server (Ftp_command (talk w (client_lines ls) out))"
  have pl: "plain_line ''a''" "length ''a'' < 900" "plain_line ''b''" "length ''b'' < 900" by code_simp+
  have pa: "length [127, 0, 0, 1 :: nat] = 4" "(20001 :: nat) < 65536" "length (port_argument [127, 0, 0, 1] 20001) < 900"
    unfolding sample_port by simp_all
  have q: "quiet (fs_control ?i)" by simp
  have "reachable active_env (?at retr_session retr_lines greeting) (?at ?n [?pass, ?port, ?retr] ?o2)"
    unfolding retr_lines_def
    by (rule retr_command [OF one_user [OF ascii_latin_api retr_session_simps(4) pl(1,2)]]) (simp_all add: named_def)
  moreover have "reachable active_env (?at ?n [?pass, ?port, ?retr] ?o2) (?at ?i [?port, ?retr] ?o3)"
    by (rule retr_command [OF one_pass [OF ascii_latin_api retr_session_simps(4) list.distinct(2) pl(3,4)]])
       (simp_all add: named_def)
  moreover have "reachable active_env (?at ?i [?port, ?retr] ?o3) (?at retr_ready [?retr] ?o4)"
    unfolding retr_ready_def by (rule retr_command [OF one_port [OF ascii_latin_api q pa]]) simp_all
  ultimately show ?thesis using retr_greeted by (blast intro: reachable_trans)
qed

lemma download_reached:
  "\<exists>w. reachable active_env \<lparr>rn_server = sample_server, rn_tasks = []\<rparr>
     (retr_server (Ftp_transfer (Sending (opened_file (''D:'', [''ftp'', ''a.txt'']) ''hello'') 0) idle_sock w))"
proof -
  let ?l = "(''D:'', [''ftp'', ''a.txt''])" and ?a = "\<lambda>out. talk retr_ready (client_lines [''RETR '' @ ''a.txt'']) out"
  obtain o4 where r: "reachable active_env \<lparr>rn_server = sample_server, rn_tasks = []\<rparr> (retr_server (Ftp_command (?a o4)))"
    using retr_announced by blast
  have n: "plain_line ''a.txt''" "length ''a.txt'' < 900" by code_simp+
  obtain rs out where rt: "command_turn latin_api (?a o4)
      = Waits (Connected Download ''a.txt'') idle_sock (talk (connected_to [] retr_ready) rs out)"
    using retr_waits [OF ascii_latin_api _ n, of retr_ready idle_sock "[]" "[]" o4] by auto
  let ?v = "talk (connected_to [] retr_ready) rs out"
  have v: "?v\<lparr>fs_os := sample_os\<rparr> = ?v" by (rule talk_files) simp
  have "task_turn active_env sample_os (Ftp_command (?a o4))
      = (sample_os, Some (Ftp_transfer (Connected Download ''a.txt'') idle_sock ?v))"
    unfolding task_turn.simps active_env_api talk_files [OF retr_ready_simps(1)] rt by simp
  note r1 = reachable_trans [OF retr_turn [OF this] r]
  have "follow sample_os (loc_str ?l) = Inr ?l" by code_simp
  then have f: "regular_file sample_os (loc_str ?l) ?l ''hello''" using sample_file by (simp add: regular_file_def)
  have "resolve sample_os served served ''a.txt'' = loc_str ?l" and "loc_str (''D:'', [''ftp'']) = served" by code_simp+
  then have rv: "resolve sample_os (st_current_directory (fs_state ?v)) (st_root_directory (fs_state ?v)) ''a.txt'' = loc_str ?l"
    by (simp add: retr_ready_def active_at_def logged_in_def retr_session_def sample_session_def initial_state_def)
  have "loc_str ?l \<noteq> []" by (simp add: loc_str_def)
  note cd = connected_download [OF rv this f, of latin_api idle_sock, folded opened_file_def]
  have "task_turn active_env sample_os (Ftp_transfer (Connected Download ''a.txt'') idle_sock ?v)
      = (sample_os, Some (Ftp_transfer (Sending (opened_file ?l ''hello'') 0) idle_sock ?v))"
    unfolding task_turn.simps(3) active_env_api cd unfolding v by simp
  then show ?thesis using reachable_trans [OF retr_turn r1] by blast
qed

text \<open>
  C4: In every state that the server can reach, in whatever order the connections take their turns, no
  FTP session has a file open for a download or an upload that is neither beneath the root directory nor
  beside it under a name extending the root's: also what is read of the disk and sent stays in that
  region. As for \<open>interleaved_confined\<close>, the configured root directory exists and its text leads to it
  through no symbolic link, at the start no link lies in that region or above it, and no name has a colon.
\<close>

theorem open_files_confined:
  assumes "reachable env \<lparr>rn_server = s, rn_tasks = []\<rparr> rn"
    and "wf_os (sv_os s)" and "follow (sv_os s) (root_directory (sv_config s)) = Inr r"
    and "full_loc (sv_os s) (root_directory (sv_config s)) = r"
    and "link_free r (sv_os s)" and "plain_os (sv_os s)"
  shows "\<forall>(ctx, t) \<in> set (rn_tasks rn). opens_in r t"
proof -
  have "running_inv r (sv_os s) \<lparr>rn_server = s, rn_tasks = []\<rparr>"
    using server_inv_start [OF assms(2-6)] by (simp add: running_inv_def)
  then have "running_inv r (sv_os s) rn" by (rule reachable_inv [OF assms(1)])
  then show ?thesis using task_opens by (fastforce simp: running_inv_def list_all_iff)
qed

lemma open_files_confined_witness:
  "\<exists>rn f n k w l. reachable active_env \<lparr>rn_server = sample_server, rn_tasks = []\<rparr> rn
     \<and> rn_tasks rn = [(0, Ftp_transfer (Sending f n) k w)] \<and> nt_fp (af_rawfile f) = Some l
     \<and> (below (''D:'', [''ftp'']) l \<or> beside (''D:'', [''ftp'']) l)"
proof -
  obtain w where rn: "reachable active_env \<lparr>rn_server = sample_server, rn_tasks = []\<rparr>
      (retr_server (Ftp_transfer (Sending (opened_file (''D:'', [''ftp'', ''a.txt'']) ''hello'') 0) idle_sock w))"
    using download_reached by blast
  have os: "sv_os sample_server = sample_os" by (simp add: sample_server_def)
  have "\<forall>(ctx, t) \<in> set (rn_tasks (retr_server
      (Ftp_transfer (Sending (opened_file (''D:'', [''ftp'', ''a.txt'']) ''hello'') 0) idle_sock w))).
      opens_in (''D:'', [''ftp'']) t"
    by (rule open_files_confined [OF rn]) (simp_all only: os wf_sample_os sample_link_free sample_plain sample_root)
  then show ?thesis using rn by (fastforce simp: retr_server_def alone_def)
qed

end
