(* ===== verification/Unicode.thy ===== *)
theory Unicode
  imports WinText CNumbers
begin

text \<open>
  The conversions between UTF-8, UTF-16 and UTF-32 of \<open>stringUtil.h\<close> (\<open>StringUtil::detail\<close> and
  \<open>EncodingConverter\<close>), with the integers at their width: a byte is a \<open>char\<close>, a \<open>char16_t\<close> a word
  of 16 bits and a \<open>char32_t\<close> one of 32.
\<close>

type_synonym u16 = "16 word"
type_synonym u32 = "32 word"

section \<open>UTF-8\<close>

text \<open>
  The decoder does not check that a sequence is complete and reads past the end of a text that
  stops inside one; \<open>past\<close> is what it finds there.
\<close>

definition byte_at :: "(nat \<Rightarrow> char) \<Rightarrow> string \<Rightarrow> nat \<Rightarrow> u32" where
  "byte_at past input i =
     word_of_nat (code_of (if i < length input then input ! i else past (i - length input)))"

definition lead2 :: "u32 \<Rightarrow> u32 \<Rightarrow> u32" where
  "lead2 b0 b1 = push_bit 6 (b0 AND 0x1F) OR (b1 AND 0x3F)"

definition lead3 :: "u32 \<Rightarrow> u32 \<Rightarrow> u32 \<Rightarrow> u32" where
  "lead3 b0 b1 b2 = push_bit 12 (b0 AND 0x0F) OR push_bit 6 (b1 AND 0x3F) OR (b2 AND 0x3F)"

definition lead4 :: "u32 \<Rightarrow> u32 \<Rightarrow> u32 \<Rightarrow> u32 \<Rightarrow> u32" where
  "lead4 b0 b1 b2 b3 =
     push_bit 18 (b0 AND 0x07) OR push_bit 12 (b1 AND 0x3F) OR push_bit 6 (b2 AND 0x3F) OR (b3 AND 0x3F)"

function utf8_loop :: "(nat \<Rightarrow> char) \<Rightarrow> string \<Rightarrow> nat \<Rightarrow> u32 list \<Rightarrow> u32 list outcome" where
  "utf8_loop past input i buffer =
     (if i < length input
      then
        (let byte = byte_at past input i
         in if byte < 0x80 then utf8_loop past input (i + 1) (buffer @ [byte])
            else if drop_bit 5 byte = 0x06
            then utf8_loop past input (i + 2) (buffer @ [lead2 byte (byte_at past input (i + 1))])
            else if drop_bit 4 byte = 0x0E
            then utf8_loop past input (i + 3)
                   (buffer @ [lead3 byte (byte_at past input (i + 1)) (byte_at past input (i + 2))])
            else if drop_bit 3 byte = 0x1E
            then utf8_loop past input (i + 4)
                   (buffer @ [lead4 byte (byte_at past input (i + 1)) (byte_at past input (i + 2))
                                (byte_at past input (i + 3))])
            else Exn (Runtime_error ''Invalid UTF-8 sequence''))
      else Ret buffer)"
  by pat_completeness auto
termination
  by (relation "measure (\<lambda>(past, input, i, buffer). length input - i)") auto

declare utf8_loop.simps [simp del]

definition utf8_to_utf32_view :: "(nat \<Rightarrow> char) \<Rightarrow> string \<Rightarrow> u32 list outcome" where
  "utf8_to_utf32_view past input = utf8_loop past input 0 []"

definition cast_char :: "u32 \<Rightarrow> char" where
  "cast_char w = char_of (unat w)"

definition utf8_units :: "u32 \<Rightarrow> string" where
  "utf8_units codepoint =
     (if codepoint < 0x80 then [cast_char codepoint]
      else if codepoint < 0x800
      then [cast_char (0xC0 OR drop_bit 6 codepoint), cast_char (0x80 OR (codepoint AND 0x3F))]
      else if codepoint < 0x10000
      then [cast_char (0xE0 OR drop_bit 12 codepoint),
            cast_char (0x80 OR (drop_bit 6 codepoint AND 0x3F)), cast_char (0x80 OR (codepoint AND 0x3F))]
      else [cast_char (0xF0 OR drop_bit 18 codepoint),
            cast_char (0x80 OR (drop_bit 12 codepoint AND 0x3F)),
            cast_char (0x80 OR (drop_bit 6 codepoint AND 0x3F)), cast_char (0x80 OR (codepoint AND 0x3F))])"

definition utf32_to_utf8 :: "u32 list \<Rightarrow> string" where
  "utf32_to_utf8 input = fold (\<lambda>codepoint result. result @ utf8_units codepoint) input []"

section \<open>UTF-16\<close>

text \<open>One step of the decoder; the rest of the text stands for the pointers.\<close>

fun decode_utf16 :: "u16 list \<Rightarrow> u32 \<times> u16 list" where
  "decode_utf16 [] = (0, [])"
| "decode_utf16 (u # rest) =
     (let codepoint = ucast u
      in case rest of
           [] \<Rightarrow> (codepoint, [])
         | v # rest' \<Rightarrow>
             let low = (ucast v :: u32)
             in if 0xD800 \<le> codepoint \<and> codepoint \<le> 0xDBFF \<and> 0xDC00 \<le> low \<and> low \<le> 0xDFFF
                then (0x10000 + push_bit 10 (codepoint - 0xD800) + (low - 0xDC00), rest')
                else (codepoint, rest))"

definition encode_utf16 :: "u32 \<Rightarrow> u16 list \<Rightarrow> u16 list" where
  "encode_utf16 codepoint result =
     (if codepoint < 0x10000 then result @ [ucast codepoint]
      else
        let c = codepoint - 0x10000
        in result @ [ucast (0xD800 OR drop_bit 10 c), ucast (0xDC00 OR (c AND 0x3FF))])"

definition utf32_to_utf16 :: "u32 list \<Rightarrow> u16 list" where
  "utf32_to_utf16 input = fold encode_utf16 input []"

function utf16_to_utf32 :: "u16 list \<Rightarrow> u32 list" where
  "utf16_to_utf32 input =
     (if input = [] then []
      else case decode_utf16 input of (c, rest) \<Rightarrow> c # utf16_to_utf32 rest)"
  by pat_completeness auto
termination
  by (relation "measure length") (auto simp: Let_def neq_Nil_conv split: list.splits if_splits)

declare utf16_to_utf32.simps [simp del]

section \<open>EncodingConverter\<close>

definition to_utf16 :: "(nat \<Rightarrow> char) \<Rightarrow> string \<Rightarrow> u16 list outcome" where
  "to_utf16 past input =
     (case utf8_to_utf32_view past input of
        Ret utf32 \<Rightarrow> Ret (utf32_to_utf16 utf32) | Exn e \<Rightarrow> Exn e | Hang \<Rightarrow> Hang)"

definition from_utf16 :: "u16 list \<Rightarrow> string" where
  "from_utf16 input = utf32_to_utf8 (utf16_to_utf32 input)"

definition to_utf32 :: "(nat \<Rightarrow> char) \<Rightarrow> string \<Rightarrow> u32 list outcome" where
  "to_utf32 past input = utf8_to_utf32_view past input"

definition from_utf32 :: "u32 list \<Rightarrow> string" where
  "from_utf32 input = utf32_to_utf8 input"

section \<open>Decoding UTF-8 is the inverse of encoding it\<close>

lemma byte_of_cast: "word_of_nat (code_of (cast_char w)) = take_bit 8 w"
proof -
  have "unat (take_bit 8 w) = code_of (cast_char w)"
    by (simp add: cast_char_def unsigned_take_bit_eq [unfolded take_bit_eq_mod] take_bit_eq_mod unat_mod)
  then have "word_of_nat (code_of (cast_char w)) = (word_of_nat (unat (take_bit 8 w)) :: u32)" by simp
  then show ?thesis by (simp only: of_nat_unat ucast_id)
qed

lemma join_bits: "push_bit m (take_bit k (drop_bit m c)) OR take_bit m c = take_bit (m + k) (c :: u32)"
  by (rule bit_eqI) (auto simp: bit_simps)

lemma small_bits: "c < 2 ^ n \<Longrightarrow> take_bit n (c :: u32) = c"
  by (simp only: take_bit_eq_mask less_mask_eq)

lemma low_bits:
  "take_bit n (k :: u32) = 0 \<Longrightarrow> n \<le> 8 \<Longrightarrow> take_bit n (take_bit 8 (k OR x)) = take_bit n x"
  by (simp add: min_def)

lemma drop_small: "x < 2 ^ n \<Longrightarrow> drop_bit n (x :: u32) = 0"
  using small_bits by (simp only: take_bit_eq_self_iff_drop_bit_eq_0)

lemma high_bits:
  "x < 2 ^ n \<Longrightarrow> drop_bit n (take_bit 8 (k OR x)) = take_bit (8 - n) (drop_bit n (k :: u32))"
  by (simp add: drop_bit_take_bit drop_small)

lemma drop_bound:
  "c < 0x800 \<Longrightarrow> drop_bit 6 (c :: u32) < 2 ^ 5" "c < 0x10000 \<Longrightarrow> drop_bit 12 c < 2 ^ 4"
  "c < 0x200000 \<Longrightarrow> drop_bit 18 c < 2 ^ 3"
  by (simp_all add: word_less_nat_alt unat_div drop_bit_eq_div less_mult_imp_div_less)

lemma and_masks:
  "x AND 0x07 = take_bit 3 x" "x AND 0x0F = take_bit 4 x" "x AND 0x1F = take_bit 5 x"
  "x AND 0x3F = take_bit 6 x" for x :: u32
  by (simp_all add: take_bit_eq_mask mask_eq_exp_minus_1)

abbreviation unit8 :: "u32 \<Rightarrow> u32 \<Rightarrow> u32" where
  "unit8 k x \<equiv> take_bit 8 (k OR x)"

lemma low_units [simp]:
  "take_bit 6 (unit8 0x80 (take_bit 6 x)) = take_bit 6 x" "take_bit 5 (unit8 0xC0 x) = take_bit 5 x"
  "take_bit 4 (unit8 0xE0 x) = take_bit 4 x" "take_bit 3 (unit8 0xF0 x) = take_bit 3 x"
  using low_bits [of 6 "0x80" "take_bit 6 x"] low_bits [of 5 "0xC0" x] low_bits [of 4 "0xE0" x]
    low_bits [of 3 "0xF0" x]
  by simp_all

lemma leads:
  "lead2 (unit8 0xC0 (drop_bit 6 c)) (unit8 0x80 (take_bit 6 c)) = take_bit 11 c"
  "lead3 (unit8 0xE0 (drop_bit 12 c)) (unit8 0x80 (take_bit 6 (drop_bit 6 c))) (unit8 0x80 (take_bit 6 c))
     = take_bit 16 c"
  "lead4 (unit8 0xF0 (drop_bit 18 c)) (unit8 0x80 (take_bit 6 (drop_bit 12 c)))
     (unit8 0x80 (take_bit 6 (drop_bit 6 c))) (unit8 0x80 (take_bit 6 c)) = take_bit 21 c"
  using join_bits [of 6 5 c] join_bits [of 6 6 c] join_bits [of 12 4 c] join_bits [of 12 6 c] join_bits [of 18 3 c]
  by (simp_all only: lead2_def lead3_def lead4_def and_masks low_units) simp_all

lemma lead_kinds:
  "x < 2 ^ 5 \<Longrightarrow> drop_bit 5 (unit8 0xC0 x) = 6"
  "x < 2 ^ 4 \<Longrightarrow> drop_bit 4 (unit8 0xE0 x) = 14"
  "x < 2 ^ 3 \<Longrightarrow> drop_bit 3 (unit8 0xF0 x) = 30"
  using high_bits [of x 5 "0xC0"] high_bits [of x 4 "0xE0"] high_bits [of x 3 "0xF0"] by simp_all

lemma drop_more: "drop_bit n b = k \<Longrightarrow> drop_bit (m + n) (b :: u32) = drop_bit m k"
  by (simp flip: drop_bit_drop_bit)

lemma not_ascii: "drop_bit 7 b = 1 \<Longrightarrow> \<not> b < (0x80 :: u32)"
  using drop_small [of b 7] by auto

lemma lead_tests:
  "drop_bit 5 b = 6 \<Longrightarrow> \<not> b < (0x80 :: u32)"
  "drop_bit 4 b = 14 \<Longrightarrow> \<not> b < (0x80 :: u32) \<and> drop_bit 5 b = 7"
  "drop_bit 3 b = 30 \<Longrightarrow> \<not> b < (0x80 :: u32) \<and> drop_bit 5 b = 7 \<and> drop_bit 4 b = 15"
  using not_ascii [of b] drop_more [of 5 b _ 2] drop_more [of 4 b _ 3] drop_more [of 4 b _ 1]
    drop_more [of 3 b _ 4] drop_more [of 3 b _ 2] drop_more [of 3 b _ 1]
  by auto


text \<open>One code point, in the middle of a text.\<close>

lemma byte_at_middle:
  "k < length xs \<Longrightarrow> byte_at past (pre @ xs @ post) (length pre + k) = word_of_nat (code_of (xs ! k))"
  by (simp add: byte_at_def nth_append)

lemma units_decode:
  assumes c: "c < 0x200000"
  shows "utf8_loop past (pre @ utf8_units c @ post) (length pre) buffer =
    utf8_loop past (pre @ utf8_units c @ post) (length pre + length (utf8_units c)) (buffer @ [c])"
proof -
  let ?s = "pre @ utf8_units c @ post"
  have at: "byte_at past ?s (length pre + k) = word_of_nat (code_of (utf8_units c ! k))"
    if "k < length (utf8_units c)" for k
    using byte_at_middle that by blast
  have at0: "byte_at past ?s (length pre) = word_of_nat (code_of (utf8_units c ! 0))"
    and ne: "length pre < length ?s"
    using at [of 0] by (simp_all add: utf8_units_def)
  have above: "\<not> c < 0x800 \<Longrightarrow> \<not> c < 0x80" "\<not> c < 0x10000 \<Longrightarrow> \<not> c < 0x800"
    using order.strict_trans [of c "0x80" "0x800"] order.strict_trans [of c "0x800" "0x10000"] by auto
  consider "c < 0x80" | "\<not> c < 0x80" "c < 0x800" | "\<not> c < 0x800" "c < 0x10000" | "\<not> c < 0x10000"
    by blast
  then show ?thesis
  proof cases
    case 1
    then have u: "utf8_units c = [cast_char c]" by (simp add: utf8_units_def)
    have "byte_at past ?s (length pre) = c"
      using at0 small_bits [of c 8] order.strict_trans [OF 1, of 256] by (simp add: u byte_of_cast)
    then show ?thesis using 1 ne by (subst utf8_loop.simps) (simp add: u)
  next
    case 2
    define b0 b1 where b: "b0 = unit8 0xC0 (drop_bit 6 c)" "b1 = unit8 0x80 (take_bit 6 c)"
    have u: "utf8_units c = [cast_char (0xC0 OR drop_bit 6 c), cast_char (0x80 OR (c AND 0x3F))]"
      using 2 by (simp add: utf8_units_def)
    have a: "byte_at past ?s (length pre) = b0" "byte_at past ?s (length pre + 1) = b1"
      using at0 at [of 1] unfolding b u by (simp_all add: byte_of_cast and_masks)
    have "drop_bit 5 b0 = 6" "\<not> b0 < 0x80"
      unfolding b using lead_kinds(1) [OF drop_bound(1) [OF 2(2)]] lead_tests(1) by blast+
    moreover have "lead2 b0 b1 = c" unfolding b leads using 2(2) by (intro small_bits) simp
    ultimately show ?thesis using a ne by (subst utf8_loop.simps) (simp add: u)
  next
    case 3
    define b0 b1 b2 where b: "b0 = unit8 0xE0 (drop_bit 12 c)"
      "b1 = unit8 0x80 (take_bit 6 (drop_bit 6 c))" "b2 = unit8 0x80 (take_bit 6 c)"
    have u: "utf8_units c = [cast_char (0xE0 OR drop_bit 12 c),
        cast_char (0x80 OR (drop_bit 6 c AND 0x3F)), cast_char (0x80 OR (c AND 0x3F))]"
      using 3 above by (simp add: utf8_units_def)
    have a: "byte_at past ?s (length pre) = b0" "byte_at past ?s (length pre + 1) = b1"
      "byte_at past ?s (length pre + 2) = b2"
      using at0 at [of 1] at [of 2] unfolding b u by (simp_all add: byte_of_cast and_masks)
    have "drop_bit 4 b0 = 14" "\<not> b0 < 0x80 \<and> drop_bit 5 b0 = 7"
      unfolding b using lead_kinds(2) [OF drop_bound(2) [OF 3(2)]] lead_tests(2) by blast+
    moreover have "lead3 b0 b1 b2 = c" unfolding b leads using 3(2) by (intro small_bits) simp
    ultimately show ?thesis using a ne by (subst utf8_loop.simps) (simp add: u numeral_eq_Suc)
  next
    case 4
    define b0 b1 b2 b3 where b: "b0 = unit8 0xF0 (drop_bit 18 c)"
      "b1 = unit8 0x80 (take_bit 6 (drop_bit 12 c))" "b2 = unit8 0x80 (take_bit 6 (drop_bit 6 c))"
      "b3 = unit8 0x80 (take_bit 6 c)"
    have u: "utf8_units c = [cast_char (0xF0 OR drop_bit 18 c),
        cast_char (0x80 OR (drop_bit 12 c AND 0x3F)),
        cast_char (0x80 OR (drop_bit 6 c AND 0x3F)), cast_char (0x80 OR (c AND 0x3F))]"
      using 4 above by (simp add: utf8_units_def)
    have a: "byte_at past ?s (length pre) = b0" "byte_at past ?s (length pre + 1) = b1"
      "byte_at past ?s (length pre + 2) = b2" "byte_at past ?s (length pre + 3) = b3"
      using at0 at [of 1] at [of 2] at [of 3] unfolding b u by (simp_all add: byte_of_cast and_masks)
    have "drop_bit 3 b0 = 30" "\<not> b0 < 0x80 \<and> drop_bit 5 b0 = 7 \<and> drop_bit 4 b0 = 15"
      unfolding b using lead_kinds(3) [OF drop_bound(3) [OF c]] lead_tests(3) by blast+
    moreover have "lead4 b0 b1 b2 b3 = c" unfolding b leads using c by (intro small_bits) simp
    ultimately show ?thesis using a ne by (subst utf8_loop.simps) (simp add: u numeral_eq_Suc)
  qed
qed

lemma utf32_to_utf8_concat: "utf32_to_utf8 cs = concat (map utf8_units cs)"
proof -
  have "fold (\<lambda>c r. r @ utf8_units c) cs acc = acc @ concat (map utf8_units cs)" for acc
    by (induction cs arbitrary: acc) simp_all
  then show ?thesis by (simp add: utf32_to_utf8_def)
qed

lemma utf8_loop_decodes:
  "\<forall>c\<in>set cs. c < 0x200000 \<Longrightarrow>
     utf8_loop past (pre @ concat (map utf8_units cs)) (length pre) buffer = Ret (buffer @ cs)"
proof (induction cs arbitrary: pre buffer)
  case Nil
  show ?case by (subst utf8_loop.simps) simp
next
  case (Cons c cs)
  then show ?case
    using units_decode [of c past pre "concat (map utf8_units cs)" buffer]
      Cons(1) [of "pre @ utf8_units c" "buffer @ [c]"] by simp
qed

lemma utf8_decodes:
  "\<forall>c\<in>set cs. c < 0x200000 \<Longrightarrow> utf8_to_utf32_view past (utf32_to_utf8 cs) = Ret cs"
  using utf8_loop_decodes [of cs past "[]" "[]"] by (simp add: utf8_to_utf32_view_def utf32_to_utf8_concat)


section \<open>Decoding UTF-16 is the inverse of encoding it, surrogates apart\<close>

definition scalar_value :: "u32 \<Rightarrow> bool" where
  "scalar_value c \<longleftrightarrow> c < 0x110000 \<and> \<not> (0xD800 \<le> c \<and> c \<le> 0xDFFF)"

lemma or_is_add:
  assumes "take_bit n (k :: u32) = 0" and "x < 2 ^ n" shows "k OR x = k + x"
proof -
  have x: "take_bit n x = x" by (rule small_bits [OF assms(2)])
  have "\<not> (bit k i \<and> bit x i)" for i
    using bit_take_bit_iff [of n k i] bit_take_bit_iff [of n x i] by (auto simp: assms(1) x)
  then have "k AND x = 0" by (intro bit_eqI) (simp add: bit_and_iff)
  then show ?thesis by (simp add: disjunctive_add_eq_or)
qed

lemma unit16: "w < 0x10000 \<Longrightarrow> ucast (ucast w :: u16) = (w :: u32)"
  using small_bits [of w 16] by (simp add: unsigned_ucast_eq)

text \<open>The two halves of a surrogate pair.\<close>

lemma pair_halves:
  assumes "c < (0x100000 :: u32)"
  shows "0xD800 OR drop_bit 10 c = 0xD800 + drop_bit 10 c" "0xDC00 OR (c AND 0x3FF) = 0xDC00 + take_bit 10 c"
    "drop_bit 10 c < 0x400" "take_bit 10 c < 0x400"
proof -
  have m: "c AND 0x3FF = take_bit 10 c" by (simp add: take_bit_eq_mask mask_eq_exp_minus_1)
  show d: "drop_bit 10 c < 0x400" and t: "take_bit 10 c < 0x400"
    using assms by (simp_all add: word_less_nat_alt unat_div drop_bit_eq_div less_mult_imp_div_less
        take_bit_eq_mod unat_mod)
  show "0xD800 OR drop_bit 10 c = 0xD800 + drop_bit 10 c" using d by (intro or_is_add [of 10]) simp_all
  show "0xDC00 OR (c AND 0x3FF) = 0xDC00 + take_bit 10 c"
    unfolding m using t by (intro or_is_add [of 10]) simp_all
qed

lemma word_range:
  "x < 0x400 \<Longrightarrow> 0xD800 \<le> 0xD800 + x \<and> 0xD800 + x \<le> 0xDBFF \<and> 0xD800 + x < (0x10000 :: u32)"
  "x < 0x400 \<Longrightarrow> 0xDC00 \<le> 0xDC00 + x \<and> 0xDC00 + x \<le> 0xDFFF \<and> 0xDC00 + x < (0x10000 :: u32)"
  by (unat_arith; simp)+

lemma decode_encode_utf16:
  assumes "scalar_value c" shows "decode_utf16 (encode_utf16 c [] @ rest) = (c, rest)"
proof (cases "c < 0x10000")
  case True
  then show ?thesis
    using assms unit16 [of c] order.trans [of c "0xDBFF" "0xDFFF"]
    by (auto simp: encode_utf16_def scalar_value_def Let_def split: list.splits)
next
  case False
  let ?d = "c - 0x10000"
  have d: "?d < 0x100000" using assms False unfolding scalar_value_def by unat_arith
  note h = pair_halves [OF d] word_range(1) [OF pair_halves(3) [OF d]] word_range(2) [OF pair_halves(4) [OF d]]
  have "push_bit 10 (drop_bit 10 ?d) + take_bit 10 ?d = ?d" by (rule bits_ident)
  then have "0x10000 + push_bit 10 (drop_bit 10 ?d) + take_bit 10 ?d = c" by (simp add: add.assoc)
  then show ?thesis using False h unit16 by (simp add: encode_utf16_def Let_def)
qed


lemma encode_utf16_appends: "encode_utf16 c r = r @ encode_utf16 c []"
  by (simp add: encode_utf16_def Let_def)

lemma utf32_to_utf16_concat: "utf32_to_utf16 cs = concat (map (\<lambda>c. encode_utf16 c []) cs)"
proof -
  have "fold encode_utf16 cs acc = acc @ concat (map (\<lambda>c. encode_utf16 c []) cs)" for acc
  proof (induction cs arbitrary: acc)
    case (Cons c cs)
    have "fold encode_utf16 (c # cs) acc = fold encode_utf16 cs (acc @ encode_utf16 c [])"
      using encode_utf16_appends [of c acc] by simp
    then show ?case using Cons by simp
  qed simp
  then show ?thesis by (simp add: utf32_to_utf16_def)
qed

lemma utf16_decodes: "list_all scalar_value cs \<Longrightarrow> utf16_to_utf32 (utf32_to_utf16 cs) = cs"
proof (induction cs)
  case Nil
  show ?case by (simp add: utf32_to_utf16_concat utf16_to_utf32.simps)
next
  case (Cons c cs)
  have "encode_utf16 c [] \<noteq> []" by (simp add: encode_utf16_def Let_def)
  then show ?case
    using Cons decode_encode_utf16 [of c "utf32_to_utf16 cs"]
    by (subst utf16_to_utf32.simps) (simp add: utf32_to_utf16_concat)
qed

lemma scalar_small: "list_all scalar_value cs \<Longrightarrow> \<forall>c\<in>set cs. c < 0x200000"
proof
  fix c
  assume "list_all scalar_value cs" "c \<in> set cs"
  then have "c < 0x110000" by (simp add: list_all_iff scalar_value_def)
  then show "c < 0x200000" by (rule order.strict_trans) simp
qed

text \<open>
  C38: Text of Unicode scalar values survives the conversions: UTF-32 to UTF-8 and back, whatever
  lies in memory after the text, UTF-32 to UTF-16 and back, and UTF-8 to UTF-16 and back. Scalar
  values matter: two surrogates in UTF-32 come back from UTF-16 as one code point.
\<close>

theorem unicode_roundtrip:
  assumes "list_all scalar_value cs"
  shows "to_utf32 past (from_utf32 cs) = Ret cs
    \<and> utf16_to_utf32 (utf32_to_utf16 cs) = cs
    \<and> (\<exists>ws. to_utf16 past (from_utf32 cs) = Ret ws \<and> from_utf16 ws = from_utf32 cs)
    \<and> utf16_to_utf32 (utf32_to_utf16 [0xD800, 0xDC00]) = [0x10000]"
proof (intro conjI)
  have d: "utf8_to_utf32_view past (utf32_to_utf8 cs) = Ret cs"
    using utf8_decodes scalar_small [OF assms] by blast
  then show "to_utf32 past (from_utf32 cs) = Ret cs" by (simp add: to_utf32_def from_utf32_def)
  show u: "utf16_to_utf32 (utf32_to_utf16 cs) = cs" by (rule utf16_decodes [OF assms])
  show "\<exists>ws. to_utf16 past (from_utf32 cs) = Ret ws \<and> from_utf16 ws = from_utf32 cs"
    using d u by (simp add: to_utf16_def from_utf16_def from_utf32_def)
  show "utf16_to_utf32 (utf32_to_utf16 [0xD800, 0xDC00]) = [0x10000]"
    by (simp add: utf32_to_utf16_def encode_utf16_def utf16_to_utf32.simps)
qed

lemma unicode_roundtrip_witness:
  "to_utf32 (\<lambda>i. CHR ''x'') (from_utf32 [0x41, 0xE9, 0x20AC, 0x1F600]) = Ret [0x41, 0xE9, 0x20AC, 0x1F600]"
  using unicode_roundtrip [of "[0x41, 0xE9, 0x20AC, 0x1F600]" "\<lambda>i. CHR ''x''"]
  by (simp add: scalar_value_def)

end
