(* ===== verification/FawEncoding.thy ===== *)
theory FawEncoding
  imports Unicode
begin

text \<open>
  The rest of \<open>faw::Encoding\<close> (\<open>webdav/Encoding.hpp\<close>): guessing the encoding of a text, and the
  percent, backslash and base64 forms. The program is built without \<open>UNICODE\<close>, so \<open>string_t\<close> is
  \<open>std::string\<close> and \<open>TCHAR\<close> a \<open>char\<close>.
\<close>

section \<open>Guessing\<close>

definition high_bit :: "char \<Rightarrow> bool" where
  "high_bit c \<longleftrightarrow> code_of c AND 0x80 \<noteq> 0"

definition is_ascii :: "string \<Rightarrow> bool" where
  "is_ascii s \<longleftrightarrow> list_all (\<lambda>c. \<not> high_bit c) s"

text \<open>How many ones a byte begins with.\<close>

fun leading_ones :: "nat \<Rightarrow> nat \<Rightarrow> nat" where
  "leading_ones 0 ch = 0"
| "leading_ones (Suc n) ch =
     (if ch AND 0x80 \<noteq> 0 then Suc (leading_ones n (push_bit 1 ch mod 256)) else 0)"

definition high_len :: "char \<Rightarrow> nat" where
  \<comment> \<open>after eight shifts the byte is zero\<close>
  "high_len c = leading_ones 8 (code_of c)"

fun utf8_state :: "nat \<Rightarrow> string \<Rightarrow> bool" where
  "utf8_state state [] = (state = 0)"
| "utf8_state state (c # s) =
     (let len = high_len c
      in if 0 < state then (if len \<noteq> 1 then False else utf8_state (state - 1) s)
         else if len = 1 then False
         else if 1 < len then utf8_state (len - 1) s
         else utf8_state 0 s)"

definition is_utf8 :: "string \<Rightarrow> bool" where
  "is_utf8 s = utf8_state 0 s"

fun gb18030_state :: "bool \<Rightarrow> string \<Rightarrow> bool" where
  "gb18030_state state [] = True"
| "gb18030_state state (c # s) =
     (if high_bit c then gb18030_state (\<not> state) s
      else if state then False
      else gb18030_state state s)"

definition is_gb18030 :: "string \<Rightarrow> bool" where
  "is_gb18030 s = gb18030_state False s"

fun same_high_bits :: "string \<Rightarrow> bool" where
  "same_high_bits (a # b # s) = (if high_bit a \<noteq> high_bit b then False else same_high_bits s)"
| "same_high_bits s = True"

definition is_utf16 :: "string \<Rightarrow> bool" where
  "is_utf16 s = (if odd (length s) then False else same_high_bits s)"

definition guess :: "string \<Rightarrow> string" where
  "guess s =
     (if is_ascii s then ''ascii''
      else if is_utf8 s then ''utf8''
      else if is_gb18030 s then ''gb18030''
      else if is_utf16 s then ''utf16''
      else ''iso-8859-1'')"

section \<open>Recognizing the escaped forms\<close>

definition is_hex_char :: "char \<Rightarrow> bool" where
  "is_hex_char c \<longleftrightarrow> is_digit c \<or> 65 \<le> code_of c \<and> code_of c \<le> 70
     \<or> 97 \<le> code_of c \<and> code_of c \<le> 102"

definition is_base64_char :: "char \<Rightarrow> bool" where
  "is_base64_char c \<longleftrightarrow> is_alnum c \<or> c = CHR ''+'' \<or> c = CHR ''/''"

fun percent_scan :: "bool \<Rightarrow> string \<Rightarrow> bool" where
  "percent_scan found [] = found"
| "percent_scan found (c # s) =
     (if c \<noteq> CHR ''%'' then percent_scan found s
      else
        (case s of
           [] \<Rightarrow> False
         | d # t \<Rightarrow>
             if d = CHR ''%'' then percent_scan found t
             else
               (case t of
                  [] \<Rightarrow> False
                | e # u \<Rightarrow>
                    if \<not> is_hex_char d then False
                    else if \<not> is_hex_char e then False
                    else percent_scan True u)))"

definition is_percent_str :: "string \<Rightarrow> bool" where
  "is_percent_str s = percent_scan False s"

text \<open>A backslash, the letter and \<open>n\<close> hexadecimal digits.\<close>

function escape_scan :: "char \<Rightarrow> nat \<Rightarrow> bool \<Rightarrow> string \<Rightarrow> bool" where
  "escape_scan letter n found [] = found"
| "escape_scan letter n found (c # s) =
     (if c \<noteq> CHR 0x5C then escape_scan letter n found s
      else
        (case s of
           [] \<Rightarrow> False
         | d # t \<Rightarrow>
             if d = CHR 0x5C then escape_scan letter n found t
             else if d \<noteq> letter then escape_scan letter n found t
             else if length t < n then False
             else if \<not> list_all is_hex_char (take n t) then False
             else escape_scan letter n True (drop n t)))"
  by pat_completeness auto
termination
  by (relation "measure (\<lambda>(letter, n, found, s). length s)") auto

definition is_escape_x_str :: "string \<Rightarrow> bool" where
  "is_escape_x_str s = escape_scan (CHR ''x'') 2 False s"

definition is_escape_u_str :: "string \<Rightarrow> bool" where
  "is_escape_u_str s = escape_scan (CHR ''u'') 4 False s"

text \<open>Up to two \<open>=\<close> at the end; \<open>size () - 2\<close> wraps for a text of one character.\<close>

definition is_base64_str :: "string \<Rightarrow> bool" where
  "is_base64_str s \<longleftrightarrow>
     list_all (\<lambda>i. is_base64_char (s ! i)
       \<or> \<not> (word_of_nat i < (word_of_nat (length s) - 2 :: 64 word) \<or> s ! i \<noteq> CHR ''='')) [0..<length s]"

definition is_percent_wstr :: "winapi \<Rightarrow> 16 word list \<Rightarrow> bool" where
  "is_percent_wstr api s = is_percent_str (utf16_to_utf8 api s)"

definition is_escape_x_wstr :: "winapi \<Rightarrow> 16 word list \<Rightarrow> bool" where
  "is_escape_x_wstr api s = is_escape_x_str (utf16_to_utf8 api s)"

definition is_escape_u_wstr :: "winapi \<Rightarrow> 16 word list \<Rightarrow> bool" where
  "is_escape_u_wstr api s = is_escape_u_str (utf16_to_utf8 api s)"

definition is_base64_wstr :: "winapi \<Rightarrow> 16 word list \<Rightarrow> bool" where
  "is_base64_wstr api s = is_base64_str (utf16_to_utf8 api s)"

section \<open>Conversions of \<open>string_t\<close>\<close>

definition T_to_gb18030 :: "string \<Rightarrow> string" where
  "T_to_gb18030 old = old"

definition T_to_utf8 :: "winapi \<Rightarrow> string \<Rightarrow> string" where
  "T_to_utf8 api old = gb18030_to_utf8 api old"

definition T_to_utf16 :: "winapi \<Rightarrow> string \<Rightarrow> 16 word list" where
  "T_to_utf16 api old = gb18030_to_utf16 api old"

definition gb18030_to_T :: "string \<Rightarrow> string" where
  "gb18030_to_T old = old"

definition utf8_to_T :: "winapi \<Rightarrow> string \<Rightarrow> string" where
  "utf8_to_T api old = utf8_to_gb18030 api old"

definition utf16_to_T :: "winapi \<Rightarrow> 16 word list \<Rightarrow> string" where
  "utf16_to_T api old = utf16_to_gb18030 api old"

section \<open>Percent and backslash forms\<close>

text \<open>
  A \<open>std::string\<close> has a NUL behind its last character; the decoders read further when an escape is
  cut short, which \<open>past\<close> answers.
\<close>

definition char_at :: "(nat \<Rightarrow> char) \<Rightarrow> string \<Rightarrow> nat \<Rightarrow> char" where
  "char_at past s i =
     (if i < length s then s ! i else if i = length s then char_of (0 :: nat) else past (i - length s - 1))"

definition hex_char_to_dec :: "char \<Rightarrow> nat" where
  "hex_char_to_dec c =
     (if is_digit c then code_of c - 48
      else if 65 \<le> code_of c \<and> code_of c \<le> 70 then code_of c - 65 + 10
      else if 97 \<le> code_of c \<and> code_of c \<le> 102 then code_of c - 97 + 10
      else 0)"

definition hex_byte :: "char \<Rightarrow> char \<Rightarrow> char" where
  "hex_byte a b = char_of (push_bit 4 (hex_char_to_dec a) OR hex_char_to_dec b)"

definition hex2 :: "char \<Rightarrow> string" where
  "hex2 c = hex2_upper (code_of c)"

definition percent_char :: "char \<Rightarrow> string" where
  "percent_char c =
     (if is_alnum c \<or> c = CHR ''-'' \<or> c = CHR ''_'' \<or> c = CHR ''.'' \<or> c = CHR ''~'' then [c]
      else if c = CHR '' '' then ''+''
      else CHR ''%'' # hex2 c)"

definition percent_str_encode :: "winapi \<Rightarrow> string \<Rightarrow> string" where
  "percent_str_encode api s = utf8_to_T api (concat (map percent_char (T_to_utf8 api s)))"

function percent_loop :: "(nat \<Rightarrow> char) \<Rightarrow> string \<Rightarrow> nat \<Rightarrow> string \<Rightarrow> string" where
  "percent_loop past s i r =
     (if i < length s
      then
        (if s ! i = CHR ''%''
         then percent_loop past s (i + 3) (r @ [hex_byte (char_at past s (i + 1)) (char_at past s (i + 2))])
         else percent_loop past s (i + 1) (r @ [s ! i]))
      else r)"
  by pat_completeness auto
termination
  by (relation "measure (\<lambda>(past, s, i, r). length s - i)") auto

declare percent_loop.simps [simp del]

definition percent_str_decode :: "winapi \<Rightarrow> (nat \<Rightarrow> char) \<Rightarrow> string \<Rightarrow> string" where
  "percent_str_decode api past s = utf8_to_T api (percent_loop past (T_to_utf8 api s) 0 [])"

definition printable :: "char \<Rightarrow> bool" where
  "printable c \<longleftrightarrow> 32 \<le> code_of c \<and> code_of c \<le> 126 \<or> code_of c \<in> {9, 10, 11, 13}"

definition escape_x_char :: "char \<Rightarrow> string" where
  "escape_x_char c = (if printable c then [c] else [CHR 0x5C, CHR ''x''] @ hex2 c)"

definition escape_x_str_encode :: "winapi \<Rightarrow> string \<Rightarrow> string" where
  "escape_x_str_encode api s = utf8_to_T api (concat (map escape_x_char (T_to_utf8 api s)))"

function escape_loop :: "char \<Rightarrow> nat \<Rightarrow> (nat \<Rightarrow> char) \<Rightarrow> string \<Rightarrow> nat \<Rightarrow> string \<Rightarrow> string" where
  \<comment> \<open>a backslash, the letter and \<open>n\<close> pairs of digits\<close>
  "escape_loop letter n past s i r =
     (if i < length s
      then
        (if s ! i = CHR 0x5C
         then
           (let c = char_at past s (i + 1)
            in if c = letter
               then escape_loop letter n past s (i + 2 + 2 * n)
                      (r @ map (\<lambda>k. hex_byte (char_at past s (i + 2 + 2 * k)) (char_at past s (i + 3 + 2 * k)))
                             [0..<n])
               else escape_loop letter n past s (i + 2) (r @ [CHR 0x5C, c]))
         else escape_loop letter n past s (i + 1) (r @ [s ! i]))
      else r)"
  by pat_completeness auto
termination
  by (relation "measure (\<lambda>(letter, n, past, s, i, r). length s - i)") auto

declare escape_loop.simps [simp del]

definition escape_x_str_decode :: "winapi \<Rightarrow> (nat \<Rightarrow> char) \<Rightarrow> string \<Rightarrow> string" where
  "escape_x_str_decode api past s = utf8_to_T api (escape_loop (CHR ''x'') 1 past (T_to_utf8 api s) 0 [])"

text \<open>Two bytes after one \<open>\u\<close>, when the first has its high bit set.\<close>

fun escape_u_text :: "string \<Rightarrow> string" where
  "escape_u_text [] = []"
| "escape_u_text (c # s) =
     (if high_bit c
      then [CHR 0x5C, CHR ''u''] @ hex2 c @ hex2 (case s of [] \<Rightarrow> char_of (0 :: nat) | d # t \<Rightarrow> d)
             @ (case s of [] \<Rightarrow> [] | d # t \<Rightarrow> escape_u_text t)
      else c # escape_u_text s)"

definition escape_u_str_encode :: "winapi \<Rightarrow> string \<Rightarrow> string" where
  "escape_u_str_encode api s = utf8_to_T api (escape_u_text (T_to_utf8 api s))"

definition escape_u_str_decode :: "winapi \<Rightarrow> (nat \<Rightarrow> char) \<Rightarrow> string \<Rightarrow> string" where
  "escape_u_str_decode api past s = utf8_to_T api (escape_loop (CHR ''u'') 2 past (T_to_utf8 api s) 0 [])"

section \<open>Base64\<close>

definition base64_chars :: string where
  "base64_chars = ''ABCDEFGHIJKLMNOPQRSTUVWXYZabcdefghijklmnopqrstuvwxyz0123456789+/''"

definition sextets :: "nat \<Rightarrow> nat \<Rightarrow> nat \<Rightarrow> nat list" where
  "sextets a b c =
     [drop_bit 2 (a AND 0xfc), push_bit 4 (a AND 0x03) + drop_bit 4 (b AND 0xf0),
      push_bit 2 (b AND 0x0f) + drop_bit 6 (c AND 0xc0), c AND 0x3f]"

definition base64_of :: "nat list \<Rightarrow> string" where
  "base64_of ns = map (\<lambda>n. base64_chars ! n) ns"

text \<open>Three bytes at a time; the rest is filled up with zero bytes and \<open>=\<close>.\<close>

fun base64_text :: "string \<Rightarrow> string" where
  "base64_text (a # b # c # s) = base64_of (sextets (code_of a) (code_of b) (code_of c)) @ base64_text s"
| "base64_text [a, b] = base64_of (take 3 (sextets (code_of a) (code_of b) 0)) @ ''=''"
| "base64_text [a] = base64_of (take 2 (sextets (code_of a) 0 0)) @ ''==''"
| "base64_text [] = []"

definition base64_encode :: "winapi \<Rightarrow> string \<Rightarrow> string" where
  "base64_encode api s = utf8_to_T api (base64_text (T_to_utf8 api s))"

definition base64_value :: "char \<Rightarrow> nat" where
  \<comment> \<open>\<open>npos\<close>, cut to a byte, for a character that is not there\<close>
  "base64_value c = (case find_char c base64_chars of Some n \<Rightarrow> n | None \<Rightarrow> 255)"

definition octets :: "nat \<Rightarrow> nat \<Rightarrow> nat \<Rightarrow> nat \<Rightarrow> string" where
  "octets a b c d =
     [char_of (push_bit 2 a + drop_bit 4 (b AND 0x30)),
      char_of (push_bit 4 (b AND 0xf) + drop_bit 2 (c AND 0x3c)),
      char_of (push_bit 6 (c AND 0x3) + d)]"

fun base64_bytes :: "string \<Rightarrow> string" where
  "base64_bytes (a # b # c # d # s) =
     octets (base64_value a) (base64_value b) (base64_value c) (base64_value d) @ base64_bytes s"
| "base64_bytes [a, b, c] = take 2 (octets (base64_value a) (base64_value b) (base64_value c) 0)"
| "base64_bytes [a, b] = take 1 (octets (base64_value a) (base64_value b) 0 0)"
| "base64_bytes s = []"

text \<open>The decoder reads the text as it was given, without the conversion it computes.\<close>

definition base64_decode :: "winapi \<Rightarrow> string \<Rightarrow> string" where
  "base64_decode api s =
     utf8_to_T api (base64_bytes (takeWhile (\<lambda>c. c \<noteq> CHR ''='' \<and> is_base64_char c) s))"

section \<open>Base64 and back\<close>

lemma nat_masks:
  "x AND 0x03 = x mod 4" "x AND 0x0f = x mod 16" "x AND 0x3f = x mod 64" for x :: nat
  using take_bit_eq_mask [of 2 x] take_bit_eq_mask [of 4 x] take_bit_eq_mask [of 6 x]
  by (simp_all add: mask_eq_exp_minus_1 take_bit_eq_mod)

lemma high_parts:
  "drop_bit 2 (x AND 0xfc) = x div 4 mod 64" "drop_bit 4 (x AND 0xf0) = x div 16 mod 16"
  "drop_bit 6 (x AND 0xc0) = x div 64 mod 4" "drop_bit 4 (x AND 0x30) = x div 16 mod 4"
  "drop_bit 2 (x AND 0x3c) = x div 4 mod 16" for x :: nat
proof -
  have "drop_bit 2 (x AND 0xfc) = drop_bit 2 x mod 64" "drop_bit 4 (x AND 0xf0) = drop_bit 4 x mod 16"
    "drop_bit 6 (x AND 0xc0) = drop_bit 6 x mod 4" "drop_bit 4 (x AND 0x30) = drop_bit 4 x mod 4"
    "drop_bit 2 (x AND 0x3c) = drop_bit 2 x mod 16"
    by (simp_all add: nat_masks)
  then show "drop_bit 2 (x AND 0xfc) = x div 4 mod 64" "drop_bit 4 (x AND 0xf0) = x div 16 mod 16"
    "drop_bit 6 (x AND 0xc0) = x div 64 mod 4" "drop_bit 4 (x AND 0x30) = x div 16 mod 4"
    "drop_bit 2 (x AND 0x3c) = x div 4 mod 16"
    by (simp_all only: drop_bit_eq_div) simp_all
qed

lemma regroup:
  assumes "a < 256" "b < 256" "c < (256 :: nat)"
  shows "(a div 4) * 4 + ((a mod 4) * 16 + b div 16) div 16 mod 4 = a"
    "((a mod 4) * 16 + b div 16) mod 16 * 16 + ((b mod 16) * 4 + c div 64) div 4 mod 16 = b"
    "((b mod 16) * 4 + c div 64) mod 4 * 64 + c mod 64 = c"
proof -
  have "((a mod 4) * 16 + b div 16) div 16 = a mod 4" "((a mod 4) * 16 + b div 16) mod 16 = b div 16"
    "((b mod 16) * 4 + c div 64) div 4 = b mod 16" "((b mod 16) * 4 + c div 64) mod 4 = c div 64"
    using assms by (simp_all add: less_mult_imp_div_less)
  then show "(a div 4) * 4 + ((a mod 4) * 16 + b div 16) div 16 mod 4 = a"
    "((a mod 4) * 16 + b div 16) mod 16 * 16 + ((b mod 16) * 4 + c div 64) div 4 mod 16 = b"
    "((b mod 16) * 4 + c div 64) mod 4 * 64 + c mod 64 = c"
    by (simp_all add: div_mult_mod_eq)
qed

lemma sextets_arith:
  assumes "a < 256" "b < 256" "c < 256"
  shows "sextets a b c = [a div 4, (a mod 4) * 16 + b div 16, (b mod 16) * 4 + c div 64, c mod 64]"
proof -
  have "a div 4 mod 64 = a div 4" "b div 16 mod 16 = b div 16" "c div 64 mod 4 = c div 64"
    using assms by (simp_all add: less_mult_imp_div_less)
  then show ?thesis
    by (simp only: sextets_def high_parts nat_masks push_bit_eq_mult) simp
qed

lemma octets_arith:
  "octets n m k l =
     [char_of (n * 4 + m div 16 mod 4), char_of (m mod 16 * 16 + k div 4 mod 16), char_of (k mod 4 * 64 + l)]"
  by (simp only: octets_def high_parts nat_masks push_bit_eq_mult) simp

lemma sextets_small:
  assumes "a < 256" "b < 256" "c < 256" shows "list_all (\<lambda>n. n < 64) (sextets a b c)"
proof -
  have "a div 4 < 64" "b div 16 < 16" "c div 64 < 4" using assms by (simp_all add: less_mult_imp_div_less)
  moreover have "a mod 4 < 4" "b mod 16 < 16" "c mod 64 < 64" by simp_all
  ultimately show ?thesis unfolding sextets_arith [OF assms] by (simp del: mod_less_divisor)
qed

lemma base64_alphabet:
  "n < 64 \<Longrightarrow> base64_value (base64_chars ! n) = n \<and> base64_chars ! n \<noteq> CHR ''=''
     \<and> is_base64_char (base64_chars ! n)"
proof -
  have "list_all (\<lambda>n. base64_value (base64_chars ! n) = n \<and> base64_chars ! n \<noteq> CHR ''=''
     \<and> is_base64_char (base64_chars ! n)) [0..<64]" by code_simp
  then show "n < 64 \<Longrightarrow> base64_value (base64_chars ! n) = n \<and> base64_chars ! n \<noteq> CHR ''=''
     \<and> is_base64_char (base64_chars ! n)" by (simp add: list_all_iff)
qed

lemma base64_values: "list_all (\<lambda>n. n < 64) ns \<Longrightarrow> map base64_value (base64_of ns) = ns"
  by (induction ns) (simp_all add: base64_of_def base64_alphabet)

lemma base64_of_plain:
  "list_all (\<lambda>n. n < 64) ns \<Longrightarrow> list_all (\<lambda>c. c \<noteq> CHR ''='' \<and> is_base64_char c) (base64_of ns)"
  by (induction ns) (simp_all add: base64_of_def base64_alphabet)

text \<open>The part of the text before the padding.\<close>

definition base64_plain :: "string \<Rightarrow> string" where
  "base64_plain s = takeWhile (\<lambda>c. c \<noteq> CHR ''='' \<and> is_base64_char c) s"

lemma plain_of: "list_all (\<lambda>n. n < 64) ns \<Longrightarrow> base64_plain (base64_of ns @ t) = base64_of ns @ base64_plain t"
  using base64_of_plain [of ns] by (simp add: base64_plain_def list_all_iff)

lemma octets_sextets:
  assumes "sextets (code_of a) (code_of b) (code_of c) = [n, m, k, l]"
  shows "octets n m k l = [a, b, c]"
proof -
  have b: "code_of a < 256" "code_of b < 256" "code_of c < 256" by simp_all
  then have e: "n = code_of a div 4" "m = code_of a mod 4 * 16 + code_of b div 16"
    "k = code_of b mod 16 * 4 + code_of c div 64" "l = code_of c mod 64"
    using assms sextets_arith by simp_all
  show ?thesis unfolding octets_arith e regroup [OF b] by simp
qed

lemma sextets_ends:
  "sextets a b 0 = [n, m, k, l] \<Longrightarrow> l = 0" "sextets a 0 0 = [n, m, k, l] \<Longrightarrow> k = 0 \<and> l = 0"
  by (auto simp: sextets_def)

lemma base64_bytes_text: "base64_bytes (base64_plain (base64_text s)) = s"
proof (induction s rule: base64_text.induct)
  case (1 a b c s)
  obtain n m k l where x: "sextets (code_of a) (code_of b) (code_of c) = [n, m, k, l]"
    by (simp add: sextets_def)
  then have "list_all (\<lambda>n. n < 64) [n, m, k, l]"
    using sextets_small [of "code_of a" "code_of b" "code_of c"] by simp
  then show ?case
    using 1 plain_of [of "[n, m, k, l]"] base64_values [of "[n, m, k, l]"] octets_sextets [OF x]
    by (simp add: x base64_of_def)
next
  case (2 a b)
  obtain n m k l where x: "sextets (code_of a) (code_of b) 0 = [n, m, k, l]" by (simp add: sextets_def)
  then have "list_all (\<lambda>n. n < 64) [n, m, k]" and "octets n m k l = [a, b, char_of (0 :: nat)]" and "l = 0"
    using sextets_small [of "code_of a" "code_of b" 0] octets_sextets [of a b "char_of (0 :: nat)"] sextets_ends(1) [OF x]
    by simp_all
  then show ?case
    using plain_of [of "[n, m, k]" "''=''"] base64_values [of "[n, m, k]"]
    by (simp add: x base64_of_def base64_plain_def)
next
  case (3 a)
  obtain n m k l where x: "sextets (code_of a) 0 0 = [n, m, k, l]" by (simp add: sextets_def)
  then have "list_all (\<lambda>n. n < 64) [n, m]"
    and "octets n m k l = [a, char_of (0 :: nat), char_of (0 :: nat)]" and "k = 0 \<and> l = 0"
    using sextets_small [of "code_of a" 0 0] octets_sextets [of a "char_of (0 :: nat)" "char_of (0 :: nat)"]
      sextets_ends(2) [OF x]
    by simp_all
  then show ?case
    using plain_of [of "[n, m]" "''==''"] base64_values [of "[n, m]"]
    by (simp add: x base64_of_def base64_plain_def)
next
  case 4
  show ?case by (simp add: base64_plain_def)
qed

section \<open>Percent encoding and back\<close>

lemma hex_char_digit: "d < 16 \<Longrightarrow> hex_char_to_dec (digit_char d) = d"
  by (simp add: hex_char_to_dec_def is_digit_def code_digit_char)

lemma join_nibbles: "x < 16 \<Longrightarrow> y < 16 \<Longrightarrow> push_bit 4 x OR y = 16 * x + (y :: nat)"
proof -
  have "list_all (\<lambda>x. list_all (\<lambda>y. push_bit 4 x OR y = 16 * x + (y :: nat)) [0..<16]) [0..<16]"
    by code_simp
  then show "x < 16 \<Longrightarrow> y < 16 \<Longrightarrow> push_bit 4 x OR y = 16 * x + (y :: nat)"
    by (simp add: list_all_iff)
qed

lemma hex_byte_hex2: "hex2 c = [a, b] \<Longrightarrow> hex_byte a b = c"
proof -
  assume h: "hex2 c = [a, b]"
  have "code_of c div 16 < 16" by (simp add: less_mult_imp_div_less)
  then have "push_bit 4 (code_of c div 16) OR code_of c mod 16 = code_of c"
    by (simp add: join_nibbles)
  then show "hex_byte a b = c"
    using h \<open>code_of c div 16 < 16\<close> by (auto simp: hex2_def hex2_upper_def hex_byte_def hex_char_digit)
qed

definition plus_for_space :: "char \<Rightarrow> char" where
  "plus_for_space c = (if c = CHR '' '' then CHR ''+'' else c)"

lemma percent_step:
  "percent_loop past (pre @ percent_char c @ post) (length pre) r =
     percent_loop past (pre @ percent_char c @ post) (length pre + length (percent_char c))
       (r @ [plus_for_space c])"
proof (cases "percent_char c = CHR ''%'' # hex2 c")
  case True
  obtain a b where h: "hex2 c = [a, b]" by (simp add: hex2_def hex2_upper_def)
  have "c \<noteq> CHR '' ''" using True by (auto simp: percent_char_def split: if_splits)
  then show ?thesis
    using hex_byte_hex2 [OF h]
    by (subst percent_loop.simps) (simp add: True h plus_for_space_def char_at_def nth_append numeral_eq_Suc)
next
  case False
  then have "percent_char c = [plus_for_space c]" and "plus_for_space c \<noteq> CHR ''%''"
    by (auto simp: percent_char_def plus_for_space_def char_class split: if_splits)
  then show ?thesis by (subst percent_loop.simps) simp
qed

lemma percent_loop_all:
  "percent_loop past (pre @ concat (map percent_char s)) (length pre) r = r @ map plus_for_space s"
proof (induction s arbitrary: pre r)
  case Nil
  show ?case by (subst percent_loop.simps) simp
next
  case (Cons c s)
  then show ?case
    using percent_step [of past pre c "concat (map percent_char s)" r]
      Cons(1) [of "pre @ percent_char c" "r @ [plus_for_space c]"] by simp
qed

lemma ascii_T:
  "ascii_api api \<Longrightarrow> is_ascii_text s \<Longrightarrow> T_to_utf8 api s = s"
  "ascii_api api \<Longrightarrow> is_ascii_text s \<Longrightarrow> utf8_to_T api s = s"
  by (simp_all add: T_to_utf8_def utf8_to_T_def gb18030_to_utf8_ascii utf8_to_gb18030_def utf16_to_gb18030_def
      utf8_to_utf16_def conv_to_multi_def conv_to_wide_def ascii_api_def)

lemma ascii_text_simps [simp]:
  "is_ascii_text []" "is_ascii_text (c # s) \<longleftrightarrow> 0 < code_of c \<and> code_of c < 128 \<and> is_ascii_text s"
  "is_ascii_text (s @ t) \<longleftrightarrow> is_ascii_text s \<and> is_ascii_text t"
  by (auto simp: is_ascii_text_def)

lemma ascii_digit: "d < 16 \<Longrightarrow> 0 < code_of (digit_char d) \<and> code_of (digit_char d) < 128"
  by (simp add: code_digit_char)

lemma ascii_hex2: "is_ascii_text (hex2 c)"
  using ascii_digit [of "code_of c div 16 mod 16"] ascii_digit [of "code_of c mod 16"]
  by (simp add: hex2_def hex2_upper_def)

lemma ascii_percent: "is_ascii_text s \<Longrightarrow> is_ascii_text (concat (map percent_char s))"
  by (induction s) (auto simp: percent_char_def ascii_hex2)

lemma ascii_plus: "is_ascii_text s \<Longrightarrow> is_ascii_text (map plus_for_space s)"
  by (induction s) (auto simp: plus_for_space_def)

lemma ascii_base64_of: "list_all (\<lambda>n. n < 64) ns \<Longrightarrow> is_ascii_text (base64_of ns)"
proof -
  have "0 < code_of c \<and> code_of c < 128" if "is_base64_char c" for c
    using that by (auto simp: is_base64_char_def char_class)
  then show "list_all (\<lambda>n. n < 64) ns \<Longrightarrow> is_ascii_text (base64_of ns)"
    by (induction ns) (simp_all add: base64_of_def base64_alphabet)
qed

lemma list_all_take: "list_all P xs \<Longrightarrow> list_all P (take n xs)"
  by (auto simp: list_all_iff dest: in_set_takeD)

lemma ascii_base64: "is_ascii_text (base64_text s)"
proof (induction s rule: base64_text.induct)
  case (1 a b c s)
  then show ?case using sextets_small [of "code_of a" "code_of b" "code_of c"] by (simp add: ascii_base64_of)
next
  case (2 a b)
  then show ?case
    using sextets_small [of "code_of a" "code_of b" 0] by (simp add: ascii_base64_of list_all_take)
next
  case (3 a)
  then show ?case
    using sextets_small [of "code_of a" 0 0] by (simp add: ascii_base64_of list_all_take)
qed simp

text \<open>
  C39: Base64 returns every ASCII text, but the percent form does not: a space is written as \<open>+\<close> and
  read back as \<open>+\<close>; everything else returns.
\<close>

theorem codecs_roundtrip:
  assumes "ascii_api api" and "is_ascii_text s"
  shows "base64_decode api (base64_encode api s) = s
    \<and> percent_str_decode api past (percent_str_encode api s) =
        map (\<lambda>c. if c = CHR '' '' then CHR ''+'' else c) s"
proof
  show "base64_decode api (base64_encode api s) = s"
    using base64_bytes_text [of s] assms ascii_base64 [of s]
    by (simp add: base64_decode_def base64_encode_def ascii_T base64_plain_def)
  have "percent_loop past (concat (map percent_char s)) 0 [] = map plus_for_space s"
    using percent_loop_all [of past "[]" s "[]"] by simp
  then have "percent_str_decode api past (percent_str_encode api s) = map plus_for_space s"
    using assms ascii_percent ascii_plus
    by (simp add: percent_str_decode_def percent_str_encode_def ascii_T)
  then show "percent_str_decode api past (percent_str_encode api s) =
      map (\<lambda>c. if c = CHR '' '' then CHR ''+'' else c) s"
    by (simp add: plus_for_space_def [abs_def])
qed

lemma codecs_roundtrip_witness:
  "base64_decode latin_api (base64_encode latin_api ''a b/c'') = ''a b/c''
   \<and> percent_str_decode latin_api (\<lambda>i. CHR ''x'') (percent_str_encode latin_api ''a b/c'') = ''a+b/c''"
  using codecs_roundtrip [OF ascii_latin_api, of "''a b/c''" "\<lambda>i. CHR ''x''"] by simp

section \<open>What the encoder writes is recognized\<close>

lemma top_bit: "n < 256 \<Longrightarrow> n AND 0x80 \<noteq> 0 \<longleftrightarrow> 128 \<le> (n :: nat)"
proof -
  assume "n < 256"
  then have "n div 128 = (if n < 128 then 0 else 1)" by auto
  then have "bit n 7 \<longleftrightarrow> 128 \<le> n" by (simp add: bit_iff_odd)
  then show ?thesis using and_exp_eq_0_iff_not_bit [of n 7] by simp
qed

lemma leading_ones_step:
  "n < 256 \<Longrightarrow> leading_ones (Suc k) n = (if n < 128 then 0 else Suc (leading_ones k (2 * n - 256)))"
proof -
  assume n: "n < 256"
  have "push_bit 1 n mod 256 = 2 * n - 256" if "128 \<le> n"
    using n that mod_less [of "2 * n - 256" 256] by (simp add: push_bit_eq_mult mod_if mult.commute)
  then show ?thesis using top_bit [OF n] by auto
qed

lemma leading_ones_ranges:
  "n < 128 \<Longrightarrow> leading_ones (Suc k) n = 0"
  "128 \<le> n \<Longrightarrow> n < 192 \<Longrightarrow> leading_ones (Suc (Suc k)) n = 1"
  "192 \<le> n \<Longrightarrow> n < 224 \<Longrightarrow> leading_ones (Suc (Suc (Suc k))) n = 2"
  "224 \<le> n \<Longrightarrow> n < 240 \<Longrightarrow> leading_ones (Suc (Suc (Suc (Suc k)))) n = 3"
  "240 \<le> n \<Longrightarrow> n < 248 \<Longrightarrow> leading_ones (Suc (Suc (Suc (Suc (Suc k))))) n = 4"
proof -
  have s: "leading_ones (Suc j) m = Suc (leading_ones j (2 * m - 256))" if "128 \<le> m" "m < 256" for j m
    using leading_ones_step [of m j] that by simp
  show r0: "n < 128 \<Longrightarrow> leading_ones (Suc k) n = 0" for n k
    using leading_ones_step [of n k] by simp
  show r1: "128 \<le> n \<Longrightarrow> n < 192 \<Longrightarrow> leading_ones (Suc (Suc k)) n = 1" for n k
    using s [of n "Suc k"] r0 [of "2 * n - 256" k] by simp
  show r2: "192 \<le> n \<Longrightarrow> n < 224 \<Longrightarrow> leading_ones (Suc (Suc (Suc k))) n = 2" for n k
    using s [of n "Suc (Suc k)"] r1 [of "2 * n - 256" k] by simp
  show r3: "224 \<le> n \<Longrightarrow> n < 240 \<Longrightarrow> leading_ones (Suc (Suc (Suc (Suc k)))) n = 3" for n k
    using s [of n "Suc (Suc (Suc k))"] r2 [of "2 * n - 256" k] by simp
  show "240 \<le> n \<Longrightarrow> n < 248 \<Longrightarrow> leading_ones (Suc (Suc (Suc (Suc (Suc k))))) n = 4"
    using s [of n "Suc (Suc (Suc (Suc k)))"] r3 [of "2 * n - 256" k] by simp
qed

lemma high_len_ranges:
  assumes "code_of c = n"
  shows "n < 128 \<Longrightarrow> high_len c = 0" "128 \<le> n \<Longrightarrow> n < 192 \<Longrightarrow> high_len c = 1"
    "192 \<le> n \<Longrightarrow> n < 224 \<Longrightarrow> high_len c = 2" "224 \<le> n \<Longrightarrow> n < 240 \<Longrightarrow> high_len c = 3"
    "240 \<le> n \<Longrightarrow> n < 248 \<Longrightarrow> high_len c = 4"
proof -
  have e: "(8 :: nat) = Suc 7" "(7 :: nat) = Suc 6" "(6 :: nat) = Suc 5" "(5 :: nat) = Suc 4" "(4 :: nat) = Suc 3"
    by simp_all
  show "n < 128 \<Longrightarrow> high_len c = 0" "128 \<le> n \<Longrightarrow> n < 192 \<Longrightarrow> high_len c = 1"
    "192 \<le> n \<Longrightarrow> n < 224 \<Longrightarrow> high_len c = 2" "224 \<le> n \<Longrightarrow> n < 240 \<Longrightarrow> high_len c = 3"
    "240 \<le> n \<Longrightarrow> n < 248 \<Longrightarrow> high_len c = 4"
    unfolding high_len_def assms
    using leading_ones_ranges(1) [of n 7] leading_ones_ranges(2) [of n 6] leading_ones_ranges(3) [of n 5]
      leading_ones_ranges(4) [of n 4] leading_ones_ranges(5) [of n 3]
    by (simp_all only: e)
qed

lemma code_cast:
  assumes "take_bit n (k :: u32) = 0" and "x < 2 ^ n" and "unat k + unat x < 256"
  shows "code_of (cast_char (k OR x)) = unat k + unat x"
proof -
  have "unat k + unat x < 2 ^ LENGTH(32)" using assms(3) by simp
  then have "unat (k + x) = unat k + unat x" by (simp only: unat_add_lem)
  then show ?thesis using assms(3) unfolding cast_char_def or_is_add [OF assms(1,2)] by simp
qed

lemma unit_lengths:
  "c < 0x80 \<Longrightarrow> high_len (cast_char c) = 0" "x < 2 ^ 6 \<Longrightarrow> high_len (cast_char (0x80 OR x)) = 1"
  "x < 2 ^ 5 \<Longrightarrow> high_len (cast_char (0xC0 OR x)) = 2" "x < 2 ^ 4 \<Longrightarrow> high_len (cast_char (0xE0 OR x)) = 3"
  "x < 2 ^ 3 \<Longrightarrow> high_len (cast_char (0xF0 OR x)) = 4"
proof -
  show "c < 0x80 \<Longrightarrow> high_len (cast_char c) = 0"
    by (rule high_len_ranges(1) [OF refl]) (simp add: cast_char_def word_less_nat_alt)
  show "x < 2 ^ 6 \<Longrightarrow> high_len (cast_char (0x80 OR x)) = 1"
    using code_cast [of 6 "0x80" x] by (intro high_len_ranges(2) [OF refl]) (simp_all add: word_less_nat_alt)
  show "x < 2 ^ 5 \<Longrightarrow> high_len (cast_char (0xC0 OR x)) = 2"
    using code_cast [of 5 "0xC0" x] by (intro high_len_ranges(3) [OF refl]) (simp_all add: word_less_nat_alt)
  show "x < 2 ^ 4 \<Longrightarrow> high_len (cast_char (0xE0 OR x)) = 3"
    using code_cast [of 4 "0xE0" x] by (intro high_len_ranges(4) [OF refl]) (simp_all add: word_less_nat_alt)
  show "x < 2 ^ 3 \<Longrightarrow> high_len (cast_char (0xF0 OR x)) = 4"
    using code_cast [of 3 "0xF0" x] by (intro high_len_ranges(5) [OF refl]) (simp_all add: word_less_nat_alt)
qed

lemma units_state:
  assumes "c < 0x200000" shows "utf8_state 0 (utf8_units c @ s) = utf8_state 0 s"
proof -
  have six: "high_len (cast_char (0x80 OR (x AND 0x3F))) = 1" for x
  proof (rule unit_lengths(2))
    show "x AND 0x3F < 2 ^ 6" unfolding and_masks by (simp add: take_bit_eq_mod word_less_nat_alt unat_mod)
  qed
  consider "c < 0x80" | "\<not> c < 0x80" "c < 0x800" | "\<not> c < 0x800" "c < 0x10000" | "\<not> c < 0x10000"
    by blast
  then show ?thesis
  proof cases
    case 1
    then show ?thesis by (simp add: utf8_units_def unit_lengths(1) Let_def)
  next
    case 2
    then show ?thesis
      using unit_lengths(3) [OF drop_bound(1)] six by (simp add: utf8_units_def Let_def)
  next
    case 3
    then have "\<not> c < 0x80" using order.strict_trans [of c "0x80" "0x800"] by auto
    then show ?thesis
      using 3 unit_lengths(4) [OF drop_bound(2)] six by (simp add: utf8_units_def Let_def numeral_eq_Suc)
  next
    case 4
    then have "\<not> c < 0x800" "\<not> c < 0x80"
      using order.strict_trans [of c "0x80" "0x10000"] order.strict_trans [of c "0x800" "0x10000"] by auto
    then show ?thesis
      using 4 unit_lengths(5) [OF drop_bound(3) [OF assms]] six
      by (simp add: utf8_units_def Let_def numeral_eq_Suc)
  qed
qed

text \<open>
  Text that \<open>utf32_to_utf8\<close> wrote, of any code points up to 21 bits, is guessed to be ASCII or
  UTF-8, never one of the encodings tried later.
\<close>

theorem guess_utf8:
  assumes "list_all (\<lambda>c. c < 0x200000) cs"
  shows "guess (utf32_to_utf8 cs) = ''ascii'' \<or> guess (utf32_to_utf8 cs) = ''utf8''"
proof -
  have "utf8_state 0 (concat (map utf8_units cs))"
    using assms by (induction cs) (simp_all add: units_state)
  then have "is_utf8 (utf32_to_utf8 cs)" by (simp add: is_utf8_def utf32_to_utf8_concat)
  then show ?thesis by (simp add: guess_def)
qed

lemma guess_utf8_witness: "guess (utf32_to_utf8 [0x41, 0x20AC]) = ''utf8''"
proof -
  have "\<not> is_ascii (utf32_to_utf8 [0x41, 0x20AC])" by code_simp
  then have "guess (utf32_to_utf8 [0x41, 0x20AC]) \<noteq> ''ascii''"
    by (auto simp: guess_def split: if_splits)
  then show ?thesis using guess_utf8 [of "[0x41, 0x20AC]"] by simp
qed

end
