(* ===== verification/ModernString.thy ===== *)
theory ModernString
  imports StringUtils WinText
begin

text \<open>
  The class template \<open>ModernString\<close> of \<open>stringUtil.h\<close>: access, comparison, searching, splitting,
  trimming, case, replacing, joining and padding. The class has one field, the text \<open>data_\<close>, so an
  object is that list; \<open>'c\<close> is the template argument \<open>CharT\<close>. A position is a \<open>nat\<close> where \<open>None\<close>
  is \<open>npos\<close>. Where the source writes character literals, \<open>lit\<close> gives the character of type \<open>CharT\<close>
  that a literal converts to; it is the identity for \<open>char\<close>.
\<close>

section \<open>Access, assignment and concatenation\<close>

type_synonym 'c mstring = "'c list"

definition ms_at :: "'c mstring \<Rightarrow> nat \<Rightarrow> 'c outcome" where
  "ms_at s pos =
     (if pos < length s then Ret (s ! pos) else Exn (Out_of_range ''invalid string position''))"

definition ms_assign_char :: "'c \<Rightarrow> 'c mstring" where
  "ms_assign_char ch = replicate 1 ch"

definition ms_append :: "'c mstring \<Rightarrow> 'c list \<Rightarrow> 'c mstring" where
  \<comment> \<open>\<open>operator+=\<close> on a \<open>ModernString\<close> or a view\<close>
  "ms_append s other = s @ other"

definition ms_append_char :: "'c mstring \<Rightarrow> 'c \<Rightarrow> 'c mstring" where
  "ms_append_char s ch = s @ [ch]"

definition ms_plus :: "'c mstring \<Rightarrow> 'c list \<Rightarrow> 'c mstring" where
  "ms_plus lhs rhs = (let result = lhs in ms_append result rhs)"

definition ms_plus_char :: "'c mstring \<Rightarrow> 'c \<Rightarrow> 'c mstring" where
  "ms_plus_char lhs rhs = (let result = lhs in ms_append_char result rhs)"

definition ms_char_plus :: "'c \<Rightarrow> 'c mstring \<Rightarrow> 'c mstring" where
  "ms_char_plus lhs rhs = (let result = [] in ms_append (ms_append_char result lhs) rhs)"

text \<open>A C string ends at the first NUL.\<close>

definition ms_append_cstr :: "(char \<Rightarrow> 'c) \<Rightarrow> 'c mstring \<Rightarrow> 'c list \<Rightarrow> 'c mstring" where
  "ms_append_cstr lit s ch = s @ takeWhile (\<lambda>c. c \<noteq> lit (CHR 0x00)) ch"

definition ms_plus_cstr :: "(char \<Rightarrow> 'c) \<Rightarrow> 'c mstring \<Rightarrow> 'c list \<Rightarrow> 'c mstring" where
  "ms_plus_cstr lit lhs rhs = (let result = lhs in ms_append_cstr lit result rhs)"

definition ms_view_plus :: "'c list \<Rightarrow> 'c mstring \<Rightarrow> 'c mstring" where
  "ms_view_plus lhs rhs = (let result = lhs in ms_append result rhs)"

section \<open>Substrings\<close>

text \<open>\<open>data_.substr\<close>: a position past the end throws, a count past the end is cut.\<close>

definition ms_substr :: "'c mstring \<Rightarrow> nat \<Rightarrow> nat option \<Rightarrow> 'c mstring outcome" where
  "ms_substr s pos count =
     (if length s < pos then Exn (Out_of_range ''invalid string position'')
      else Ret (case count of None \<Rightarrow> drop pos s | Some n \<Rightarrow> take n (drop pos s)))"

definition ms_mid :: "'c mstring \<Rightarrow> nat \<Rightarrow> nat option \<Rightarrow> 'c mstring outcome" where
  "ms_mid s pos count = ms_substr s pos count"

text \<open>\<open>substr\<close> where the position comes from a search and is in range.\<close>

definition sub :: "'c mstring \<Rightarrow> nat \<Rightarrow> nat \<Rightarrow> 'c mstring" where
  "sub s pos count = take count (drop pos s)"

lemma ms_substr_sub: "pos \<le> length s \<Longrightarrow> ms_substr s pos (Some n) = Ret (sub s pos n)"
  by (simp add: ms_substr_def sub_def)

lemma ms_substr_drop: "pos \<le> length s \<Longrightarrow> ms_substr s pos None = Ret (drop pos s)"
  by (simp add: ms_substr_def)

definition ms_left :: "'c mstring \<Rightarrow> nat \<Rightarrow> 'c mstring" where
  "ms_left s count = (if length s \<le> count then s else sub s 0 count)"

definition ms_right :: "'c mstring \<Rightarrow> nat \<Rightarrow> 'c mstring" where
  "ms_right s count = (if length s \<le> count then s else sub s (length s - count) count)"

section \<open>Searching\<close>

fun find_if :: "('c \<Rightarrow> bool) \<Rightarrow> 'c list \<Rightarrow> nat option" where
  "find_if P [] = None"
| "find_if P (x # xs) = (if P x then Some 0 else map_option Suc (find_if P xs))"

definition find_if_from :: "('c \<Rightarrow> bool) \<Rightarrow> 'c list \<Rightarrow> nat \<Rightarrow> nat option" where
  "find_if_from P s pos = map_option (\<lambda>k. pos + k) (find_if P (drop pos s))"

text \<open>Searching back from \<open>pos\<close>; \<open>None\<close> is the default \<open>npos\<close>.\<close>

definition find_last_if :: "('c \<Rightarrow> bool) \<Rightarrow> 'c list \<Rightarrow> nat option \<Rightarrow> nat option" where
  "find_last_if P s pos =
     (let t = (case pos of None \<Rightarrow> s | Some n \<Rightarrow> take (Suc n) s)
      in map_option (\<lambda>k. length t - 1 - k) (find_if P (rev t)))"

definition ms_find :: "'c mstring \<Rightarrow> 'c list \<Rightarrow> nat \<Rightarrow> nat option" where
  "ms_find s str pos =
     (if length s < pos then None else map_option (\<lambda>k. pos + k) (find_str str (drop pos s)))"

definition ms_find_char :: "'c mstring \<Rightarrow> 'c \<Rightarrow> nat \<Rightarrow> nat option" where
  "ms_find_char s ch pos = find_char_from ch s pos"

definition ms_find_first_of :: "'c mstring \<Rightarrow> 'c list \<Rightarrow> nat \<Rightarrow> nat option" where
  "ms_find_first_of s chars pos = find_if_from (\<lambda>c. c \<in> set chars) s pos"

definition ms_find_first_not_of :: "'c mstring \<Rightarrow> 'c list \<Rightarrow> nat \<Rightarrow> nat option" where
  "ms_find_first_not_of s chars pos = find_if_from (\<lambda>c. c \<notin> set chars) s pos"

definition ms_find_last_of :: "'c mstring \<Rightarrow> 'c list \<Rightarrow> nat option \<Rightarrow> nat option" where
  "ms_find_last_of s chars pos = find_last_if (\<lambda>c. c \<in> set chars) s pos"

definition ms_find_last_not_of :: "'c mstring \<Rightarrow> 'c list \<Rightarrow> nat option \<Rightarrow> nat option" where
  "ms_find_last_not_of s chars pos = find_last_if (\<lambda>c. c \<notin> set chars) s pos"

text \<open>\<open>rfind\<close>: the last position, at most \<open>pos\<close>, where the text occurs.\<close>

fun rfind_at :: "'c list \<Rightarrow> 'c list \<Rightarrow> nat \<Rightarrow> nat option" where
  "rfind_at s str 0 = (if prefix str s then Some 0 else None)"
| "rfind_at s str (Suc k) = (if prefix str (drop (Suc k) s) then Some (Suc k) else rfind_at s str k)"

definition ms_rfind :: "'c mstring \<Rightarrow> 'c list \<Rightarrow> nat option \<Rightarrow> nat option" where
  "ms_rfind s str pos =
     (if length s < length str then None
      else
        let last = length s - length str
        in rfind_at s str (case pos of None \<Rightarrow> last | Some n \<Rightarrow> min n last))"

definition ms_rfind_char :: "'c mstring \<Rightarrow> 'c \<Rightarrow> nat option \<Rightarrow> nat option" where
  "ms_rfind_char s ch pos = find_last_if (\<lambda>c. c = ch) s pos"

lemma find_if_None: "find_if P s = None \<longleftrightarrow> (\<forall>c\<in>set s. \<not> P c)"
  by (induction s) auto

lemma find_if_Some:
  "find_if P s = Some k \<Longrightarrow> k < length s \<and> P (s ! k) \<and> (\<forall>c\<in>set (take k s). \<not> P c)"
  by (induction s arbitrary: k) (auto split: if_splits)

lemma find_if_takeWhile:
  "find_if P s = (if \<exists>c\<in>set s. P c then Some (length (takeWhile (\<lambda>c. \<not> P c) s)) else None)"
  by (induction s) auto

lemma find_if_char: "find_if (\<lambda>c. c = d) s = find_char d s"
  by (induction s) auto

lemma find_if_from_char: "find_if_from (\<lambda>c. c = d) s pos = find_char_from d s pos"
  by (simp add: find_if_from_def find_char_from_def find_if_char)

lemma find_if_from_Some:
  "find_if_from P s pos = Some k \<Longrightarrow> pos \<le> k \<and> k < length s \<and> P (s ! k)"
  by (auto simp: find_if_from_def dest: find_if_Some)

section \<open>Splitting\<close>

text \<open>
  The two overloads of \<open>split\<close> have one loop body and differ in the search for the next delimiter:
  \<open>find\<close> of a character or \<open>find_first_of\<close> a set of characters, both of which find the first
  character with a property from a position on.
\<close>

function ms_split_loop :: "('c \<Rightarrow> bool) \<Rightarrow> bool \<Rightarrow> 'c mstring \<Rightarrow> nat \<Rightarrow> 'c mstring list" where
  "ms_split_loop is_delim skip_empty s start =
     (case find_if_from is_delim s start of
        None \<Rightarrow> if \<not> skip_empty \<or> start < length s then [drop start s] else []
      | Some pos \<Rightarrow>
          (if \<not> skip_empty \<or> pos > start then [sub s start (pos - start)] else [])
          @ ms_split_loop is_delim skip_empty s (pos + 1))"
  by pat_completeness auto
termination
  by (relation "measure (\<lambda>(d, k, s, start). length s - start)") (auto dest!: find_if_from_Some)

declare ms_split_loop.simps [simp del]

definition ms_split :: "'c mstring \<Rightarrow> 'c \<Rightarrow> bool \<Rightarrow> 'c mstring list" where
  "ms_split s delimiter skip_empty = ms_split_loop (\<lambda>c. c = delimiter) skip_empty s 0"

definition ms_split_any :: "'c mstring \<Rightarrow> 'c list \<Rightarrow> bool \<Rightarrow> 'c mstring list" where
  "ms_split_any s delimiters skip_empty = ms_split_loop (\<lambda>c. c \<in> set delimiters) skip_empty s 0"

text \<open>Runs of delimiters as one: \<open>split_with_delim\<close>.\<close>

function skip_delims :: "'c list \<Rightarrow> 'c mstring \<Rightarrow> nat \<Rightarrow> nat" where
  "skip_delims delimiters s pos =
     (if pos < length s \<and> ms_find_first_of s delimiters pos = Some pos
      then skip_delims delimiters s (pos + 1) else pos)"
  by pat_completeness auto
termination
  by (relation "measure (\<lambda>(d, s, pos). length s - pos)") auto

declare skip_delims.simps [simp del]

lemma skip_delims_stops:
  "pos \<le> skip_delims d s pos
   \<and> (skip_delims d s pos < length s \<longrightarrow> ms_find_first_of s d (skip_delims d s pos) \<noteq> Some (skip_delims d s pos))"
proof (induction d s pos rule: skip_delims.induct)
  case (1 d s pos)
  show ?case
  proof (cases "pos < length s \<and> ms_find_first_of s d pos = Some pos")
    case True
    then show ?thesis using 1 by (subst (1 2 3 4) skip_delims.simps) simp
  qed (subst (1 2 3 4) skip_delims.simps, auto)
qed

function split_with_delim_loop :: "'c list \<Rightarrow> 'c mstring \<Rightarrow> nat \<Rightarrow> 'c mstring list" where
  "split_with_delim_loop delimiters s pos =
     (if pos < length s
      then
        let pos1 = skip_delims delimiters s pos
        in if length s \<le> pos1 then []
           else
             let end1 = (case ms_find_first_of s delimiters pos1 of None \<Rightarrow> length s | Some e \<Rightarrow> e)
             in sub s pos1 (end1 - pos1) # split_with_delim_loop delimiters s end1
      else [])"
  by pat_completeness auto
termination
proof (relation "measure (\<lambda>(d, s, pos). length s - pos)", goal_cases)
  case (2 d s pos p e)
  let ?p = "skip_delims d s pos"
  have "pos \<le> ?p" "ms_find_first_of s d ?p \<noteq> Some ?p"
    using skip_delims_stops [of pos d s] 2 by auto
  moreover have "?p \<le> k" if "ms_find_first_of s d ?p = Some k" for k
    using that by (auto simp: ms_find_first_of_def dest: find_if_from_Some)
  ultimately have "pos < e"
    using 2 by (cases "ms_find_first_of s d ?p") (auto simp: le_less)
  then show ?case using 2 by simp
qed simp

declare split_with_delim_loop.simps [simp del]

definition ms_split_with_delim :: "'c mstring \<Rightarrow> 'c list \<Rightarrow> 'c mstring list" where
  "ms_split_with_delim s delimiters = split_with_delim_loop delimiters s 0"

text \<open>
  \<open>split_by\<close>: an empty pattern is found where the search starts, so the loop adds empty parts
  forever: \<open>None\<close> is not returning.
\<close>

partial_function (option) split_by_loop ::
    "'c list \<Rightarrow> bool \<Rightarrow> 'c mstring \<Rightarrow> 'c mstring list \<Rightarrow> nat \<Rightarrow> 'c mstring list option" where
  "split_by_loop pattern incl s parts prev =
     (case ms_find s pattern prev of
        None \<Rightarrow> Some (parts @ [drop prev s])
      | Some pos \<Rightarrow>
          split_by_loop pattern incl s
            (parts @ [sub s prev (pos - prev)] @ (if incl then [sub s pos (length pattern)] else []))
            (pos + length pattern))"

definition ms_split_by :: "'c mstring \<Rightarrow> 'c list \<Rightarrow> bool \<Rightarrow> 'c mstring list option" where
  "ms_split_by s pattern incl = split_by_loop pattern incl s [] 0"

text \<open>\<open>split_lines\<close>: a carriage return before the end of a line is removed for the narrow types only.\<close>

function split_lines_loop :: "char_type \<Rightarrow> (char \<Rightarrow> 'c) \<Rightarrow> 'c mstring \<Rightarrow> nat \<Rightarrow> 'c mstring list" where
  "split_lines_loop t lit s start =
     (if start < length s
      then
        (case ms_find_char s (lit (CHR 0x0A)) start of
           None \<Rightarrow> [drop start s]
         | Some pos \<Rightarrow>
             (if (t = Char_t \<or> t = Char8_t) \<and> pos > start \<and> s ! (pos - 1) = lit (CHR 0x0D)
              then sub s start (pos - start - 1)
              else sub s start (pos - start))
             # split_lines_loop t lit s (pos + 1))
      else [])"
  by pat_completeness auto
termination
  by (relation "measure (\<lambda>(t, lit, s, start). length s - start)")
     (auto simp: ms_find_char_def dest!: find_char_from_bounds)

declare split_lines_loop.simps [simp del]

definition ms_split_lines :: "char_type \<Rightarrow> (char \<Rightarrow> 'c) \<Rightarrow> 'c mstring \<Rightarrow> 'c mstring list" where
  "ms_split_lines t lit s = split_lines_loop t lit s 0"

text \<open>
  \<open>split_chunks\<close>: the number of chunks is computed in \<open>size_t\<close>, of 64 bits, so that it wraps around
  when the chunk size is near the largest value.
\<close>

definition num_chunks :: "nat \<Rightarrow> nat \<Rightarrow> nat" where
  "num_chunks size1 chunk_size = (size1 + chunk_size - 1) mod 2 ^ 64 div chunk_size"

definition ms_split_chunks :: "'c mstring \<Rightarrow> nat \<Rightarrow> 'c mstring list" where
  "ms_split_chunks s chunk_size =
     (if chunk_size = 0 then []
      else map (\<lambda>i. let start = i * chunk_size in sub s start (min chunk_size (length s - start)))
             [0..<num_chunks (length s) chunk_size])"

section \<open>Trimming\<close>

definition trim_set :: "(char \<Rightarrow> 'c) \<Rightarrow> 'c list" where
  "trim_set lit = map lit [CHR '' '', CHR 0x09, CHR 0x0A, CHR 0x0D, CHR 0x0B, CHR 0x0C]"

definition ms_trim_left :: "'c mstring \<Rightarrow> 'c list \<Rightarrow> 'c mstring" where
  "ms_trim_left s chars =
     (case ms_find_first_not_of s chars 0 of None \<Rightarrow> [] | Some pos \<Rightarrow> drop pos s)"

definition ms_trim_right :: "'c mstring \<Rightarrow> 'c list \<Rightarrow> 'c mstring" where
  "ms_trim_right s chars =
     (case ms_find_last_not_of s chars None of None \<Rightarrow> [] | Some pos \<Rightarrow> sub s 0 (pos + 1))"

definition ms_trim :: "'c mstring \<Rightarrow> 'c list \<Rightarrow> 'c mstring" where
  "ms_trim s chars =
     (case ms_find_first_not_of s chars 0 of
        None \<Rightarrow> []
      | Some start \<Rightarrow>
          (case ms_find_last_not_of s chars None of
             None \<Rightarrow> drop start s
           | Some end1 \<Rightarrow> sub s start (end1 - start + 1)))"

definition ms_trim_space :: "(char \<Rightarrow> 'c) \<Rightarrow> 'c mstring \<Rightarrow> 'c mstring" where
  "ms_trim_space lit s = ms_trim s (trim_set lit)"

definition ms_trim_left_space :: "(char \<Rightarrow> 'c) \<Rightarrow> 'c mstring \<Rightarrow> 'c mstring" where
  "ms_trim_left_space lit s = ms_trim_left s (trim_set lit)"

definition ms_trim_right_space :: "(char \<Rightarrow> 'c) \<Rightarrow> 'c mstring \<Rightarrow> 'c mstring" where
  "ms_trim_right_space lit s = ms_trim_right s (trim_set lit)"

section \<open>Case\<close>

text \<open>
  The functions of the C library on \<open>char\<close> and on \<open>wchar_t\<close> are arguments. Lower case of wide text
  uses \<open>tolower\<close>, where upper case uses \<open>towupper\<close>; the other types are left as they are.
\<close>

definition ms_to_upper :: "char_type \<Rightarrow> ('c \<Rightarrow> 'c) \<Rightarrow> ('c \<Rightarrow> 'c) \<Rightarrow> 'c mstring \<Rightarrow> 'c mstring" where
  "ms_to_upper t toupper1 towupper1 s =
     map (\<lambda>c. case t of Char_t \<Rightarrow> toupper1 c | Wchar_t \<Rightarrow> towupper1 c | _ \<Rightarrow> c) s"

definition ms_to_lower :: "char_type \<Rightarrow> ('c \<Rightarrow> 'c) \<Rightarrow> 'c mstring \<Rightarrow> 'c mstring" where
  "ms_to_lower t tolower1 s =
     map (\<lambda>c. case t of Char_t \<Rightarrow> tolower1 c | Wchar_t \<Rightarrow> tolower1 c | _ \<Rightarrow> c) s"

definition ms_reversed :: "'c mstring \<Rightarrow> 'c mstring" where
  "ms_reversed s = rev s"

section \<open>Replacing\<close>

text \<open>
  \<open>replace\<close> of a text, as written: each turn appends everything before the occurrence, from
  position 0, and the loop only ends when \<open>find\<close> has returned \<open>npos\<close>. It is \<open>None\<close> where it does
  not return.
\<close>

partial_function (option) replace_loop ::
    "'c list \<Rightarrow> 'c list \<Rightarrow> 'c mstring \<Rightarrow> 'c mstring \<Rightarrow> nat \<Rightarrow> ('c mstring \<times> nat option) option" where
  "replace_loop old_str new_str s result pos =
     (case ms_find s old_str pos of
        None \<Rightarrow> Some (result, None)
      | Some pos \<Rightarrow>
          replace_loop old_str new_str s
            (ms_append (ms_append result (sub s 0 pos)) new_str) (pos + length old_str))"

definition ms_replace :: "'c mstring \<Rightarrow> 'c list \<Rightarrow> 'c list \<Rightarrow> 'c mstring option" where
  "ms_replace s old_str new_str =
     (case replace_loop old_str new_str s [] 0 of
        None \<Rightarrow> None
      | Some (result, pos) \<Rightarrow>
          Some (case pos of Some p \<Rightarrow> ms_append result (drop p s) | None \<Rightarrow> result))"

definition ms_replace_all :: "'c mstring \<Rightarrow> 'c list \<Rightarrow> 'c list \<Rightarrow> 'c mstring option" where
  "ms_replace_all s old_str new_str = ms_replace s old_str new_str"

definition ms_replace_first :: "'c mstring \<Rightarrow> 'c list \<Rightarrow> 'c list \<Rightarrow> nat \<Rightarrow> 'c mstring" where
  "ms_replace_first s old_str new_str from1 =
     (case ms_find s old_str from1 of
        None \<Rightarrow> s
      | Some pos \<Rightarrow> ms_plus (ms_plus (sub s 0 pos) new_str) (drop (pos + length old_str) s))"

definition ms_replace_char :: "'c mstring \<Rightarrow> 'c \<Rightarrow> 'c \<Rightarrow> 'c mstring" where
  "ms_replace_char s old_ch new_ch = map (\<lambda>c. if c = old_ch then new_ch else c) s"

section \<open>Joining\<close>

fun join_loop :: "'c list \<Rightarrow> bool \<Rightarrow> 'c mstring \<Rightarrow> 'c mstring list \<Rightarrow> 'c mstring" where
  "join_loop separator first result [] = result"
| "join_loop separator first result (str # strs) =
     join_loop separator False
       (ms_append (if \<not> first then ms_append result separator else result) str) strs"

definition ms_join :: "'c mstring list \<Rightarrow> 'c list \<Rightarrow> 'c mstring" where
  "ms_join strs separator = join_loop separator True [] strs"

definition ms_join_range :: "'c mstring list \<Rightarrow> 'c list \<Rightarrow> 'c mstring" where
  "ms_join_range strs separator = join_loop separator True [] strs"

section \<open>Tests\<close>

definition ms_contains :: "'c mstring \<Rightarrow> 'c list \<Rightarrow> bool" where
  "ms_contains s str \<longleftrightarrow> ms_find s str 0 \<noteq> None"

definition ms_contains_char :: "'c mstring \<Rightarrow> 'c \<Rightarrow> bool" where
  "ms_contains_char s ch \<longleftrightarrow> ms_find_char s ch 0 \<noteq> None"

definition ms_starts_with :: "'c mstring \<Rightarrow> 'c list \<Rightarrow> bool" where
  "ms_starts_with s pre \<longleftrightarrow> length pre \<le> length s \<and> sub s 0 (length pre) = pre"

definition ms_starts_with_char :: "'c mstring \<Rightarrow> 'c \<Rightarrow> bool" where
  "ms_starts_with_char s ch \<longleftrightarrow> s \<noteq> [] \<and> hd s = ch"

definition ms_ends_with :: "'c mstring \<Rightarrow> 'c list \<Rightarrow> bool" where
  "ms_ends_with s suf \<longleftrightarrow> length suf \<le> length s \<and> drop (length s - length suf) s = suf"

definition ms_ends_with_char :: "'c mstring \<Rightarrow> 'c \<Rightarrow> bool" where
  "ms_ends_with_char s ch \<longleftrightarrow> s \<noteq> [] \<and> last s = ch"

section \<open>Repeating and padding\<close>

definition ms_repeated :: "'c mstring \<Rightarrow> nat \<Rightarrow> 'c mstring" where
  "ms_repeated s count =
     (if count = 0 \<or> s = [] then []
      else if count = 1 then s
      else fold (\<lambda>i result. result @ s) [0..<count] [])"

definition ms_padded_left :: "'c mstring \<Rightarrow> nat \<Rightarrow> 'c \<Rightarrow> 'c mstring" where
  "ms_padded_left s width fill =
     (if width \<le> length s then s else replicate (width - length s) fill @ s)"

definition ms_padded_right :: "'c mstring \<Rightarrow> nat \<Rightarrow> 'c \<Rightarrow> 'c mstring" where
  "ms_padded_right s width fill =
     (if width \<le> length s then s else s @ replicate (width - length s) fill)"

definition ms_centered :: "'c mstring \<Rightarrow> nat \<Rightarrow> 'c \<Rightarrow> 'c mstring" where
  "ms_centered s width fill =
     (if width \<le> length s then s
      else
        let pad_total = width - length s; pad_left = pad_total div 2; pad_right = pad_total - pad_left
        in replicate pad_left fill @ s @ replicate pad_right fill)"

section \<open>Comparing\<close>

text \<open>
  \<open>compare\<close> of \<open>basic_string\<close>: the first different characters decide by their values, then the
  lengths; only the sign of the result is specified. \<open>key\<close> is the unsigned value of a character.
\<close>

fun ms_compare :: "('c \<Rightarrow> nat) \<Rightarrow> 'c mstring \<Rightarrow> 'c list \<Rightarrow> int" where
  "ms_compare key [] [] = 0"
| "ms_compare key [] (y # ys) = - 1"
| "ms_compare key (x # xs) [] = 1"
| "ms_compare key (x # xs) (y # ys) =
     (if key x < key y then - 1 else if key y < key x then 1 else ms_compare key xs ys)"

definition ms_compare_at ::
    "('c \<Rightarrow> nat) \<Rightarrow> 'c mstring \<Rightarrow> nat \<Rightarrow> nat option \<Rightarrow> 'c list \<Rightarrow> int outcome" where
  "ms_compare_at key s pos count view =
     (case ms_substr s pos count of Ret t \<Rightarrow> Ret (ms_compare key t view) | Exn e \<Rightarrow> Exn e | Hang \<Rightarrow> Hang)"

definition ms_less :: "('c \<Rightarrow> nat) \<Rightarrow> 'c mstring \<Rightarrow> 'c mstring \<Rightarrow> bool" where
  "ms_less key s other \<longleftrightarrow> ms_compare key s other < 0"

definition ms_less_eq :: "('c \<Rightarrow> nat) \<Rightarrow> 'c mstring \<Rightarrow> 'c mstring \<Rightarrow> bool" where
  "ms_less_eq key s other \<longleftrightarrow> ms_compare key s other \<le> 0"

definition ms_greater :: "('c \<Rightarrow> nat) \<Rightarrow> 'c mstring \<Rightarrow> 'c mstring \<Rightarrow> bool" where
  "ms_greater key s other \<longleftrightarrow> 0 < ms_compare key s other"

definition ms_greater_eq :: "('c \<Rightarrow> nat) \<Rightarrow> 'c mstring \<Rightarrow> 'c mstring \<Rightarrow> bool" where
  "ms_greater_eq key s other \<longleftrightarrow> 0 \<le> ms_compare key s other"

end
