(* ===== verification/ModernText.thy ===== *)
theory ModernText
  imports ModernString
begin

text \<open>
  What the operations of \<open>ModernString\<close> compute: the ways of splitting against the reference
  \<open>split\<close> of \<open>core/utils.hpp\<close> and against joining, chunks, lines, trimming and replacing.
\<close>

section \<open>Splitting on a character\<close>

fun parts_ref :: "('c \<Rightarrow> bool) \<Rightarrow> 'c list \<Rightarrow> 'c list list" where
  \<comment> \<open>the maximal runs without delimiters\<close>
  "parts_ref P [] = [[]]"
| "parts_ref P (c # cs) =
     (if P c then [] # parts_ref P cs
      else (c # hd (parts_ref P cs)) # tl (parts_ref P cs))"

lemma parts_ref_ne [simp]: "parts_ref P s \<noteq> []"
  by (cases s) auto

lemma parts_ref_split: "parts_ref (\<lambda>c. c = d) s = split_ref d s"
  by (induction s) auto

lemma parts_ref_none: "find_if P s = None \<Longrightarrow> parts_ref P s = [s]"
  by (induction s) (auto split: if_splits)

lemma parts_ref_some:
  "find_if P s = Some k \<Longrightarrow> parts_ref P s = take k s # parts_ref P (drop (Suc k) s)"
  by (induction s arbitrary: k) (auto split: if_splits)

definition skipped :: "bool \<Rightarrow> 'c list list \<Rightarrow> 'c list list" where
  "skipped skip_empty ps = (if skip_empty then filter (\<lambda>p. p \<noteq> []) ps else ps)"

lemma skipped_Cons: "skipped k (p # ps) = (if \<not> k \<or> p \<noteq> [] then [p] else []) @ skipped k ps"
  by (simp add: skipped_def)

lemma skipped_Nil [simp]: "skipped k [] = []"
  by (simp add: skipped_def)

lemma ms_split_loop_ref:
  "start \<le> length s \<Longrightarrow> ms_split_loop P k s start = skipped k (parts_ref P (drop start s))"
proof (induction P k s start rule: ms_split_loop.induct)
  case (1 P k s start)
  show ?case
  proof (cases "find_if P (drop start s)")
    case None
    then show ?thesis
      using 1(2) by (subst ms_split_loop.simps)
        (auto simp: find_if_from_def parts_ref_none skipped_Cons)
  next
    case (Some j)
    then have j: "j < length s - start" using find_if_Some by fastforce
    have "ms_split_loop P k s (start + j + 1) = skipped k (parts_ref P (drop (start + j + 1) s))"
      using 1(1) [of "start + j"] j Some by (simp add: find_if_from_def)
    moreover have "sub s start j = [] \<longleftrightarrow> j = 0" using j by (auto simp: sub_def)
    ultimately show ?thesis
      using Some by (subst ms_split_loop.simps)
        (auto simp: find_if_from_def parts_ref_some skipped_Cons sub_def add.commute)
  qed
qed

lemma ms_split_ref: "ms_split s d k = skipped k (split_ref d s)"
  by (simp add: ms_split_def ms_split_loop_ref parts_ref_split)

lemma ms_split_any_ref: "ms_split_any s ds k = skipped k (parts_ref (\<lambda>c. c \<in> set ds) s)"
  by (simp add: ms_split_any_def ms_split_loop_ref)

section \<open>Joining\<close>

lemma join_loop_append:
  "join_loop sep False result xs = result @ concat (map (\<lambda>x. sep @ x) xs)"
  by (induction xs arbitrary: result) (simp_all add: ms_append_def)

lemma ms_join_Cons: "ms_join (x # xs) sep = x @ concat (map (\<lambda>y. sep @ y) xs)"
  by (simp add: ms_join_def join_loop_append ms_append_def)

lemma ms_join_Nil [simp]: "ms_join [] sep = []"
  by (simp add: ms_join_def)

lemma ms_join_prefix: "ys \<noteq> [] \<Longrightarrow> ms_join (x # ys) sep = x @ sep @ ms_join ys sep"
  by (cases ys) (simp_all add: ms_join_Cons)

lemma ms_join_string: "ms_join xs sep = join sep xs"
proof (induction sep xs rule: join.induct)
  case (3 sep x y ys)
  then show ?case by (simp add: ms_join_prefix)
qed (simp_all add: ms_join_Cons)

text \<open>
  C34: The class and the helper \<open>utils::split\<close> agree on a character: the same fields, without the
  empty ones where asked, and joining the fields with the character gives the text back.
\<close>

theorem ms_split_is_split:
  "ms_split s d False = split s d \<and> ms_split s d True = filter (\<lambda>p. p \<noteq> []) (split s d)
   \<and> ms_join (ms_split s d False) [d] = s"
  by (simp add: ms_split_ref skipped_def split_eq_ref ms_join_string join_split_ref)

section \<open>Splitting on runs of delimiters\<close>

lemma skip_delims_parts:
  assumes "pos \<le> length s"
  shows "skipped True (parts_ref (\<lambda>c. c \<in> set d) (drop (skip_delims d s pos) s))
           = skipped True (parts_ref (\<lambda>c. c \<in> set d) (drop pos s)) \<and> skip_delims d s pos \<le> length s"
  using assms
proof (induction d s pos rule: skip_delims.induct)
  case (1 d s pos)
  show ?case
  proof (cases "pos < length s \<and> ms_find_first_of s d pos = Some pos")
    case True
    then have "s ! pos \<in> set d" by (auto simp: ms_find_first_of_def dest: find_if_from_Some)
    then have "skipped True (parts_ref (\<lambda>c. c \<in> set d) (drop pos s))
        = skipped True (parts_ref (\<lambda>c. c \<in> set d) (drop (pos + 1) s))"
      using True by (simp add: Cons_nth_drop_Suc [symmetric] skipped_Cons)
    then show ?thesis using 1 True by (subst (1 2) skip_delims.simps) simp
  qed (subst (1 2) skip_delims.simps, use 1 in auto)
qed

lemma split_with_delim_ref:
  "pos \<le> length s \<Longrightarrow>
     split_with_delim_loop d s pos = skipped True (parts_ref (\<lambda>c. c \<in> set d) (drop pos s))"
proof (induction d s pos rule: split_with_delim_loop.induct)
  case (1 d s pos)
  let ?P = "\<lambda>c. c \<in> set d" and ?p = "skip_delims d s pos"
  note p = skip_delims_parts [OF 1(2), of d]
  show ?case
  proof (cases "pos < length s \<and> ?p < length s")
    case False
    then show ?thesis
      using p 1(2) by (subst split_with_delim_loop.simps) (auto simp: skipped_Cons Let_def)
  next
    case True
    have n: "ms_find_first_of s d ?p \<noteq> Some ?p" using skip_delims_stops [of pos d s] True by blast
    define e where "e = (case ms_find_first_of s d ?p of None \<Rightarrow> length s | Some e \<Rightarrow> e)"
    have step: "split_with_delim_loop d s pos = sub s ?p (e - ?p) # split_with_delim_loop d s e"
      using True by (subst split_with_delim_loop.simps) (simp add: Let_def e_def)
    have "skipped True (parts_ref ?P (drop ?p s))
        = sub s ?p (e - ?p) # skipped True (parts_ref ?P (drop e s)) \<and> e \<le> length s"
    proof (cases "find_if ?P (drop ?p s)")
      case None
      then have "e = length s" by (simp add: e_def ms_find_first_of_def find_if_from_def)
      then show ?thesis using None True by (simp add: parts_ref_none skipped_Cons sub_def)
    next
      case (Some j)
      then have e: "e = ?p + j" by (simp add: e_def ms_find_first_of_def find_if_from_def)
      have "j \<noteq> 0" using n Some by (simp add: ms_find_first_of_def find_if_from_def)
      moreover have j: "j < length s - ?p" "?P (drop ?p s ! j)" using find_if_Some [OF Some] by auto
      ultimately have "take j (drop ?p s) \<noteq> []" by auto
      moreover have "drop e s = (drop ?p s ! j) # drop (Suc j) (drop ?p s)"
        using j e by (simp add: Cons_nth_drop_Suc add.commute)
      ultimately show ?thesis
        using Some j e by (simp add: parts_ref_some skipped_Cons sub_def)
    qed
    moreover from this have "split_with_delim_loop d s e = skipped True (parts_ref ?P (drop e s))"
      using 1(1) [OF _ refl _ refl] True by (simp add: e_def)
    ultimately show ?thesis using step p by simp
  qed
qed

text \<open>
  \<open>split_with_delim\<close>, which walks over runs of delimiters, gives the fields of \<open>split\<close> with
  \<open>skip_empty\<close>.
\<close>

theorem split_with_delim_skips:
  "ms_split_with_delim s ds = ms_split_any s ds True"
  by (simp add: ms_split_with_delim_def split_with_delim_ref ms_split_any_ref)

section \<open>Splitting on a pattern\<close>

lemma find_str_first:
  "find_str p s = Some k \<Longrightarrow> p \<noteq> [] \<Longrightarrow> \<not> sublist p (take k s)"
proof (induction s arbitrary: k)
  case (Cons x xs)
  show ?case
  proof (cases k)
    case (Suc j)
    then have "\<not> prefix p (x # xs)" "find_str p xs = Some j" using Cons(2) by (auto split: if_splits)
    moreover from this have "\<not> prefix p (x # take j xs)"
      by (metis prefix_order.trans take_is_prefix take_Suc_Cons)
    ultimately show ?thesis using Cons(1,3) Suc by (auto simp: sublist_Cons_right)
  qed (use Cons(3) in simp)
qed simp

lemma ms_find_Some:
  assumes "ms_find s p pos = Some k" "p \<noteq> []"
  shows "pos \<le> k \<and> k + length p \<le> length s \<and> \<not> sublist p (sub s pos (k - pos))
    \<and> drop pos s = sub s pos (k - pos) @ p @ drop (k + length p) s \<and> sub s k (length p) = p"
proof -
  obtain j where j: "find_str p (drop pos s) = Some j" "k = pos + j" "pos \<le> length s"
    using assms(1) by (auto simp: ms_find_def split: if_splits)
  then obtain ys where ys: "drop k s = p @ ys" "k \<le> length s"
    using find_str_Some [OF j(1)] by (auto simp: prefix_def add.commute)
  moreover from this have "drop (k + length p) s = ys"
    by (metis append_eq_conv_conj drop_drop add.commute)
  moreover have "k + length p \<le> length s"
    using arg_cong [OF ys(1), of length] ys(2) by simp
  moreover have "drop pos s = take j (drop pos s) @ drop k s"
    using j(2) by (metis append_take_drop_id drop_drop add.commute)
  ultimately show ?thesis
    using find_str_first [OF j(1) assms(2)] j by (auto simp: sub_def)
qed

definition split_by_ok :: "bool \<Rightarrow> 'c list \<Rightarrow> 'c list \<Rightarrow> 'c list list \<Rightarrow> bool" where
  "split_by_ok incl p s parts \<longleftrightarrow>
     parts \<noteq> [] \<and> (if incl then concat parts = s
      else ms_join parts p = s \<and> list_all (\<lambda>q. \<not> sublist p q) parts)"

lemma split_by_runs:
  assumes "p \<noteq> []" "prev \<le> length s"
  shows "\<exists>qs. split_by_loop p incl s parts prev = Some (parts @ qs) \<and> split_by_ok incl p (drop prev s) qs"
  using assms(2)
proof (induction "length s - prev" arbitrary: parts prev rule: less_induct)
  case less
  show ?case
  proof (cases "ms_find s p prev")
    case None
    then have "\<not> sublist p (drop prev s)"
      using less(2) by (auto simp: ms_find_def find_str_None)
    moreover have "split_by_loop p incl s parts prev = Some (parts @ [drop prev s])"
      using None by (subst split_by_loop.simps) simp
    ultimately show ?thesis
      by (intro exI [of _ "[drop prev s]"]) (simp add: split_by_ok_def ms_join_Cons)
  next
    case (Some k)
    note k = ms_find_Some [OF Some assms(1)]
    let ?q = "[sub s prev (k - prev)] @ (if incl then [sub s k (length p)] else [])"
    have "length s - (k + length p) < length s - prev" using k assms(1) by (cases p) auto
    then obtain qs where qs: "split_by_loop p incl s (parts @ ?q) (k + length p) = Some ((parts @ ?q) @ qs)"
      "split_by_ok incl p (drop (k + length p) s) qs"
      using less(1) k by blast
    have "split_by_loop p incl s parts prev = Some (parts @ (?q @ qs))"
      using Some qs(1) by (subst split_by_loop.simps) simp
    moreover have "split_by_ok incl p (drop prev s) (?q @ qs)"
      using qs(2) k by (auto simp: split_by_ok_def ms_join_prefix)
    ultimately show ?thesis by blast
  qed
qed

lemma ms_find_empty: "ms_find s [] pos = (if pos \<le> length s then Some pos else None)"
  by (cases "drop pos s") (auto simp: ms_find_def)

lemma split_by_empty: "split_by_loop p incl s parts prev = Some r \<Longrightarrow> p = [] \<longrightarrow> \<not> prev \<le> length s"
proof (rule split_by_loop.raw_induct
    [where P = "\<lambda>p incl s parts prev r. p = [] \<longrightarrow> \<not> prev \<le> length s", rotated])
  fix g p incl s parts prev r
  assume IH: "\<And>p incl s parts prev (r :: 'a list list). g p incl s parts prev = Some r
      \<Longrightarrow> p = [] \<longrightarrow> \<not> prev \<le> length s"
    and run: "(case ms_find s p prev of None \<Rightarrow> Some (parts @ [drop prev s])
      | Some pos \<Rightarrow> g p incl s (parts @ [sub s prev (pos - prev)] @ (if incl then [sub s pos (length p)] else []))
          (pos + length p)) = Some r"
  show "p = [] \<longrightarrow> \<not> prev \<le> length s"
    using run by (auto simp: ms_find_empty dest!: IH)
qed

text \<open>
  C32: \<open>split_by\<close> returns exactly when the pattern is not empty. Without \<open>include\<close> no part holds the
  pattern, and joining the parts with it gives the text back; with \<open>include\<close> the parts put one after
  another are the text.
\<close>

theorem split_by_terminates:
  "case ms_split_by s pattern incl of
     None \<Rightarrow> pattern = []
   | Some parts \<Rightarrow> pattern \<noteq> [] \<and>
       (if incl then concat parts = s
        else ms_join parts pattern = s \<and> list_all (\<lambda>q. \<not> sublist pattern q) parts)"
proof (cases "pattern = []")
  case True
  have "split_by_loop [] incl s [] 0 = None"
    using split_by_empty [of "[]" incl s "[]" 0] by (cases "split_by_loop [] incl s [] 0") auto
  then show ?thesis using True by (simp add: ms_split_by_def)
next
  case False
  then show ?thesis
    using split_by_runs [of pattern 0 s incl "[]"] by (auto simp: ms_split_by_def split_by_ok_def)
qed

section \<open>Replacing\<close>

lemma replace_loop_empty: "replace_loop old new s result pos = Some r \<Longrightarrow> old = [] \<longrightarrow> \<not> pos \<le> length s"
proof (rule replace_loop.raw_induct
    [where P = "\<lambda>old new s result pos r. old = [] \<longrightarrow> \<not> pos \<le> length s", rotated])
  fix g old new s result pos r
  assume IH: "\<And>old new s result pos (r :: 'a list \<times> nat option). g old new s result pos = Some r
      \<Longrightarrow> old = [] \<longrightarrow> \<not> pos \<le> length s"
    and run: "(case ms_find s old pos of None \<Rightarrow> Some (result, None)
      | Some pos \<Rightarrow> g old new s (ms_append (ms_append result (sub s 0 pos)) new) (pos + length old)) = Some r"
  show "old = [] \<longrightarrow> \<not> pos \<le> length s"
    using run by (auto simp: ms_find_empty dest!: IH)
qed

lemma ms_replace_empty: "ms_replace s [] new = None"
proof -
  have "replace_loop [] new s [] 0 = None"
    using replace_loop_empty [of "[]" new s "[]" 0] by (cases "replace_loop [] new s [] 0") auto
  then show ?thesis by (simp add: ms_replace_def)
qed

text \<open>The positions the loop visits: the occurrences, left to right, that do not overlap.\<close>

function occurrences :: "'c list \<Rightarrow> 'c list \<Rightarrow> nat \<Rightarrow> nat list" where
  "occurrences old s pos =
     (case ms_find s old pos of
        None \<Rightarrow> []
      | Some k \<Rightarrow> if old = [] then [] else k # occurrences old s (k + length old))"
  by pat_completeness auto
termination
proof (relation "measure (\<lambda>(old, s, pos). length s - pos)", goal_cases)
  case (2 old s pos k)
  then have "pos \<le> k" "k + length old \<le> length s" using ms_find_Some by metis+
  then show ?case using 2(2) by (cases old) auto
qed simp

declare occurrences.simps [simp del]

lemma replace_loop_runs:
  "old \<noteq> [] \<Longrightarrow> replace_loop old new s result pos
     = Some (result @ concat (map (\<lambda>k. take k s @ new) (occurrences old s pos)), None)"
proof (induction old s pos arbitrary: result rule: occurrences.induct)
  case (1 old s pos)
  show ?case
    using 1 by (subst replace_loop.simps, subst occurrences.simps)
      (auto simp: ms_append_def sub_def split: option.splits)
qed

lemma ms_replace_runs:
  "old \<noteq> [] \<Longrightarrow> ms_replace s old new = Some (concat (map (\<lambda>k. take k s @ new) (occurrences old s 0)))"
  by (simp add: ms_replace_def replace_loop_runs)

text \<open>
  \<open>replace\<close> does not replace. On a text with one occurrence it gives the part before it with the
  new text and loses the part after it, which \<open>replace_first\<close> keeps; on a text without an occurrence
  it gives the empty text; on an empty pattern it does not return.
\<close>

theorem replace_loses_tail:
  assumes "old \<noteq> []" "\<not> sublist old (xs @ butlast old)" "\<not> sublist old ys"
  shows "ms_replace (xs @ old @ ys) old new = Some (xs @ new)
    \<and> ms_replace_first (xs @ old @ ys) old new 0 = xs @ new @ ys
    \<and> ms_replace ys old new = Some [] \<and> ms_replace ys [] new = None"
proof -
  let ?s = "xs @ old @ ys"
  have f: "ms_find ?s old 0 = Some (length xs)"
    using find_str_at [OF assms(1,2)] by (simp add: ms_find_def)
  have n: "ms_find ?s old (length xs + length old) = None" "ms_find ys old 0 = None"
    using assms(3) by (simp_all add: ms_find_def find_str_None)
  have "occurrences old ?s 0 = [length xs]" "occurrences old ys 0 = []"
    using f n assms(1) by (simp_all add: occurrences.simps)
  then show ?thesis
    using f assms(1)
    by (simp add: ms_replace_runs ms_replace_empty ms_replace_first_def ms_plus_def ms_append_def sub_def)
qed

lemma replace_loses_tail_witness:
  "ms_replace ''a-b'' ''-'' ''+'' = Some ''a+'' \<and> ms_replace_first ''a-b'' ''-'' ''+'' 0 = ''a+b''"
  using replace_loses_tail [of "''-''" "''a''" "''b''" "''+''"] by (simp add: sublist_Cons_right)

section \<open>Chunks\<close>

lemma concat_chunks:
  "concat (map (\<lambda>i. sub s (i * n) (min n (length s - i * n))) [0..<m]) = take (m * n) s"
proof (induction m)
  case (Suc m)
  have "take (n + m * n) s = take (m * n) s @ take n (drop (m * n) s)"
    by (metis add.commute take_add)
  moreover have "sub s (m * n) (min n (length s - m * n)) = take n (drop (m * n) s)"
    by (simp add: sub_def min_def)
  ultimately show ?case using Suc by simp
qed simp

lemma num_chunks_small:
  assumes "0 < n" "a + n - 1 < 2 ^ 64"
  shows "a \<le> num_chunks a n * n" and "i < num_chunks a n \<Longrightarrow> i * n < a"
proof -
  have q: "num_chunks a n = (a + n - 1) div n" using assms(2) by (simp add: num_chunks_def)
  have m: "(a + n - 1) div n * n + (a + n - 1) mod n = a + n - 1" by simp
  have "(a + n - 1) mod n < n" using assms(1) by simp
  then show "a \<le> num_chunks a n * n" unfolding q using m assms(1) by linarith
  assume "i < num_chunks a n"
  then have "(i + 1) * n \<le> num_chunks a n * n" by (intro mult_le_mono1) simp
  also have "\<dots> \<le> a + n - 1" unfolding q using m by linarith
  finally show "i * n < a" using assms(1) by simp
qed

lemma num_chunks_wraps:
  assumes "2 ^ 64 \<le> a + n - 1" "a < 2 ^ 64" "n < 2 ^ 64"
  shows "num_chunks a n = 0"
proof -
  have "(a + n - 1) mod 2 ^ 64 = a + n - 1 - 2 ^ 64"
    using assms by (simp add: mod_if)
  moreover have "a + n - 1 - 2 ^ 64 < n" using assms by linarith
  ultimately show ?thesis by (simp add: num_chunks_def)
qed

text \<open>
  C33: \<open>split_chunks\<close> cuts the text into non-empty pieces of at most the given size that make up the
  text, unless the size is so large that the sum in the number of chunks wraps around: then, as
  for size 0, there is no piece at all and the text is lost.
\<close>

theorem split_chunks_bounds:
  assumes "length s < 2 ^ 64" "n < 2 ^ 64"
  shows "concat (ms_split_chunks s n) = (if n = 0 \<or> 2 ^ 64 \<le> length s + n - 1 then [] else s)
    \<and> list_all (\<lambda>c. c \<noteq> [] \<and> length c \<le> n) (ms_split_chunks s n)"
proof (cases "n = 0 \<or> 2 ^ 64 \<le> length s + n - 1")
  case True
  then show ?thesis
    using num_chunks_wraps [of "length s" n] assms by (auto simp: ms_split_chunks_def)
next
  case False
  then have n: "0 < n" "length s + n - 1 < 2 ^ 64" by auto
  have "sub s (i * n) (min n (length s - i * n)) \<noteq> []" if "i < num_chunks (length s) n" for i
    using num_chunks_small(2) [OF n that] n(1) by (simp add: sub_def)
  then have "list_all (\<lambda>c. c \<noteq> [] \<and> length c \<le> n) (ms_split_chunks s n)"
    using n(1) by (auto simp: ms_split_chunks_def list_all_iff sub_def Let_def)
  moreover have "concat (ms_split_chunks s n) = s"
    using num_chunks_small(1) [OF n] n(1) by (simp add: ms_split_chunks_def concat_chunks Let_def)
  ultimately show ?thesis using False by simp
qed

lemma split_chunks_bounds_witness:
  "concat (ms_split_chunks ''abcde'' 2) = ''abcde'' \<and> concat (ms_split_chunks ''abcde'' (2 ^ 64 - 1)) = []"
  using split_chunks_bounds [of "''abcde''" 2] split_chunks_bounds [of "''abcde''" "2 ^ 64 - 1"] by simp

section \<open>Lines\<close>

lemma split_lines_Cons:
  assumes "lit (CHR 0x0A) \<notin> set x" "lit (CHR 0x0A) \<noteq> lit (CHR 0x0D)"
  shows "split_lines_loop t lit (pre @ x @ [lit (CHR 0x0D), lit (CHR 0x0A)] @ rest) (length pre)
    = (if t = Char_t \<or> t = Char8_t then x else x @ [lit (CHR 0x0D)])
      # split_lines_loop t lit (pre @ x @ [lit (CHR 0x0D), lit (CHR 0x0A)] @ rest) (length pre + length x + 2)"
proof -
  define S where "S = pre @ x @ [lit (CHR 0x0D), lit (CHR 0x0A)] @ rest"
  have "find_char (lit (CHR 0x0A)) ((x @ [lit (CHR 0x0D)]) @ lit (CHR 0x0A) # rest) = Some (length x + 1)"
    using assms find_char_append [of "lit (CHR 0x0A)" "x @ [lit (CHR 0x0D)]"] by simp
  then have f: "ms_find_char S (lit (CHR 0x0A)) (length pre) = Some (length pre + length x + 1)"
    by (simp add: ms_find_char_def find_char_from_def S_def)
  have cr: "S ! (length pre + length x) = lit (CHR 0x0D)"
    by (simp add: nth_append S_def)
  have parts: "sub S (length pre) (length x) = x" "sub S (length pre) (Suc (length x)) = x @ [lit (CHR 0x0D)]"
    "length pre < length S"
    by (simp_all add: S_def sub_def)
  have "split_lines_loop t lit S (length pre)
    = (if t = Char_t \<or> t = Char8_t then x else x @ [lit (CHR 0x0D)])
      # split_lines_loop t lit S (length pre + length x + 2)"
    by (subst split_lines_loop.simps) (simp add: f cr parts)
  then show ?thesis by (simp only: S_def)
qed

lemma split_lines_concat:
  assumes "lit (CHR 0x0A) \<noteq> lit (CHR 0x0D)" "list_all (\<lambda>x. lit (CHR 0x0A) \<notin> set x) ls"
  shows "split_lines_loop t lit (pre @ concat (map (\<lambda>x. x @ [lit (CHR 0x0D), lit (CHR 0x0A)]) ls)) (length pre)
    = (if t = Char_t \<or> t = Char8_t then ls else map (\<lambda>x. x @ [lit (CHR 0x0D)]) ls)"
  using assms(2)
proof (induction ls arbitrary: pre)
  case Nil
  then show ?case by (subst split_lines_loop.simps) simp
next
  case (Cons x ls)
  then have x: "lit (CHR 0x0A) \<notin> set x" by simp
  show ?case
    using Cons split_lines_Cons [OF x assms(1), of t pre "concat (map (\<lambda>x. x @ [lit (CHR 0x0D), lit (CHR 0x0A)]) ls)"]
      Cons(1) [of "pre @ x @ [lit (CHR 0x0D), lit (CHR 0x0A)]"]
    by (simp add: numeral_2_eq_2)
qed

text \<open>
  Lines ended by CR LF are read back by \<open>split_lines\<close> as they were in a narrow text. In a wide text
  every line keeps its carriage return, although the comment promises to handle line ends of all
  platforms.
\<close>

theorem split_lines_crlf:
  assumes "lit (CHR 0x0A) \<noteq> lit (CHR 0x0D)" "list_all (\<lambda>x. lit (CHR 0x0A) \<notin> set x) ls"
  shows "ms_split_lines t lit (concat (map (\<lambda>x. x @ [lit (CHR 0x0D), lit (CHR 0x0A)]) ls))
    = (if t = Char_t \<or> t = Char8_t then ls else map (\<lambda>x. x @ [lit (CHR 0x0D)]) ls)"
  using split_lines_concat [OF assms, of t "[]"] by (simp add: ms_split_lines_def)

lemma split_lines_crlf_witness:
  "ms_split_lines Char_t id (''a'' @ [CHR 0x0D, CHR 0x0A] @ ''b'' @ [CHR 0x0D, CHR 0x0A]) = [''a'', ''b'']"
  using split_lines_crlf [of id "[''a'', ''b'']" Char_t] by simp

section \<open>Trimming\<close>

lemma ms_trim_left_drop: "ms_trim_left s chars = dropWhile (\<lambda>c. c \<in> set chars) s"
  by (auto simp: ms_trim_left_def ms_find_first_not_of_def find_if_from_def find_if_takeWhile
      dropWhile_eq_drop takeWhile_eq_all_conv [THEN iffD2] split: option.splits)

lemma find_last_if_rev: "find_last_if P s None = map_option (\<lambda>k. length s - 1 - k) (find_if P (rev s))"
  by (simp add: find_last_if_def)

lemma ms_trim_right_find:
  "ms_trim_right s chars =
     (case find_if (\<lambda>c. c \<notin> set chars) (rev s) of None \<Rightarrow> [] | Some k \<Rightarrow> take (length s - 1 - k + 1) s)"
  by (simp add: ms_trim_right_def ms_find_last_not_of_def find_last_if_rev sub_def split: option.splits)

lemma ms_trim_right_drop: "ms_trim_right s chars = rev (dropWhile (\<lambda>c. c \<in> set chars) (rev s))"
proof (cases "find_if (\<lambda>c. c \<notin> set chars) (rev s)")
  case (Some k)
  then have "k = length (takeWhile (\<lambda>c. c \<in> set chars) (rev s))"
    by (simp add: find_if_takeWhile split: if_splits)
  then have d: "dropWhile (\<lambda>c. c \<in> set chars) (rev s) = drop k (rev s)"
    by (simp only: dropWhile_eq_drop)
  have "k < length s" using find_if_Some [OF Some] by simp
  then show ?thesis using Some by (simp add: ms_trim_right_find d rev_drop Suc_diff_Suc)
next
  case None
  then have "dropWhile (\<lambda>c. c \<in> set chars) (rev s) = []"
    by (simp only: find_if_None dropWhile_eq_Nil_conv) blast
  then show ?thesis using None by (simp add: ms_trim_right_find)
qed

lemma find_if_append: "find_if P xs = Some j \<Longrightarrow> find_if P (xs @ ys) = Some j"
  by (induction xs arbitrary: j) (auto split: if_splits)

text \<open>Trimming both ends is trimming one and then the other.\<close>

lemma ms_trim_both: "ms_trim s chars = ms_trim_right (ms_trim_left s chars) chars"
proof (cases "find_if (\<lambda>c. c \<notin> set chars) s")
  case None
  then show ?thesis
    by (simp add: ms_trim_def ms_trim_left_def ms_trim_right_def ms_find_first_not_of_def
        ms_find_last_not_of_def find_if_from_def find_last_if_rev)
next
  case (Some k)
  let ?P = "\<lambda>c. c \<notin> set chars" and ?t = "drop k s"
  note k = find_if_Some [OF Some]
  then have "?P (hd ?t)" "?t \<noteq> []" by (simp_all add: hd_drop_conv_nth)
  then obtain j where j: "find_if ?P (rev ?t) = Some j" by (cases "find_if ?P (rev ?t)") (auto simp: find_if_None)
  then have jl: "j < length ?t" using find_if_Some by fastforce
  have "find_if ?P (rev s) = Some j"
  proof -
    have "rev s = rev ?t @ rev (take k s)" by (metis append_take_drop_id rev_append)
    then show ?thesis using j find_if_append by metis
  qed
  moreover have "Suc (length s - Suc j - k) = Suc (length s - Suc (k + j))" by simp
  ultimately show ?thesis
    using Some j jl
    by (simp add: ms_trim_def ms_trim_left_def ms_trim_right_def ms_find_first_not_of_def
        ms_find_last_not_of_def find_if_from_def find_last_if_rev sub_def)
qed

section \<open>Order\<close>

lemma ms_compare_range: "ms_compare key s t \<in> {- 1, 0, 1}"
  by (induction key s t rule: ms_compare.induct) auto

lemma ms_compare_anti: "ms_compare key t s = - ms_compare key s t"
  by (induction key s t rule: ms_compare.induct) auto

lemma ms_compare_eq: "inj key \<Longrightarrow> ms_compare key s t = 0 \<longleftrightarrow> s = t"
proof (induction key s t rule: ms_compare.induct)
  case (4 key x xs y ys)
  then show ?case by (cases "key x" "key y" rule: linorder_cases) (auto simp: inj_eq)
qed auto

lemma ms_compare_trans:
  "ms_compare key s t < 0 \<Longrightarrow> ms_compare key t u < 0 \<Longrightarrow> ms_compare key s u < 0"
proof (induction key s t arbitrary: u rule: ms_compare.induct)
  case (2 key y ys) then show ?case by (cases u) simp_all
next
  case (4 key x xs y ys)
  show ?case
  proof (cases u)
    case (Cons z zs)
    consider "key x < key y" "key y \<le> key z" | "key x = key y" "key y < key z"
      | "key x = key y" "key y = key z"
      using 4(2,3) Cons by (fastforce split: if_splits)
    then show ?thesis
    proof cases
      case 3 then show ?thesis using 4(1) [of zs] 4(2,3) Cons by simp
    qed (simp_all add: Cons)
  qed (use 4(3) in simp)
qed simp_all

text \<open>The comparison operators are an order on texts, and a linear one.\<close>

lemma ms_greater_swap: "ms_greater key s t = ms_less key t s" "ms_greater_eq key s t = ms_less_eq key t s"
  using ms_compare_anti [of key t s]
  by (simp_all add: ms_greater_def ms_greater_eq_def ms_less_def ms_less_eq_def)

lemma ms_less_eq_iff: "inj key \<Longrightarrow> ms_less_eq key s t \<longleftrightarrow> ms_less key s t \<or> s = t"
  using ms_compare_eq [of key s t] by (auto simp: ms_less_eq_def ms_less_def)

interpretation ms_order: order "ms_less_eq code_of" "ms_less code_of"
proof
  have k: "inj (code_of :: char \<Rightarrow> nat)" by (rule injI) simp
  fix s t u :: string
  note anti = ms_compare_anti [of code_of t s]
  show "ms_less code_of s t = (ms_less_eq code_of s t \<and> \<not> ms_less_eq code_of t s)"
    using anti by (auto simp: ms_less_def ms_less_eq_def)
  show "ms_less_eq code_of s s" by (simp add: ms_less_eq_iff [OF k])
  show "ms_less_eq code_of s t \<Longrightarrow> ms_less_eq code_of t s \<Longrightarrow> s = t"
    using anti ms_compare_eq [OF k, of s t] by (simp add: ms_less_eq_def)
  show "ms_less_eq code_of s t \<Longrightarrow> ms_less_eq code_of t u \<Longrightarrow> ms_less_eq code_of s u"
    using ms_compare_trans [of code_of s t u] by (auto simp: ms_less_eq_iff [OF k] ms_less_def)
qed

lemma ms_order_total: "ms_less code_of s t \<or> s = t \<or> ms_less code_of t s"
  using ms_compare_anti [of code_of t s] ms_compare_eq [of "code_of :: char \<Rightarrow> nat" s t]
  by (auto simp: ms_less_def inj_def)

end
