(* ===== verification/ModernNumbers.thy ===== *)
theory ModernNumbers
  imports ModernString CNumbers
begin

text \<open>
  Numbers in \<open>ModernString<char>\<close>: reading integers and floating-point numbers, and printing integers.
  An integer type is a word of its width with a flag for signed types; arithmetic wraps around, as
  compiled code does where the standard leaves signed overflow open.
\<close>

section \<open>Character classes\<close>

definition ms_is_space :: "char \<Rightarrow> bool" where
  "ms_is_space c \<longleftrightarrow> c = CHR '' '' \<or> c = CHR 0x09 \<or> c = CHR 0x0A \<or> c = CHR 0x0D
     \<or> c = CHR 0x0B \<or> c = CHR 0x0C \<or> c = CHR 0x00"

definition ms_is_digit :: "char \<Rightarrow> bool" where
  "ms_is_digit c \<longleftrightarrow> code_of (CHR ''0'') \<le> code_of c \<and> code_of c \<le> code_of (CHR ''9'')"

definition ms_is_hex_digit :: "char \<Rightarrow> bool" where
  "ms_is_hex_digit c \<longleftrightarrow> ms_is_digit c
     \<or> (code_of (CHR ''a'') \<le> code_of c \<and> code_of c \<le> code_of (CHR ''f''))
     \<or> (code_of (CHR ''A'') \<le> code_of c \<and> code_of c \<le> code_of (CHR ''F''))"

definition ms_hex_value :: "char \<Rightarrow> nat" where
  "ms_hex_value c =
     (if code_of (CHR ''0'') \<le> code_of c \<and> code_of c \<le> code_of (CHR ''9'') then code_of c - code_of (CHR ''0'')
      else if code_of (CHR ''a'') \<le> code_of c \<and> code_of c \<le> code_of (CHR ''f'')
      then code_of c - code_of (CHR ''a'') + 10
      else if code_of (CHR ''A'') \<le> code_of c \<and> code_of c \<le> code_of (CHR ''F'')
      then code_of c - code_of (CHR ''A'') + 10
      else 0)"

section \<open>Reading integers\<close>

fun hex_loop :: "string \<Rightarrow> 'w::len word \<Rightarrow> 'w word" where
  "hex_loop [] result = result"
| "hex_loop (c # cs) result =
     (if \<not> ms_is_hex_digit c then result else hex_loop cs (result * 16 + of_nat (ms_hex_value c)))"

text \<open>
  The loop of \<open>parse_number\<close> on the text from position \<open>i\<close>: the value and whether a digit was seen,
  or the value of the hexadecimal branch, which is returned at once.
\<close>

fun number_loop :: "nat \<Rightarrow> nat \<Rightarrow> string \<Rightarrow> 'w::len word \<Rightarrow> bool \<Rightarrow> 'w word + 'w word \<times> bool" where
  "number_loop start i [] result has_digit = Inr (result, has_digit)"
| "number_loop start i (c # cs) result has_digit =
     (if \<not> ms_is_digit c
      then
        (if (c = CHR ''x'' \<or> c = CHR ''X'') \<and> i = start + 1 \<and> start = 1
         then Inl (hex_loop cs 0)
         else Inr (result, has_digit))
      else number_loop start (i + 1) cs (result * 10 + of_nat (code_of c - code_of (CHR ''0''))) True)"

definition parse_number :: "bool \<Rightarrow> string \<Rightarrow> 'w::len word option" where
  "parse_number signed1 s =
     (if s = [] then None
      else
        let negative = (signed1 \<and> hd s = CHR ''-'');
            start = (if signed1 \<and> (hd s = CHR ''-'' \<or> hd s = CHR ''+'') then 1 else 0)
        in if length s \<le> start then None
           else
             (case number_loop start start (drop start s) 0 False of
                Inl result \<Rightarrow> Some (if negative then - result else result)
              | Inr (result, has_digit) \<Rightarrow>
                  if \<not> has_digit then None else Some (if negative then - result else result)))"

text \<open>The range checks of \<open>to_int\<close> and \<open>to_uint\<close> compare a value with the limits of its own type.\<close>

definition ms_to_int :: "string \<Rightarrow> 'w::len word option" where
  "ms_to_int s =
     (case parse_number True s of
        Some result \<Rightarrow>
          if - (2 ^ (LENGTH('w) - 1)) \<le> sint (result :: 'w word) \<and> sint result \<le> 2 ^ (LENGTH('w) - 1) - 1
          then Some result else None
      | None \<Rightarrow> None)"

definition ms_to_uint :: "string \<Rightarrow> 'w::len word option" where
  "ms_to_uint s =
     (case parse_number False s of
        Some result \<Rightarrow>
          if 0 \<le> uint (result :: 'w word) \<and> unat result \<le> 2 ^ LENGTH('w) - 1 then Some result else None
      | None \<Rightarrow> None)"

definition ms_to_int_or :: "string \<Rightarrow> 'w::len word \<Rightarrow> 'w word" where
  "ms_to_int_or s default_value = (case ms_to_int s of Some v \<Rightarrow> v | None \<Rightarrow> default_value)"

definition ms_to_uint_or :: "string \<Rightarrow> 'w::len word \<Rightarrow> 'w word" where
  "ms_to_uint_or s default_value = (case ms_to_uint s of Some v \<Rightarrow> v | None \<Rightarrow> default_value)"

text \<open>The methods for the built-in types; \<open>long\<close> has 32 bits on the Windows targets.\<close>

definition to_int_int :: "string \<Rightarrow> 32 word option" where
  "to_int_int s = ms_to_int s"

definition to_long :: "string \<Rightarrow> 32 word option" where
  "to_long s = ms_to_int s"

definition to_llong :: "string \<Rightarrow> 64 word option" where
  "to_llong s = ms_to_int s"

definition to_uint_unsigned :: "string \<Rightarrow> 32 word option" where
  "to_uint_unsigned s = ms_to_uint s"

definition to_ulong :: "string \<Rightarrow> 32 word option" where
  "to_ulong s = ms_to_uint s"

definition to_ullong :: "string \<Rightarrow> 64 word option" where
  "to_ullong s = ms_to_uint s"

section \<open>Printing integers\<close>

text \<open>\<open>to_chars\<close> into a buffer of 64 characters; the fallback is for a number that does not fit.\<close>

definition to_string_safe :: "int \<Rightarrow> string" where
  "to_string_safe value =
     (let buffer = (if value < 0 then CHR ''-'' # dec (nat (- value)) else dec (nat value))
      in if length buffer \<le> 64 then buffer else ''0'')"

definition ms_from_int :: "'w::len word \<Rightarrow> string" where
  "ms_from_int value = to_string_safe (sint value)"

definition ms_from_uint :: "'w::len word \<Rightarrow> string" where
  "ms_from_uint value = to_string_safe (uint value)"

definition ms_from_hex :: "'w::len word \<Rightarrow> bool \<Rightarrow> string" where
  "ms_from_hex value uppercase =
     (if uppercase then show_base digit_char 16 (unat value) else hex_lower (unat value))"

definition ms_from_number :: "int \<Rightarrow> nat \<Rightarrow> char \<Rightarrow> string" where
  "ms_from_number value width fill =
     (let num_str = to_string_safe value
      in if length num_str < width then replicate (width - length num_str) fill @ num_str else num_str)"

section \<open>Reading and printing\<close>

lemma ms_is_digit_class: "ms_is_digit c = is_digit c"
  by (simp add: ms_is_digit_def is_digit_def)

lemma number_loop_digits:
  "all_digits s \<Longrightarrow>
     number_loop start i s (of_nat n) d
       = (Inr (of_nat (foldl (\<lambda>n c. n * 10 + digit_val c) n s), d \<or> s \<noteq> []) :: 'w::len word + 'w word \<times> bool)"
proof (induction s arbitrary: i n d)
  case (Cons c s)
  then have c: "ms_is_digit c" "digit_val c = code_of c - 48" "all_digits s"
    by (simp_all add: all_digits_def ms_is_digit_class digit_val_def)
  have "(of_nat n * 10 + of_nat (digit_val c) :: 'w word) = of_nat (n * 10 + digit_val c)" by simp
  then show ?case using Cons(1) [OF c(3), of "i + 1" "n * 10 + digit_val c" True] c by simp
qed simp

lemma number_loop_all:
  "all_digits s \<Longrightarrow>
     number_loop start i s 0 False = (Inr (of_nat (read_base 10 s), s \<noteq> []) :: 'w::len word + 'w word \<times> bool)"
  using number_loop_digits [of s start i 0 False] by (simp add: read_base_def)

lemma digits_hd: "all_digits s \<Longrightarrow> s \<noteq> [] \<Longrightarrow> hd s \<noteq> CHR ''-'' \<and> hd s \<noteq> CHR ''+''"
  by (cases s) (auto simp: all_digits_def is_digit_def)

lemma parse_digits:
  assumes "all_digits s" "s \<noteq> []"
  shows "parse_number sg s = Some (of_nat (read_base 10 s))"
  using digits_hd [OF assms] assms by (simp add: parse_number_def number_loop_all Let_def)

lemma parse_negative:
  assumes "all_digits s" "s \<noteq> []"
  shows "parse_number True (CHR ''-'' # s) = Some (- of_nat (read_base 10 s))"
  using assms by (simp add: parse_number_def number_loop_all Let_def)

lemma ms_to_int_parse: "ms_to_int s = parse_number True s"
  using sint_ge sint_less by (fastforce simp: ms_to_int_def split: option.splits)

lemma ms_to_uint_parse: "ms_to_uint s = parse_number False s"
proof -
  have "unat (v :: 'a word) \<le> 2 ^ LENGTH('a) - 1" for v
  proof -
    have "unat v < 2 ^ LENGTH('a)" by (rule unsigned_less)
    then show ?thesis by linarith
  qed
  then show ?thesis by (auto simp: ms_to_uint_def split: option.splits)
qed

text \<open>A number of at most 64 bits fits the buffer.\<close>

lemma length_show_base:
  assumes "2 \<le> b" "n < b ^ k" "0 < k"
  shows "length (show_base f b n) \<le> k"
  using assms(2,3)
proof (induction k arbitrary: n)
  case (Suc k)
  show ?case
  proof (cases "n < b")
    case False
    then have k: "0 < k" "n div b < b ^ k" using Suc(2) by (cases k, simp_all add: less_mult_imp_div_less mult.commute)
    show ?thesis using Suc(1) [OF k(2,1)] False assms(1) by (subst show_base.simps) simp
  qed (subst show_base.simps, simp)
qed simp

lemma length_dec: "n < 10 ^ k \<Longrightarrow> 0 < k \<Longrightarrow> length (dec n) \<le> k"
  by (simp add: dec_def length_show_base)

lemma to_string_safe_fits:
  assumes "\<bar>v\<bar> \<le> 2 ^ 64"
  shows "to_string_safe v = (if v < 0 then CHR ''-'' # dec (nat (- v)) else dec (nat v))"
proof -
  have "nat \<bar>v\<bar> \<le> 2 ^ 64" using assms by simp
  also have "(2::nat) ^ 64 < 10 ^ 20" by simp
  finally have "length (dec (nat \<bar>v\<bar>)) \<le> 20" by (intro length_dec) simp_all
  then show ?thesis by (auto simp: to_string_safe_def Let_def)
qed

text \<open>
  C35: An integer of at most 64 bits is printed so that it reads back as itself, the smallest signed
  number included.
\<close>

theorem number_roundtrip:
  assumes "LENGTH('w::len) \<le> 64"
  shows "ms_to_int (ms_from_int v) = Some (v :: 'w word) \<and> ms_to_uint (ms_from_uint v) = Some v"
proof -
  have p: "(2::int) ^ LENGTH('w) \<le> 2 ^ 64" using assms by (intro power_increasing) simp_all
  have l: "\<bar>sint v\<bar> \<le> 2 ^ LENGTH('w)"
  proof -
    have "(2::int) ^ (LENGTH('w) - 1) \<le> 2 ^ LENGTH('w)" by (intro power_increasing) simp_all
    then show ?thesis using sint_ge [of v] sint_less [of v] unfolding One_nat_def by linarith
  qed
  have u: "\<bar>uint v\<bar> \<le> 2 ^ LENGTH('w)" using less_imp_le [OF uint_lt2p [of v]] by simp
  have "parse_number True (to_string_safe (sint v)) = Some v"
  proof (cases "sint v < 0")
    case True
    then have "(- of_nat (nat (- sint v)) :: 'w word) = of_int (sint v)"
      by (metis of_int_minus of_int_of_nat_eq int_nat_eq neg_0_le_iff_le less_imp_le minus_minus)
    then show ?thesis
      using True l p by (simp add: to_string_safe_fits parse_negative)
  next
    case False
    then have "(of_nat (nat (sint v)) :: 'w word) = of_int (sint v)"
      by (metis of_int_of_nat_eq int_nat_eq not_less)
    then show ?thesis using False l p by (simp add: to_string_safe_fits parse_digits)
  qed
  moreover have "parse_number False (to_string_safe (uint v)) = Some v"
    using u p by (simp add: to_string_safe_fits parse_digits)
  ultimately show ?thesis
    by (simp add: ms_to_int_parse ms_to_uint_parse ms_from_int_def ms_from_uint_def)
qed

lemma number_roundtrip_witness:
  "ms_to_int (ms_from_int (- 128 :: 8 word)) = Some (- 128 :: 8 word)"
  using number_roundtrip [of "- 128 :: 8 word"] by simp

text \<open>
  The range checks never fail: any run of digits is accepted, and a number outside the range of
  the type is cut to its low bits.
\<close>

theorem number_wraps:
  assumes "all_digits s" "s \<noteq> []"
  shows "ms_to_uint s = Some (of_nat (read_base 10 s) :: 'w::len word)
    \<and> ms_to_int s = Some (of_nat (read_base 10 s) :: 'w word)
    \<and> ms_to_int (CHR ''-'' # s) = Some (- of_nat (read_base 10 s) :: 'w word)"
  using assms by (simp add: ms_to_int_parse ms_to_uint_parse parse_digits parse_negative)

lemma number_wraps_witness: "ms_to_uint ''256'' = Some (0 :: 8 word)"
proof -
  have "all_digits ''256''" "read_base 10 ''256'' = 256" by code_simp+
  then show ?thesis using number_wraps [of "''256''", where 'w = 8] by simp
qed

section \<open>Hexadecimal\<close>

lemma ms_hex_class: "ms_is_hex_digit c = is_hex c" "is_hex c \<Longrightarrow> ms_hex_value c = digit_val c"
  by (auto simp: ms_is_hex_digit_def ms_is_digit_def ms_hex_value_def digit_val_def char_class)

lemma hex_loop_digits:
  "list_all is_hex s \<Longrightarrow> hex_loop s (of_nat n :: 'w::len word) = of_nat (foldl (\<lambda>n c. n * 16 + digit_val c) n s)"
proof (induction s arbitrary: n)
  case (Cons c s)
  then have "list_all is_hex s" "is_hex c" by simp_all
  moreover have "(of_nat n * 16 + of_nat (digit_val c) :: 'w word) = of_nat (n * 16 + digit_val c)" by simp
  ultimately show ?case using Cons(1) [of "n * 16 + digit_val c"] by (simp add: ms_hex_class)
qed simp

lemma from_hex_digits:
  "list_all is_hex (ms_from_hex v u) \<and> read_base 16 (ms_from_hex v u) = unat v"
proof -
  have l: "is_hex (digit_char_lower d)" if "d < 16" for d
    using that by (auto simp: code_digit_char_lower char_class)
  show ?thesis
    using set_show_base [of 16 digit_char "unat v"] set_show_base [of 16 digit_char_lower "unat v"] l
    by (auto simp: ms_from_hex_def hex_lower_def read_show_base list_all_iff)
qed

text \<open>
  The hexadecimal branch of the parser is reached after a sign only: what \<open>from_hex\<close> prints
  reads back with \<open>+0x\<close> in front, but with \<open>0x\<close> it reads as 0. A sign and \<open>0x\<close> with no digit
  after it is read as 0 too.
\<close>

theorem hex_needs_sign:
  "ms_to_int (''+0x'' @ ms_from_hex (v :: 'w::len word) upper) = Some v \<and> ms_to_int (''0x'' @ ms_from_hex v upper) = Some (0 :: 'w word)
   \<and> ms_to_uint (''0x'' @ ms_from_hex v upper) = Some (0 :: 'w word) \<and> ms_to_int ''-0x'' = Some (0 :: 'w word)"
proof -
  have "hex_loop (ms_from_hex v upper) 0 = v"
    using from_hex_digits [of v upper] hex_loop_digits [of "ms_from_hex v upper" 0, where 'w = 'w]
    by (simp add: read_base_def)
  then show ?thesis
    by (simp add: ms_to_int_parse ms_to_uint_parse parse_number_def ms_is_digit_def Let_def)
qed

end
