(* ===== verification/ModernFloat.thy ===== *)
theory ModernFloat
  imports Complex_Main ModernNumbers
begin

text \<open>
  Reading floating-point numbers in \<open>ModernString<char>\<close>. The arithmetic of the type is an argument:
  the operations that \<open>parse_float\<close> and \<open>to_float\<close> apply. The exponent is an \<open>int\<close> of 32 bits.
\<close>

record 'f float_ops =
  fo_of_int :: "nat \<Rightarrow> 'f"
  fo_add :: "'f \<Rightarrow> 'f \<Rightarrow> 'f"
  fo_mul :: "'f \<Rightarrow> 'f \<Rightarrow> 'f"
  fo_div :: "'f \<Rightarrow> 'f \<Rightarrow> 'f"
  fo_neg :: "'f \<Rightarrow> 'f"
  fo_isfinite :: "'f \<Rightarrow> bool"

text \<open>
  The two loops that apply the exponent, as the number of their turns. The second one counts down
  from a negative number until the \<open>int\<close> wraps around.
\<close>

definition apply_exponent :: "'f float_ops \<Rightarrow> 32 word \<Rightarrow> 'f \<times> 'f \<Rightarrow> 'f \<times> 'f" where
  "apply_exponent ops exponent rd =
     (let ten = fo_of_int ops 10
      in if 0 < sint exponent
         then ((\<lambda>(r, d). (fo_mul ops r ten, fo_mul ops d ten)) ^^ nat (sint exponent)) rd
         else if sint exponent < 0
         then ((\<lambda>(r, d). (fo_div ops r ten, fo_div ops d ten)) ^^ nat (sint exponent + 2 ^ 31 + 1)) rd
         else rd)"

fun exponent_loop :: "string \<Rightarrow> 32 word \<Rightarrow> 32 word" where
  "exponent_loop [] exponent = exponent"
| "exponent_loop (c # cs) exponent =
     (if \<not> ms_is_digit c then exponent
      else exponent_loop cs (exponent * 10 + of_nat (code_of c - code_of (CHR ''0''))))"

text \<open>The exponent after the letter: its sign is read and not used.\<close>

definition scan_exponent :: "'f float_ops \<Rightarrow> string \<Rightarrow> 'f \<times> 'f \<Rightarrow> 'f \<times> 'f" where
  "scan_exponent ops rest rd =
     (let ds = (if hd rest = CHR ''-'' \<or> hd rest = CHR ''+'' then tl rest else rest)
      in if ds = [] then rd else apply_exponent ops (exponent_loop ds 0) rd)"

fun float_loop :: "'f float_ops \<Rightarrow> string \<Rightarrow> 'f \<Rightarrow> 'f \<Rightarrow> bool \<Rightarrow> bool \<Rightarrow> ('f \<times> 'f) \<times> bool" where
  "float_loop ops [] result divisor in_fraction has_digit = ((result, divisor), has_digit)"
| "float_loop ops (c # cs) result divisor in_fraction has_digit =
     (if c = CHR ''.''
      then
        (if in_fraction then ((result, divisor), has_digit)
         else float_loop ops cs result divisor True has_digit)
      else if \<not> ms_is_digit c
      then
        (if (c = CHR ''e'' \<or> c = CHR ''E'') \<and> cs \<noteq> []
         then (scan_exponent ops cs (result, divisor), has_digit)
         else ((result, divisor), has_digit))
      else
        float_loop ops cs
          (fo_add ops (fo_mul ops result (fo_of_int ops 10)) (fo_of_int ops (code_of c - code_of (CHR ''0''))))
          (if in_fraction then fo_mul ops divisor (fo_of_int ops 10) else divisor) in_fraction True)"

definition parse_float :: "'f float_ops \<Rightarrow> string \<Rightarrow> 'f option" where
  "parse_float ops s =
     (if s = [] then None
      else
        let negative = (hd s = CHR ''-'');
            start = (if hd s = CHR ''-'' \<or> hd s = CHR ''+'' then 1 else 0)
        in if length s \<le> start then None
           else
             (case float_loop ops (drop start s) (fo_of_int ops 0) (fo_of_int ops 1) False False of
                ((result, divisor), has_digit) \<Rightarrow>
                  if \<not> has_digit then None
                  else
                    let value = fo_div ops result divisor
                    in Some (if negative then fo_neg ops value else value)))"

definition ms_to_float :: "'f float_ops \<Rightarrow> string \<Rightarrow> 'f option" where
  "ms_to_float ops s =
     (case parse_float ops s of
        Some result \<Rightarrow> if fo_isfinite ops result then Some result else None
      | None \<Rightarrow> None)"

definition ms_to_float_or :: "'f float_ops \<Rightarrow> string \<Rightarrow> 'f \<Rightarrow> 'f" where
  "ms_to_float_or ops s default_value = (case ms_to_float ops s of Some v \<Rightarrow> v | None \<Rightarrow> default_value)"

section \<open>Exact arithmetic\<close>

text \<open>Arithmetic without rounding and without an infinity, in which the text alone decides the value.\<close>

definition exact_ops :: "'f::field_char_0 float_ops" where
  "exact_ops = \<lparr>fo_of_int = of_nat, fo_add = (+), fo_mul = (*), fo_div = (/), fo_neg = uminus,
     fo_isfinite = (\<lambda>x. True)\<rparr>"

lemma exact_ops_simps [simp]:
  "fo_of_int exact_ops = of_nat" "fo_add exact_ops = (+)" "fo_mul exact_ops = (*)" "fo_div exact_ops = (/)"
  "fo_neg exact_ops = uminus" "fo_isfinite exact_ops x"
  by (simp_all add: exact_ops_def)

lemma powers_of_ten:
  "((\<lambda>(r :: 'f, d :: 'f). (r * 10, d * 10)) ^^ n) (r, d) = (r * 10 ^ n, d * 10 ^ n :: 'f::field_char_0)"
  "((\<lambda>(r :: 'f, d :: 'f). (r / 10, d / 10)) ^^ n) (r, d) = (r / 10 ^ n, d / 10 ^ n :: 'f::field_char_0)"
  by (induction n) (simp_all add: field_simps)

lemma apply_exponent_exact:
  "\<exists>k. k \<noteq> 0 \<and> apply_exponent exact_ops e (r, d) = (r * k, d * k :: 'f::field_char_0)"
proof -
  consider "0 < sint e" | "sint e < 0" | "sint e = 0" by linarith
  then show ?thesis
  proof cases
    case 1
    then show ?thesis
      by (intro exI [of _ "10 ^ nat (sint e)"]) (simp add: apply_exponent_def Let_def powers_of_ten)
  next
    case 2
    then show ?thesis
      by (intro exI [of _ "1 / 10 ^ nat (sint e + 2 ^ 31 + 1)"])
        (simp add: apply_exponent_def Let_def powers_of_ten del: power_Suc)
  next
    case 3
    then show ?thesis by (intro exI [of _ 1]) (simp add: apply_exponent_def Let_def)
  qed
qed

lemma scan_exponent_exact:
  obtains k where "k \<noteq> 0" "scan_exponent exact_ops rest (r, d) = (r * k, d * k :: 'f::field_char_0)"
proof (cases "(if hd rest = CHR ''-'' \<or> hd rest = CHR ''+'' then tl rest else rest) = []")
  case True
  then show ?thesis using that [of 1] by (simp add: scan_exponent_def Let_def)
next
  case False
  define ds where "ds = (if hd rest = CHR ''-'' \<or> hd rest = CHR ''+'' then tl rest else rest)"
  obtain k where "k \<noteq> 0" "apply_exponent exact_ops (exponent_loop ds 0) (r, d) = (r * k, d * k)"
    using apply_exponent_exact by blast
  moreover have "scan_exponent exact_ops rest (r, d) = apply_exponent exact_ops (exponent_loop ds 0) (r, d)"
    using False by (simp only: scan_exponent_def Let_def ds_def if_False)
  ultimately show ?thesis using that by metis
qed

text \<open>The value of a plain decimal: the digits read so far and a power of ten for the fraction.\<close>

lemma float_loop_digits:
  assumes "all_digits ds"
  shows "float_loop exact_ops (ds @ rest) (of_nat n) dv fr hd1
    = float_loop exact_ops rest (of_nat (foldl (\<lambda>n c. n * 10 + digit_val c) n ds) :: 'f::field_char_0)
        (if fr then dv * 10 ^ length ds else dv) fr (hd1 \<or> ds \<noteq> [])"
  using assms
proof (induction ds arbitrary: n dv hd1)
  case (Cons c ds)
  then have c: "ms_is_digit c" "digit_val c = code_of c - 48" "all_digits ds" "c \<noteq> CHR ''.''"
    by (auto simp: all_digits_def ms_is_digit_class digit_val_def char_class)
  have "(of_nat n * 10 + of_nat (digit_val c) :: 'f) = of_nat (n * 10 + digit_val c)" by simp
  then show ?case using Cons(1) [OF c(3), of "n * 10 + digit_val c"] c by (simp add: mult.assoc)
qed simp

text \<open>
  The exponent of a number has no effect: result and divisor are scaled alike, so that without
  rounding \<open>1.5e3\<close> is read as \<open>1.5\<close>, whatever follows the letter.
\<close>

theorem float_exponent_ignored:
  assumes "all_digits a" "all_digits b" "a \<noteq> []" "rest \<noteq> []"
  shows "ms_to_float exact_ops (a @ CHR ''.'' # b @ CHR ''e'' # rest)
    = Some (of_nat (read_base 10 (a @ b)) / 10 ^ length b :: 'f::field_char_0)"
proof -
  let ?s = "a @ CHR ''.'' # b @ CHR ''e'' # rest"
  let ?r = "of_nat (read_base 10 (a @ b)) :: 'f"
  obtain k where k: "k \<noteq> 0" "scan_exponent exact_ops rest (?r, 10 ^ length b) = (?r * k, 10 ^ length b * k)"
    by (rule scan_exponent_exact)
  have "float_loop exact_ops ?s (of_nat 0) 1 False False = (scan_exponent exact_ops rest (?r, 10 ^ length b), True)"
    using assms float_loop_digits [OF assms(1), of "CHR ''.'' # b @ CHR ''e'' # rest" 0 "1 :: 'f" False False]
      float_loop_digits [OF assms(2), of "CHR ''e'' # rest" "read_base 10 a" "1 :: 'f" True True]
    by (simp add: read_base_def ms_is_digit_def)
  moreover have "hd ?s \<noteq> CHR ''-''" "hd ?s \<noteq> CHR ''+''" using digits_hd [OF assms(1,3)] assms(3) by simp_all
  ultimately show ?thesis
    using k assms(3) by (simp add: ms_to_float_def parse_float_def Let_def)
qed

lemma float_exponent_ignored_witness:
  "ms_to_float exact_ops ''1.5e3'' = Some (15 / 10 :: rat)"
proof -
  have "all_digits ''1''" "all_digits ''5''" "read_base 10 ''15'' = 15" by code_simp+
  then show ?thesis using float_exponent_ignored [of "''1''" "''5''" "''3''", where 'f = rat] by simp
qed

end
