(* ===== verification/ModernConvert.thy ===== *)
theory ModernConvert
  imports ModernString Unicode
begin

text \<open>
  Conversions between the instances of \<open>ModernString\<close>, the functions of the namespace \<open>encoding\<close>, and
  the serialised form. \<open>past\<close> is what a conversion finds after the end of a text it reads past.
\<close>

section \<open>The five instances\<close>

datatype modern_string =
    Char_s string
  | Wchar_s "u16 list"
  | Char8_s string
  | Char16_s "u16 list"
  | Char32_s "u32 list"

fun ms_type :: "modern_string \<Rightarrow> char_type" where
  "ms_type (Char_s s) = Char_t"
| "ms_type (Wchar_s s) = Wchar_t"
| "ms_type (Char8_s s) = Char8_t"
| "ms_type (Char16_s s) = Char16_t"
| "ms_type (Char32_s s) = Char32_t"

text \<open>
  The bytes of a \<open>char8_t\<close> text taken as as many units of 16 bits, low byte first: the view has the
  length of the text, so half of its units lie past the end.
\<close>

definition units_of_bytes :: "(nat \<Rightarrow> char) \<Rightarrow> string \<Rightarrow> u16 list" where
  "units_of_bytes past s =
     map (\<lambda>k. ucast (byte_at past s (2 * k)) OR push_bit 8 (ucast (byte_at past s (2 * k + 1)))) [0..<length s]"

fun ms_to_string :: "winapi \<Rightarrow> (nat \<Rightarrow> char) \<Rightarrow> modern_string \<Rightarrow> string outcome" where
  "ms_to_string api past (Char_s s) = Ret s"
| "ms_to_string api past (Wchar_s s) = encode_from_wide api Char_t s"
| "ms_to_string api past (Char8_s s) = Ret (from_utf16 (units_of_bytes past s))"
| "ms_to_string api past (Char16_s s) = Ret (from_utf16 s)"
| "ms_to_string api past (Char32_s s) = Ret (from_utf32 s)"

definition ms_to_utf8 :: "winapi \<Rightarrow> (nat \<Rightarrow> char) \<Rightarrow> modern_string \<Rightarrow> string outcome" where
  "ms_to_utf8 api past s = ms_to_string api past s"

text \<open>\<open>to_wstring\<close>; \<open>encode\<close> knows no code page for the two Unicode types and returns the empty text.\<close>

fun ms_to_wstring :: "winapi \<Rightarrow> modern_string \<Rightarrow> u16 list outcome" where
  "ms_to_wstring api (Wchar_s s) = Ret s"
| "ms_to_wstring api (Char_s s) = encode_to_wide api Char_t s"
| "ms_to_wstring api (Char8_s s) = encode_to_wide api Char8_t s"
| "ms_to_wstring api (Char16_s s) = (if GetWin32CodePage Char16_t = - 1 then Ret [] else encode_to_wide api Char16_t [])"
| "ms_to_wstring api (Char32_s s) = (if GetWin32CodePage Char32_t = - 1 then Ret [] else encode_to_wide api Char32_t [])"

definition map_out :: "('a \<Rightarrow> 'b) \<Rightarrow> 'a outcome \<Rightarrow> 'b outcome" where
  "map_out f r = (case r of Ret x \<Rightarrow> Ret (f x) | Exn e \<Rightarrow> Exn e | Hang \<Rightarrow> Hang)"

definition bind_out :: "'a outcome \<Rightarrow> ('a \<Rightarrow> 'b outcome) \<Rightarrow> 'b outcome" where
  "bind_out r f = (case r of Ret x \<Rightarrow> f x | Exn e \<Rightarrow> Exn e | Hang \<Rightarrow> Hang)"

definition ms_to_u16string :: "winapi \<Rightarrow> (nat \<Rightarrow> char) \<Rightarrow> modern_string \<Rightarrow> u16 list outcome" where
  "ms_to_u16string api past s =
     (case s of Char16_s d \<Rightarrow> Ret d | _ \<Rightarrow> bind_out (ms_to_string api past s) (to_utf16 past))"

definition ms_to_u32string :: "winapi \<Rightarrow> (nat \<Rightarrow> char) \<Rightarrow> modern_string \<Rightarrow> u32 list outcome" where
  "ms_to_u32string api past s =
     (case s of Char32_s d \<Rightarrow> Ret d | _ \<Rightarrow> bind_out (ms_to_string api past s) (to_utf32 past))"

text \<open>
  The converting constructor, which \<open>as\<close> calls; for the same type it is the copy constructor. A
  \<open>char8_t\<close> text is made from a C string, so it ends at the first NUL.
\<close>

definition ms_as :: "winapi \<Rightarrow> (nat \<Rightarrow> char) \<Rightarrow> char_type \<Rightarrow> modern_string \<Rightarrow> modern_string outcome" where
  "ms_as api past t other =
     (if ms_type other = t then Ret other
      else case t of
        Char_t \<Rightarrow> map_out Char_s (ms_to_string api past other)
      | Wchar_t \<Rightarrow> map_out Wchar_s (ms_to_wstring api other)
      | Char8_t \<Rightarrow> map_out (\<lambda>u. Char8_s (c_str u)) (ms_to_utf8 api past other)
      | Char16_t \<Rightarrow> map_out Char16_s (bind_out (ms_to_string api past other) (to_utf16 past))
      | Char32_t \<Rightarrow> map_out Char32_s (bind_out (ms_to_string api past other) (to_utf32 past)))"

text \<open>Comparing different instances: the operator is \<open>noexcept\<close>, so a conversion that throws ends the program.\<close>

definition ms_equal :: "winapi \<Rightarrow> (nat \<Rightarrow> char) \<Rightarrow> modern_string \<Rightarrow> modern_string \<Rightarrow> bool outcome" where
  "ms_equal api past lhs rhs =
     bind_out (ms_to_string api past lhs) (\<lambda>a. map_out (\<lambda>b. a = b) (ms_to_string api past rhs))"

section \<open>The namespace encoding\<close>

definition enc_utf8_to_utf16 :: "(nat \<Rightarrow> char) \<Rightarrow> string \<Rightarrow> modern_string outcome" where
  "enc_utf8_to_utf16 past str = map_out Char16_s (to_utf16 past str)"

definition enc_utf8_to_utf32 :: "(nat \<Rightarrow> char) \<Rightarrow> string \<Rightarrow> modern_string outcome" where
  "enc_utf8_to_utf32 past str = map_out Char32_s (to_utf32 past str)"

definition enc_utf16_to_utf8 :: "u16 list \<Rightarrow> modern_string" where
  "enc_utf16_to_utf8 str = Char_s (from_utf16 str)"

definition enc_utf32_to_utf8 :: "u32 list \<Rightarrow> modern_string" where
  "enc_utf32_to_utf8 str = Char_s (from_utf32 str)"

definition enc_utf16_to_utf32 :: "u16 list \<Rightarrow> modern_string" where
  "enc_utf16_to_utf32 str = Char32_s (utf16_to_utf32 str)"

definition enc_utf32_to_utf16 :: "u32 list \<Rightarrow> modern_string" where
  "enc_utf32_to_utf16 str = Char16_s (utf32_to_utf16 str)"

section \<open>Serialising\<close>

text \<open>A \<open>uint32_t\<close> in memory, low byte first.\<close>

definition le32 :: "nat \<Rightarrow> string" where
  "le32 n = map char_of [n, n div 256, n div 256 div 256, n div 256 div 256 div 256]"

definition le32_value :: "string \<Rightarrow> nat" where
  "le32_value bs = foldr (\<lambda>c n. code_of c + 256 * n) (take 4 bs) 0"

definition ms_serialize :: "winapi \<Rightarrow> (nat \<Rightarrow> char) \<Rightarrow> modern_string \<Rightarrow> string outcome" where
  "ms_serialize api past s =
     map_out (\<lambda>result. le32 (length result mod 2 ^ 32) @ result) (ms_to_string api past s)"

definition ms_deserialize :: "string \<Rightarrow> modern_string outcome" where
  "ms_deserialize data =
     (if length data < 4 then Exn (Runtime_error ''Invalid serialized data'')
      else
        let len = le32_value data
        in if length data < 4 + len then Exn (Runtime_error ''Invalid serialized data size'')
           else Ret (Char_s (take len (drop 4 data))))"

lemma length_le32 [simp]: "length (le32 n) = 4"
  by (simp add: le32_def)

lemma low_byte: "char_of (code_of c + 256 * n) = c" "(code_of c + 256 * n) div 256 = n"
proof -
  have c: "code_of c < 256" by simp
  have "char_of (code_of c + 256 * n) = char_of (code_of c)"
    by (rule char_of_eq_iff [THEN iffD2]) (simp add: take_bit_eq_mod)
  then show "char_of (code_of c + 256 * n) = c" by simp
  show "(code_of c + 256 * n) div 256 = n" using c by simp
qed

lemma le32_value_4: "le32_value (a # b # c # d # rest)
    = code_of a + 256 * (code_of b + 256 * (code_of c + 256 * code_of d))"
  by (simp add: le32_value_def)

lemma le32_value_le32: "n < 2 ^ 32 \<Longrightarrow> le32_value (le32 n @ rest) = n"
proof -
  assume n: "n < 2 ^ 32"
  define a b c where "a = n div 256" and "b = a div 256" and "c = b div 256"
  have "c < 256" using n by (simp add: a_def b_def c_def flip: div_mult2_eq)
  moreover have "n = 256 * a + n mod 256" "a = 256 * b + a mod 256" "b = 256 * c + b mod 256"
    by (simp_all add: a_def b_def c_def)
  ultimately have "n mod 256 + 256 * (a mod 256 + 256 * (b mod 256 + 256 * (c mod 256))) = n" by simp
  then show ?thesis
    by (simp only: le32_def list.map append_Cons le32_value_4 of_char_of a_def b_def c_def)
qed

lemma le32_le32_value:
  assumes "4 \<le> length bs" shows "le32 (le32_value bs) = take 4 bs \<and> le32_value bs < 2 ^ 32"
proof -
  obtain a b c d rest where bs: "bs = a # b # c # d # rest"
    using assms by (auto simp: numeral_eq_Suc Suc_le_length_iff)
  have "i < 256 \<Longrightarrow> j < 256 \<Longrightarrow> k < 256 \<Longrightarrow> l < 256 \<Longrightarrow> i + 256 * (j + 256 * (k + 256 * l)) < 2 ^ 32"
    for i j k l :: nat by simp
  then have "le32_value bs < 2 ^ 32" unfolding bs le32_value_4 by (rule meta_mp) simp_all
  moreover have "le32 (le32_value bs) = [a, b, c, d]"
    unfolding bs le32_value_4 le32_def by (simp only: low_byte list.map) simp
  ultimately show ?thesis using bs by simp
qed

text \<open>
  C31: Deserialising accepts exactly a little-endian length, that many bytes and then anything, and
  throws on every other input. A text of fewer than 2 to the 32 bytes is read back from its
  serialised form; of a longer one only the first bytes, as many as the low 32 bits of its length say.
\<close>

theorem serialize_roundtrip:
  "(ms_deserialize data = Ret (Char_s s) \<longleftrightarrow>
      length s < 2 ^ 32 \<and> take (4 + length s) data = le32 (length s) @ s)
   \<and> bind_out (ms_serialize api past (Char_s s)) ms_deserialize = Ret (Char_s (take (length s mod 2 ^ 32) s))"
proof (intro conjI iffI)
  assume "ms_deserialize data = Ret (Char_s s)"
  then have d: "4 \<le> length data" "4 + le32_value data \<le> length data" "s = take (le32_value data) (drop 4 data)"
    by (auto simp: ms_deserialize_def Let_def not_less split: if_splits)
  then have "length s = le32_value data" by simp
  then show "length s < 2 ^ 32" "take (4 + length s) data = le32 (length s) @ s"
    using le32_le32_value [OF d(1)] d(3) by (simp_all add: take_add)
next
  assume s: "length s < 2 ^ 32 \<and> take (4 + length s) data = le32 (length s) @ s"
  let ?rest = "drop (4 + length s) data"
  have "data = le32 (length s) @ s @ ?rest"
    using s append_take_drop_id [of "4 + length s" data] by (metis append_assoc)
  moreover have "ms_deserialize (le32 (length s) @ s @ ?rest) = Ret (Char_s s)"
    using s by (simp add: ms_deserialize_def le32_value_le32)
  ultimately show "ms_deserialize data = Ret (Char_s s)" by simp
next
  show "bind_out (ms_serialize api past (Char_s s)) ms_deserialize = Ret (Char_s (take (length s mod 2 ^ 32) s))"
    by (simp add: bind_out_def ms_serialize_def map_out_def ms_deserialize_def le32_value_le32 Let_def)
qed

section \<open>Text of char8_t\<close>

text \<open>
  The bytes of a \<open>char8_t\<close> text are not UTF-16: whatever follows it in memory, \<open>AB\<close> becomes a text
  that starts with the character U+4241, so converting the text to \<open>char8_t\<close> and back loses it.
\<close>

theorem char8_to_string_wrong:
  "\<exists>rest. ms_to_string api past (Char8_s ''AB'') = Ret ([CHR 0xE4, CHR 0x89, CHR 0x81] @ rest)"
proof -
  define u where "u = (ucast (byte_at past ''AB'' 2) OR push_bit 8 (ucast (byte_at past ''AB'' 3)) :: u16)"
  have a: "(ucast (byte_at past ''AB'' 0) OR push_bit 8 (ucast (byte_at past ''AB'' 1)) :: u16) = 0x4241"
    by (simp add: byte_at_def)
  have two: "[0..<2] = [0, 1::nat]" by (simp add: upt_rec)
  have "units_of_bytes past ''AB'' = [0x4241, u]"
    using a by (simp add: units_of_bytes_def u_def two)
  moreover have "utf16_to_utf32 [0x4241, u] = 0x4241 # utf16_to_utf32 [u]"
    by (subst utf16_to_utf32.simps) (simp add: Let_def)
  moreover have "utf8_units 0x4241 = [CHR 0xE4, CHR 0x89, CHR 0x81]" by code_simp
  ultimately show ?thesis by (simp add: from_utf16_def utf32_to_utf8_concat)
qed

end
