(* ===== verification/Spec2Isabelle.thy ===== *)
theory Spec2Isabelle
  imports FtpTyped FtpDialogue AccessControl DavDocument Interference ServerSteps FawEncoding ModernText ModernFloat ModernConvert
begin

text \<open>
  netFiles, a file server for Windows with two front ends, FTP and WebDAV over HTTP.

  \<^bold>\<open>The program.\<close> \<open>main.cpp\<close> reads the arguments and accepts connections on two ports, on the event
  loops of an \<open>IOContextPool\<close> (\<open>core/io_context_pool.hpp\<close>). An FTP
  connection is served by an \<open>FTPSession\<close> (\<open>ftp/ftp_session.cpp\<close>): it reads command lines,
  gives them to the \<open>FTPCommandProcessor\<close> (\<open>ftp/ftp_command_processor.cpp\<close>) and moves data over
  the connections of its \<open>DataChannelManager\<close> and \<open>DataTransfer\<close> (\<open>ftp/data_channel.cpp\<close>). An
  HTTP connection is read by \<open>HttpParser\<close> (\<open>webdav/http_parser.cpp\<close>) and answered by
  \<open>DavRequestHandler\<close> (\<open>webdav/dav_handler.cpp\<close>) through resources (\<open>webdav/dav_resource.cpp\<close>) and a
  builder of XML (\<open>webdav/dav_namespaces.hpp\<close>). Both reach the disk through paths checked by one
  guard (\<open>PathResolver::resolve\<close>, \<open>DavRequestHandler::resolve_path\<close>, \<open>utils::sanitize_path\<close>) and
  through \<open>core/async_fs.cpp\<close>. \<open>security/access_control.cpp\<close> keeps users in a text file.

  \<^bold>\<open>Theories.\<close>
  \<^item> \<open>Prelude\<close>: outcomes (value, exception, never returning), state passing over them, the string
    searches and character classes of the C++ library.
  \<^item> \<open>CNumbers\<close>, \<open>StringUtils\<close>, \<open>WinText\<close>, \<open>WinStdio\<close>: numbers in strings; \<open>core/utils.hpp\<close>; the
    text conversions of \<open>stringUtil.h\<close> and \<open>webdav/Encoding.hpp\<close> over the Windows API, which is the
    parameter \<open>winapi\<close>; text mode of the C runtime.
  \<^item> \<open>Unicode\<close>, \<open>FawEncoding\<close>: UTF-8, UTF-16 and UTF-32 on words (\<open>stringUtil.h\<close>); guessing an encoding,
    and the percent, backslash and base64 forms (\<open>webdav/Encoding.hpp\<close>). What a decoder reads past
    the end of a text is an argument.
  \<^item> \<open>ModernString\<close>, \<open>ModernText\<close>, \<open>ModernNumbers\<close>, \<open>ModernFloat\<close>, \<open>ModernConvert\<close>: the class template
    \<open>ModernString\<close> of \<open>stringUtil.h\<close>, polymorphic in its character type: operations on text, what
    they compute, integers as words of their width, floating-point numbers over an abstract
    arithmetic, and the conversions and the serialised form. A method \<open>m\<close> is \<open>ms_m\<close>.
  \<^item> \<open>StdPath\<close>, \<open>StdFs\<close>, \<open>StdFsInv\<close>: \<open>std::filesystem\<close> on Windows: path texts and their parts, a
    file system as a map from locations (a root and a list of names) to nodes (files, directories,
    links), the operations the program calls, and the invariant \<open>wf_os\<close> they preserve.
  \<^item> \<open>PathGuard\<close>: the confinement test in its three copies and the relative path of PWD. The locale
    \<open>guard\<close> is the contract of a resolver, interpreted on all three.
  \<^item> \<open>AsyncFs\<close>: \<open>core/async_fs\<close>, every operation of \<open>AsyncFileSystemPOSIX\<close>, \<open>CNtFile\<close> and
    \<open>AsyncFileBuffered\<close>. The locale \<open>async_fs\<close> is the interface \<open>IAsyncFileSystem\<close>.
  \<^item> \<open>AccessControl\<close>: \<open>security/access_control\<close>. The locale \<open>user_store\<close> is the interface
    \<open>IUserStore\<close>, interpreted on \<open>FileUserStore\<close>.
  \<^item> \<open>Sockets\<close>: a TCP socket as a script of what arrives and of how writes go.
  \<^item> \<open>FtpTypes\<close>, \<open>DataChannel\<close>, \<open>FtpSession\<close>, \<open>FtpCommands\<close>: the FTP server, one definition per
    function; \<open>FtpConfine\<close>: what a whole session can do to the file system, by Hoare triples over
    the handlers; \<open>FtpTyped\<close>: the type of the session state; \<open>FtpProps\<close>: what single commands do;
    \<open>FtpDialogue\<close>: a whole session of a client, with all replies.
  \<^item> \<open>Transfers\<close>: LIST, NLST, RETR and STOR cut into the pieces between two waits for the network
    (\<open>command_turn\<close>, \<open>transfer_turn\<close>), which in a row are \<open>process_one_command\<close>; \<open>Interference\<close>: transfers
    whose files other sessions change between the pieces.
  \<^item> \<open>Confine\<close>: the triples, the region the guard lets through, and the changes confined to it,
    which both servers share.
  \<^item> \<open>UrlCodec\<close>, \<open>HttpMessage\<close>, \<open>HttpParser\<close>: URL coding, requests and responses, and reading a
    request from a connection.
  \<^item> \<open>StdCopy\<close>, \<open>CopyConfine\<close>: \<open>std::filesystem::copy\<close> with \<open>recursive\<close>, and that it stays in a region
    without symbolic links.
  \<^item> \<open>DavXml\<close>, \<open>DavResource\<close>, \<open>DavHandler\<close>: the XML builder, files and collections, and the handler,
    one definition per method of WebDAV and the loop of a connection; \<open>DavConfine\<close>: what a whole
    connection can do to the file system; \<open>DavProps\<close>: what single requests do; \<open>DavDocument\<close>: the
    abstract document that the text of a PROPFIND answer renders; \<open>DavPieces\<close>: a request cut where GET
    waits for the network between the head and the body.
  \<^item> \<open>IoPool\<close>: the pool, sequentially and as a step relation of several threads.
  \<^item> \<open>ServerMain\<close>: the command line, the start, the accept loops, and all connections together. The
    locale \<open>connection_handler\<close> is what a loop relies on in the coroutine of a connection.
  \<^item> \<open>ServerSteps\<close>: the connections together, as a step relation whose turns are the greeting, one
    command or one piece of a transfer of an FTP session, or one piece of a WebDAV request, of any open
    connection on the shared files.

  \<^bold>\<open>Correspondence.\<close> A class is a record of its fields, a method a definition of its name; a
  coroutine is a state-passing function. \<open>Exn e\<close> is a thrown exception, \<open>Hang\<close> a read, accept or
  connect that never completes. A session's record holds the control socket, the stream buffer,
  the network (free ports, incoming connections) and the file system. \<open>std::string\<close> is a list of
  bytes; hash tables are association lists whose iteration order is an argument where it shows.

  \<^bold>\<open>Bounds.\<close> Loops over a socket terminate because each read makes \<open>pending\<close> smaller; the loop
  that sends a file because each read makes the rest of the file shorter; the loop of a WebDAV
  connection because each request reads something. All turns of all connections together end
  (\<open>turns_end\<close>, by a multiset order on what each connection has left): a download of a file that
  others make longer stops at the \<open>SIZE_MAX\<close> bytes it may send. Four loops need not end and are partial
  functions, where \<open>None\<close> is not returning: the one that writes the body of a PUT (\<open>put_loop\<close>, for
  which \<open>put_loop_iff\<close> says when it ends), the recursive copy (\<open>copy_all\<close>), and \<open>split_by\<close> and \<open>replace\<close>
  of \<open>ModernString\<close>, which do not return for an empty pattern. Links are followed at
  most 63 times, as Windows does. Sizes are kept modulo 2 to the 64 where the code adds them up,
  ports in 16 bits.

  \<^bold>\<open>Results.\<close> \<open>session_confined\<close> and \<open>dav_confined\<close> bound the effects of any FTP session and any
  WebDAV connection on the file system by what the guard lets through, \<open>interleaved_confined\<close> those of
  any number of them in any order of their commands, blocks and requests (\<open>serve_all_is_schedule\<close>: one
  after another is one such order), \<open>open_files_confined\<close> what they have open, and \<open>resolve_exact\<close> says
  what the guard lets through. For WebDAV, and for the servers together, this needs that the text of the
  root directory leads to it through no symbolic link, that no link lies in the root or above it (a copied
  directory would write through it) and that no name has a colon, which Windows ensures; a single FTP
  session needs none of this. \<open>propfind_refines\<close> relates the text of an answer to a
  document, and \<open>put_terminates\<close> shows that the parser keeps PUT from looping. \<open>session_state_typed\<close> is the type
  of the states a client can bring a session into. A session that never logs in changes no file
  (\<open>login_before_changes\<close>). \<open>download_dialogue\<close> and \<open>upload_dialogue\<close> are sessions as
  their client sees them, for ASCII names on a network that does not fail; the second shows that an upload
  is written and then reported as failed, as \<open>handler_error_answered\<close> says of every exception of a handler. A download whose
  file nobody else changes is not disturbed (\<open>download_isolated\<close>), one whose file is replaced mixes the
  versions (\<open>download_mixes\<close>), and uploads to different files commute (\<open>uploads_commute\<close>). The remaining properties state
  the behaviour of the parts, including where it is not what their comments promise.

  \<^bold>\<open>Not modelled.\<close> The Asio runtime; two contexts truly in parallel: a turn here runs from one wait for
  the network to the next, as on one context, but FTP and WebDAV connections have a context each, so
  their calls on the file system may alternate within a turn. A file that a transfer has open may be
  deleted or replaced by others here, where Windows may refuse; ports that one session takes from another, since each session has a network of its own; TLS,
  logging and the Windows API itself; of \<open>ModernString\<close>, plain access to the field, the printing of
  floating-point numbers, and \<open>concat\<close> and \<open>format\<close>, which do not compile. Signed overflow
  (\<open>parse_number\<close>) is taken to wrap around. The streams of the C runtime have no buffers here: a read sees
  the file as it is on disk at that moment and a write is there at once, which makes a difference only
  to other writers of the same file, and none to \<open>download_mixes\<close>, whose first block a stream reads past its
  buffer. A copy of a directory into itself never ends and leaves nothing (\<open>collection_copy\<close>), where the
  code goes on until an error and leaves what it has made so far. Of Windows paths, letter case is significant here, names keep
  trailing dots and spaces, and there are no alternate streams. The lock of a WebDAV resource
  lives in the resource, which lives for one request, so the locks of a handler are no part of
  its state. \<open>get_rename_from\<close> returns a dangling reference; the model takes the value meant.
\<close>

end
